(* ===== verification/Prelude.thy ===== *)
theory Prelude
  imports
    Complex_Main
    "HOL-Library.Word"
    "HOL-Library.Multiset"
    "HOL-Library.AList"
    "HOL-Library.Char_ord"
    "HOL-Library.List_Lexorder"
    "HOL-Library.Signed_Division"
    "HOL-Library.State_Monad"
begin

text \<open>
  What every theory of the development shares: Go's fixed-width integers with their
  wrap-around, Go maps as association lists with distinct keys, slices of strings, and
  the generic list lemmas the component theories use. The collections \<open>gomap\<close> and
  \<open>goint\<close> hold the rewrite rules for maps and integers.
\<close>

named_theorems gomap \<open>lookup and update laws of Go maps\<close>
named_theorems goint \<open>when a Go integer conversion is the identity\<close>

section \<open>Go integers\<close>

text \<open>
  Values of the types int32 and int64 are integers in range. A conversion or an arithmetic
  operation that may leave the range wraps around in two's complement.
\<close>

definition to_i32 :: "int \<Rightarrow> int" where
  "to_i32 x = signed_take_bit 31 x"

definition to_i64 :: "int \<Rightarrow> int" where
  "to_i64 x = signed_take_bit 63 x"

definition in_i32 :: "int \<Rightarrow> bool" where
  "in_i32 x \<longleftrightarrow> - (2 ^ 31) \<le> x \<and> x < 2 ^ 31"

definition in_i64 :: "int \<Rightarrow> bool" where
  "in_i64 x \<longleftrightarrow> - (2 ^ 63) \<le> x \<and> x < 2 ^ 63"

lemma to_i32_id [goint]: "in_i32 x \<Longrightarrow> to_i32 x = x"
  by (simp add: to_i32_def in_i32_def signed_take_bit_int_eq_self)

lemma to_i64_id [goint]: "in_i64 x \<Longrightarrow> to_i64 x = x"
  by (simp add: to_i64_def in_i64_def signed_take_bit_int_eq_self)

lemma in_i32_to_i32: "in_i32 (to_i32 x)"
  using signed_take_bit_int_less_exp [of 31 x]
    signed_take_bit_int_greater_eq_minus_exp [of 31 x]
  by (simp add: in_i32_def to_i32_def)

lemma in_i64_to_i64: "in_i64 (to_i64 x)"
  using signed_take_bit_int_less_exp [of 63 x]
    signed_take_bit_int_greater_eq_minus_exp [of 63 x]
  by (simp add: in_i64_def to_i64_def)

text \<open>Division of Go's integers truncates towards zero; on non-negative values it is \<open>div\<close>.\<close>

lemma sdiv_nonneg [goint]: "0 \<le> x \<Longrightarrow> 0 \<le> y \<Longrightarrow> (x::int) sdiv y = x div y"
  by (simp add: signed_divide_int_def sgn_if)

section \<open>Go maps\<close>

text \<open>
  A Go map from strings is an association list with distinct keys. The order of the list is
  not observable in the code: iteration over a map goes through a parameter that picks an
  arbitrary order.
\<close>

type_synonym 'v gomap = "(string \<times> 'v) list"

definition mget :: "string \<Rightarrow> 'v gomap \<Rightarrow> 'v option" where
  "mget k m = map_of m k"

definition mput :: "string \<Rightarrow> 'v \<Rightarrow> 'v gomap \<Rightarrow> 'v gomap" where
  "mput k v m = AList.update k v m"

definition mkeys :: "'v gomap \<Rightarrow> string list" where
  "mkeys m = map fst m"

lemma mget_Nil [simp]: "mget k [] = None"
  by (simp add: mget_def)

lemma mget_Cons [simp]: "mget k ((a, v) # m) = (if k = a then Some v else mget k m)"
  by (simp add: mget_def)

lemma mget_mput [gomap, simp]: "mget k (mput j v m) = (if k = j then Some v else mget k m)"
  by (simp add: mget_def mput_def update_conv')

lemma mput_Nil [simp]: "mput k v [] = [(k, v)]"
  by (simp add: mput_def)

lemma mput_Cons [simp]:
  "mput k v ((a, w) # m) = (if a = k then (a, v) # m else (a, w) # mput k v m)"
  by (simp add: mput_def)

lemma distinct_mput [gomap, simp]: "distinct (map fst m) \<Longrightarrow> distinct (map fst (mput k v m))"
  by (simp add: mput_def distinct_update)

lemma set_mkeys_mput [gomap, simp]: "set (mkeys (mput k v m)) = insert k (set (mkeys m))"
  by (simp add: mkeys_def mput_def dom_update)

lemma mget_Some_key: "mget k m = Some v \<Longrightarrow> k \<in> set (mkeys m)"
  by (auto simp: mget_def mkeys_def dest: map_of_SomeD intro: rev_image_eqI)

lemma mget_key_Some: "k \<in> set (mkeys m) \<Longrightarrow> \<exists>v. mget k m = Some v"
  by (auto simp: mget_def mkeys_def dest: weak_map_of_SomeI)

lemma mget_None_iff [gomap]: "mget k m = None \<longleftrightarrow> k \<notin> set (mkeys m)"
  by (simp add: mget_def mkeys_def map_of_eq_None_iff)

lemma mget_set: "mget k m = Some v \<Longrightarrow> (k, v) \<in> set m"
  by (simp add: mget_def map_of_SomeD)

lemma mput_same: "mget k m = Some v \<Longrightarrow> mput k v m = m"
  by (induction m) (auto split: if_splits)

lemma mput_mput [simp]: "mput k v (mput k w m) = mput k v m"
  by (induction m) auto

section \<open>Lists\<close>

lemma dropWhile_idle: "(\<And>x. x \<in> set xs \<Longrightarrow> \<not> P x) \<Longrightarrow> dropWhile P xs = xs"
  by (cases xs) auto

lemma filter_not_none: "\<forall>x \<in> set xs. P x \<Longrightarrow> filter (\<lambda>x. \<not> P x) xs = []"
  by (simp add: filter_empty_conv)

end
