(* ===== verification/GoString.thy ===== *)
theory GoString
  imports Prelude
begin

text \<open>
  What the controller uses of Go's strings, \<open>strings\<close>, \<open>unicode/utf8\<close> and \<open>fmt\<close>. A Go
  string is a sequence of bytes, here a list of 8-bit characters; the functions that work on
  runes decode UTF-8 the way \<open>utf8.DecodeRuneInString\<close> does, an invalid byte counting as one
  replacement rune. \<open>unicode.ToLower\<close> is given in full for the runes whose lower case is
  ASCII; any other rune is left alone, which its one caller cannot tell apart, because it
  replaces every rune outside ASCII.
\<close>

section \<open>Runes\<close>

type_synonym rune = nat

definition byte :: "char \<Rightarrow> nat" where
  "byte c = of_char c"

definition is_ascii :: "string \<Rightarrow> bool" where
  "is_ascii s \<longleftrightarrow> (\<forall>c \<in> set s. byte c < 128)"

definition cont :: "nat \<Rightarrow> bool" where
  "cont b \<longleftrightarrow> 128 \<le> b \<and> b \<le> 191"

definition rune_error :: rune where
  "rune_error = 65533"

text \<open>
  \<open>decode_rune c cs\<close>: the rune that starts at byte \<open>c\<close> when \<open>cs\<close> follows, with the number
  of further bytes it takes.
\<close>

definition decode_rune :: "char \<Rightarrow> string \<Rightarrow> rune \<times> nat" where
  "decode_rune c cs =
     (let b0 = byte c; b = (\<lambda>i. if i < length cs then byte (cs ! i) else 0) in
      if b0 < 128 then (b0, 0)
      else if 194 \<le> b0 \<and> b0 \<le> 223 \<and> cont (b 0)
        then ((b0 - 192) * 64 + (b 0 - 128), 1)
      else if 224 \<le> b0 \<and> b0 \<le> 239 \<and> cont (b 0) \<and> cont (b 1)
          \<and> (b0 = 224 \<longrightarrow> 160 \<le> b 0) \<and> (b0 = 237 \<longrightarrow> b 0 \<le> 159)
        then ((b0 - 224) * 4096 + (b 0 - 128) * 64 + (b 1 - 128), 2)
      else if 240 \<le> b0 \<and> b0 \<le> 244 \<and> cont (b 0) \<and> cont (b 1) \<and> cont (b 2)
          \<and> (b0 = 240 \<longrightarrow> 144 \<le> b 0) \<and> (b0 = 244 \<longrightarrow> b 0 \<le> 143)
        then ((b0 - 240) * 262144 + (b 0 - 128) * 4096 + (b 1 - 128) * 64 + (b 2 - 128), 3)
      else (rune_error, 0))"

text \<open>The runes of a string, each with the bytes it was decoded from.\<close>

fun runes :: "string \<Rightarrow> (rune \<times> string) list" where
  "runes [] = []"
| "runes (c # cs) =
     (let (r, k) = decode_rune c cs in (r, c # take k cs) # runes (drop k cs))"

lemma decode_rune_ascii [simp]: "byte c < 128 \<Longrightarrow> decode_rune c cs = (byte c, 0)"
  by (simp add: decode_rune_def Let_def)

lemma decode_rune_big: "\<not> byte c < 128 \<Longrightarrow> 128 \<le> fst (decode_rune c cs)"
  by (auto simp: decode_rune_def Let_def rune_error_def cont_def)

lemma is_ascii_simps [simp]:
  "is_ascii []"
  "is_ascii (c # cs) \<longleftrightarrow> byte c < 128 \<and> is_ascii cs"
  "is_ascii (s @ t) \<longleftrightarrow> is_ascii s \<and> is_ascii t"
  by (auto simp: is_ascii_def)

lemma runes_ascii: "is_ascii s \<Longrightarrow> runes s = map (\<lambda>c. (byte c, [c])) s"
  by (induction s) auto

lemma concat_runes: "concat (map snd (runes s)) = s"
proof (induction s rule: runes.induct)
  case (2 c cs)
  then show ?case by (auto simp: Let_def split: prod.splits)
qed simp

lemma runes_eq_Nil [simp]: "runes s = [] \<longleftrightarrow> s = []"
  by (cases s) (auto simp: Let_def split: prod.splits)

section \<open>The functions of package strings\<close>

text \<open>\<open>unicode.IsSpace\<close>.\<close>

definition is_space :: "rune \<Rightarrow> bool" where
  "is_space r \<longleftrightarrow> (9 \<le> r \<and> r \<le> 13) \<or> r = 32 \<or> r = 133 \<or> r = 160 \<or> r = 5760
     \<or> (8192 \<le> r \<and> r \<le> 8202) \<or> r = 8232 \<or> r = 8233 \<or> r = 8239 \<or> r = 8287 \<or> r = 12288"

definition trim_list :: "('a \<Rightarrow> bool) \<Rightarrow> 'a list \<Rightarrow> 'a list" where
  "trim_list P xs = rev (dropWhile P (rev (dropWhile P xs)))"

text \<open>\<open>strings.TrimSpace\<close>.\<close>

definition TrimSpace :: "string \<Rightarrow> string" where
  "TrimSpace s = concat (map snd (trim_list (\<lambda>x. is_space (fst x)) (runes s)))"

text \<open>
  \<open>strings.ToLower\<close>. The runes U+0130 and U+212A lower to the ASCII letters i and k; an
  invalid byte becomes the encoding of the replacement rune.
\<close>

definition lower_rune :: "rune \<times> string \<Rightarrow> string" where
  "lower_rune x =
     (let r = fst x in
      if 65 \<le> r \<and> r \<le> 90 then [char_of (r + 32)]
      else if r = 304 then ''i''
      else if r = 8490 then ''k''
      else if r = rune_error then [char_of (239::nat), char_of (191::nat), char_of (189::nat)]
      else snd x)"

definition ToLower :: "string \<Rightarrow> string" where
  "ToLower s = concat (map lower_rune (runes s))"

text \<open>\<open>strings.ReplaceAll\<close> of a one-byte ASCII string by another.\<close>

definition replace_byte :: "char \<Rightarrow> char \<Rightarrow> string \<Rightarrow> string" where
  "replace_byte a b s = map (\<lambda>c. if c = a then b else c) s"

text \<open>\<open>strings.Map\<close> with a function that returns an ASCII rune for every rune.\<close>

definition map_runes :: "(rune \<Rightarrow> char) \<Rightarrow> string \<Rightarrow> string" where
  "map_runes f s = map (\<lambda>x. f (fst x)) (runes s)"

text \<open>\<open>strings.Trim(s, "-")\<close> for a one-character ASCII cut set.\<close>

definition trim_char :: "char \<Rightarrow> string \<Rightarrow> string" where
  "trim_char c s = trim_list (\<lambda>x. x = c) s"

text \<open>\<open>strings.HasPrefix\<close>.\<close>

definition HasPrefix :: "string \<Rightarrow> string \<Rightarrow> bool" where
  "HasPrefix s p \<longleftrightarrow> take (length p) s = p"

text \<open>\<open>strings.SplitN(s, sep, 2)\<close> for a one-byte separator.\<close>

definition splitN2 :: "string \<Rightarrow> char \<Rightarrow> string list" where
  "splitN2 s sep =
     (if sep \<in> set s
      then [takeWhile (\<lambda>c. c \<noteq> sep) s, tl (dropWhile (\<lambda>c. c \<noteq> sep) s)]
      else [s])"

text \<open>\<open>strings.Join\<close>.\<close>

fun join :: "string \<Rightarrow> string list \<Rightarrow> string" where
  "join sep [] = []"
| "join sep [s] = s"
| "join sep (s # ss) = s @ sep @ join sep ss"

text \<open>The verb \<open>%d\<close> of \<open>fmt\<close>.\<close>

definition digit :: "nat \<Rightarrow> char" where
  "digit d = char_of (48 + d)"

fun show_nat :: "nat \<Rightarrow> string" where
  "show_nat n = (if n < 10 then [digit n] else show_nat (n div 10) @ [digit (n mod 10)])"

declare show_nat.simps [simp del]

definition show_int :: "int \<Rightarrow> string" where
  "show_int i = (if i < 0 then CHR ''-'' # show_nat (nat (- i)) else show_nat (nat i))"

section \<open>Facts about them\<close>

lemma HasPrefix_append [simp]: "HasPrefix (p @ s) p"
  by (simp add: HasPrefix_def)

lemma HasPrefix_iff: "HasPrefix s p \<longleftrightarrow> (\<exists>t. s = p @ t)"
  by (metis HasPrefix_append HasPrefix_def append_take_drop_id)

lemma HasPrefix_Nil_iff: "HasPrefix [] p \<longleftrightarrow> p = []"
  by (auto simp: HasPrefix_def)

lemma HasPrefix_trans: "HasPrefix s p \<Longrightarrow> HasPrefix p q \<Longrightarrow> HasPrefix s q"
  by (auto simp: HasPrefix_iff)

lemma set_trim_list: "set (trim_list P xs) \<subseteq> set xs"
  by (auto simp: trim_list_def dest!: set_dropWhileD)

lemma trim_list_hd: "trim_list P xs \<noteq> [] \<Longrightarrow> \<not> P (hd (trim_list P xs))"
proof -
  let ?d = "dropWhile P xs"
  assume ne: "trim_list P xs \<noteq> []"
  then have dne: "?d \<noteq> []" by (auto simp: trim_list_def simp del: dropWhile_eq_Nil_conv)
  have "\<exists>ys. ?d = trim_list P xs @ ys"
    by (metis rev_append rev_rev_ident takeWhile_dropWhile_id trim_list_def)
  then have "hd (trim_list P xs) = hd ?d" using ne by auto
  then show ?thesis using dne by (simp add: hd_dropWhile)
qed

lemma trim_list_last: "trim_list P xs \<noteq> [] \<Longrightarrow> \<not> P (last (trim_list P xs))"
  by (simp add: trim_list_def last_rev hd_dropWhile)

lemma trim_list_idle:
  assumes "xs \<noteq> [] \<Longrightarrow> \<not> P (hd xs)" and "xs \<noteq> [] \<Longrightarrow> \<not> P (last xs)"
  shows "trim_list P xs = xs"
proof (cases "xs = []")
  case False
  then have "dropWhile P xs = xs" using assms(1) by (cases xs) auto
  moreover have "dropWhile P (rev xs) = rev xs"
    using assms(2) False by (cases xs rule: rev_cases) auto
  ultimately show ?thesis by (simp add: trim_list_def)
qed (simp add: trim_list_def)

lemma trim_list_map: "trim_list P (map f xs) = map f (trim_list (\<lambda>x. P (f x)) xs)"
  by (simp add: trim_list_def dropWhile_map rev_map o_def)

lemma trim_list_eq_Nil: "trim_list P xs = [] \<longleftrightarrow> (\<forall>x \<in> set xs. P x)"
proof
  assume t: "trim_list P xs = []"
  show "\<forall>x \<in> set xs. P x"
  proof (rule ccontr)
    assume "\<not> (\<forall>x \<in> set xs. P x)"
    then have ne: "dropWhile P xs \<noteq> []" by simp
    from t have "\<forall>x \<in> set (dropWhile P xs). P x"
      by (simp add: trim_list_def)
    with ne hd_dropWhile [OF ne] show False by (metis hd_in_set)
  qed
next
  assume "\<forall>x \<in> set xs. P x"
  then show "trim_list P xs = []"
    using dropWhile_eq_Nil_conv [of P xs] by (simp add: trim_list_def del: dropWhile_eq_Nil_conv)
qed

lemma TrimSpace_ascii: "is_ascii s \<Longrightarrow> TrimSpace s = trim_list (\<lambda>c. is_space (byte c)) s"
  by (simp add: TrimSpace_def runes_ascii trim_list_map o_def)

lemma replace_byte_idle: "a \<notin> set s \<Longrightarrow> replace_byte a b s = s"
  by (auto simp: replace_byte_def intro!: map_idI)

lemma char_of_byte [simp]: "char_of (byte c) = c"
  by (simp add: byte_def)

lemma byte_char_of [simp]: "n < 256 \<Longrightarrow> byte (char_of n) = n"
  by (simp add: byte_def)

lemma byte_inj: "byte a = byte b \<longleftrightarrow> a = b"
  by (simp add: byte_def)

lemma show_nat_digits: "c \<in> set (show_nat n) \<Longrightarrow> 48 \<le> byte c \<and> byte c \<le> 57"
proof (induction n rule: show_nat.induct)
  case (1 n)
  show ?case
  proof (cases "n < 10")
    case True
    with "1.prems" show ?thesis by (subst (asm) show_nat.simps) (auto simp: digit_def)
  next
    case False
    with "1.prems" have "c \<in> set (show_nat (n div 10)) \<or> c = digit (n mod 10)"
      by (subst (asm) show_nat.simps) auto
    then show ?thesis
    proof
      assume "c \<in> set (show_nat (n div 10))"
      then show ?thesis using "1.IH" False by blast
    next
      assume "c = digit (n mod 10)"
      moreover have "n mod 10 < 10" by simp
      ultimately show ?thesis by (simp add: digit_def)
    qed
  qed
qed

lemma show_nat_not_Nil [simp]: "show_nat n \<noteq> []"
  by (subst show_nat.simps) auto

text \<open>Reading the digits back: \<open>%d\<close> is injective.\<close>

definition read_nat :: "string \<Rightarrow> nat" where
  "read_nat s = foldl (\<lambda>n c. n * 10 + (byte c - 48)) 0 s"

lemma read_show_nat: "read_nat (show_nat n) = n"
proof (induction n rule: show_nat.induct)
  case (1 n)
  show ?case
  proof (cases "n < 10")
    case True
    then show ?thesis by (subst show_nat.simps) (simp add: read_nat_def digit_def)
  next
    case False
    have "n mod 10 < 10" by simp
    with False "1.IH" show ?thesis
      by (subst show_nat.simps) (simp add: read_nat_def digit_def)
  qed
qed

lemma show_nat_inj: "show_nat m = show_nat n \<longleftrightarrow> m = n"
  by (metis read_show_nat)

lemma splitN2_join: "sep \<notin> set a \<Longrightarrow> splitN2 (a @ sep # b) sep = [a, b]"
proof -
  assume "sep \<notin> set a"
  then have "takeWhile (\<lambda>c. c \<noteq> sep) a = a" and "dropWhile (\<lambda>c. c \<noteq> sep) a = []"
    by auto
  then show ?thesis using \<open>sep \<notin> set a\<close>
    by (simp add: splitN2_def takeWhile_tail dropWhile_append)
qed

lemma splitN2_self: "splitN2 (a @ sep # b) sep = [a, b] \<longleftrightarrow> sep \<notin> set a"
proof
  assume "splitN2 (a @ sep # b) sep = [a, b]"
  then have "takeWhile (\<lambda>c. c \<noteq> sep) (a @ sep # b) = a" by (simp add: splitN2_def)
  then show "sep \<notin> set a" by (metis set_takeWhileD)
qed (rule splitN2_join)

end
