(* ===== verification/ApiTypes.thy ===== *)
theory ApiTypes
  imports GoString
begin

text \<open>
  The data of the API group \<open>chaos.sghaida.io/v1alpha1\<close>: one record per Go struct of
  \<open>src/api/v1alpha1\<close>, fields in the order of the struct, a pointer or an optional field as an
  option where the code tells nil from a value. Go's \<open>string\<close> enumerations stay strings,
  because the controller handles values outside the enumeration. Times are nanoseconds since
  the Unix epoch. The records of Kubernetes' own objects hold the fields the controller reads
  or writes.
\<close>

section \<open>Time\<close>

type_synonym time = int

definition second :: int where
  "second = 1000000000"

text \<open>Go's zero \<open>time.Time\<close>, 1 January of year 1 UTC.\<close>

definition zero_time :: time where
  "zero_time = - 62135596800 * second"

text \<open>\<open>time.Time.Sub\<close> saturates at the ends of \<open>time.Duration\<close>, a signed 64-bit number.\<close>

definition time_sub :: "time \<Rightarrow> time \<Rightarrow> int" where
  "time_sub t u = max (- (2 ^ 63)) (min (2 ^ 63 - 1) (t - u))"

section \<open>Metadata\<close>

record ownerRef =
  orKind :: string
  orName :: string
  orUID :: string
  orController :: bool

record objMeta =
  oNamespace :: string
  oName :: string
  oUID :: string
  oResourceVersion :: string
  oLabels :: "string gomap"
  oAnnotations :: "string gomap"
  oOwners :: "ownerRef list"
  oDeletionTimestamp :: "time option"

section \<open>Mesh faults (mesh_fault_types.go and faultinjection_types.go)\<close>

record labelSelector =
  lsMatchLabels :: "string gomap"

record delayConfig =
  dcFixedDelaySeconds :: int

record timeoutConfig =
  tcTimeoutSeconds :: int

record abortConfig =
  acHTTPStatus :: int

record virtualServiceRef =
  vrName :: string

record hTTPMatch =
  hmURIPrefix :: string
  hmURIExact :: string
  hmHeaders :: "string gomap"

record hTTPRouteTarget =
  rtMatch :: hTTPMatch

record hTTPFaultSpec =
  hfVirtualServiceRef :: "virtualServiceRef option"
  hfDestinationHosts :: "string list"
  hfSourceSelector :: "labelSelector option"
  hfRoutes :: "hTTPRouteTarget list"
  hfDelay :: "delayConfig option"
  hfAbort :: "abortConfig option"
  hfTimeout :: "timeoutConfig option"

record meshFaultAction =
  maName :: string
  maDirection :: string
  maType :: string
  maPercent :: int
  maHTTP :: hTTPFaultSpec

section \<open>Pod faults (pod_fault_types.go)\<close>

abbreviation (input) ExecutionModeOneShot :: string where "ExecutionModeOneShot \<equiv> ''ONE_SHOT''"
abbreviation (input) ExecutionModeWindowed :: string where "ExecutionModeWindowed \<equiv> ''WINDOWED''"
abbreviation (input) PodSelectionModeCount :: string where "PodSelectionModeCount \<equiv> ''COUNT''"
abbreviation (input) PodSelectionModePercent :: string where "PodSelectionModePercent \<equiv> ''PERCENT''"
abbreviation (input) PodTerminationModeGraceful :: string where "PodTerminationModeGraceful \<equiv> ''GRACEFUL''"
abbreviation (input) PodTerminationModeForceful :: string where "PodTerminationModeForceful \<equiv> ''FORCEFUL''"

record podFaultPolicy =
  ppExecutionMode :: string

record podWindowSpec =
  pwIntervalSeconds :: int
  pwMaxTotalPodsAffected :: int

record podTargetSpec =
  ptNamespace :: string
  ptSelector :: labelSelector

record podSelectionSpec =
  psMode :: string
  psCount :: "int option"
  psPercent :: "int option"
  psMaxPodsAffected :: "int option"

record podTerminationSpec =
  trMode :: string
  trGracePeriodSeconds :: int

record podGuardrailsSpec =
  pgRefuseIfPodsLessThan :: int
  pgRespectPodDisruptionBudget :: bool

record podFaultAction =
  paName :: string
  paType :: string
  paTarget :: podTargetSpec
  paSelection :: podSelectionSpec
  paTermination :: podTerminationSpec
  paPolicy :: "podFaultPolicy option"
  paWindow :: "podWindowSpec option"
  paGuardrails :: podGuardrailsSpec

record podFaultTickStatus =
  tkActionName :: string
  tkTickID :: string
  tkPlannedAt :: "time option"
  tkPlannedPods :: "string list"
  tkJobName :: string
  tkExecutedAt :: "time option"
  tkState :: string
  tkMessage :: string

section \<open>Stop conditions (faultinjection_types.go and metrics_types.go)\<close>

text \<open>JSON carries no NaN and no infinity, so every float64 of the API is a rational number.\<close>

record metricRef =
  mrName :: string
  mrType :: string

record metricQuery =
  mqKind :: string
  mqAggregation :: string
  mqQuantile :: "rat option"

record metricMatch =
  mmLabels :: "string gomap"
  mmGroupBy :: "string list"

record metricCompare =
  mcOp :: string
  mcThreshold :: rat

record structuredQuery =
  sqMetric :: metricRef
  sqQuery :: metricQuery
  sqMatch :: metricMatch

record stopDefaults =
  sdIntervalSeconds :: int
  sdWindowSeconds :: int
  sdConsecutiveBreaches :: int

record stopRule =
  srName :: string
  srIntervalSeconds :: int
  srWindowSeconds :: int
  srConsecutiveBreaches :: int
  srPromQL :: string
  srStructured :: "structuredQuery option"
  srCompare :: metricCompare

record stopConditionsSpec =
  scOverallBreachesCount :: "int option"
  scFailOnNoMetrics :: "bool option"
  scDefaults :: "stopDefaults option"
  scRules :: "stopRule list"

record stopRuleStatus =
  ruName :: string
  ruLastEvaluatedAt :: "time option"
  ruBreachCount :: int
  ruLastObserved :: rat
  ruLastQuery :: string
  ruMessage :: string

section \<open>Errors and status messages\<close>

text \<open>
  What the API server answers when a request fails; \<open>OtherError\<close> stands for every error the
  code does not tell apart.
\<close>

datatype apiError = NotFound | AlreadyExists | Conflict | OtherError string

text \<open>
  One constructor per error the controller builds, with the values it formats into the text.
  \<open>EPanic\<close> is a run-time panic (a nil dereference or a slice out of range), which unwinds the
  reconcile and which controller-runtime turns into an error of that reconcile.
\<close>

datatype goerr =
    EApi apiError
  | EPanic
  | EDuration
  | ETraffic string int int
  | ENoDelay string
  | ENoAbort string
  | EType string string
  | ERoute string nat
  | ENoVSRef string
  | ENoHosts string
  | EDirection string string
  | ENoSourceLabels int string
  | ECountPods string goerr
  | EPodsExceeded string int int
  | EPFNamespace string string string
  | EPFWindowMissing string
  | EPFInterval string
  | EPFMaxTotal string
  | EPFWindowForbidden string
  | EPFCount string
  | EPFPercent string
  | EPFMode string string
  | EPFForceful string
  | EPFGraceful string
  | EPFRefuse string
  | EPFCountPods string goerr
  | EPFTooFew string int int string
  | EVSNotFound string string
  | EPlanCount string
  | EPlanPercent string
  | EPlanMode string string
  | EPlanWindowNil string
  | EPlanInterval string int
  | ELeaseNoLongerStale

text \<open>The texts that end up in \<open>status.message\<close>: a literal, or one built from values.\<close>

datatype message =
    Msg string
  | MsgErr goerr
  | MsgVSFailed string string goerr
  | MsgUnsafe string string
  | MsgTickFailed string string string string
  | MsgRefused string int int

section \<open>FaultInjection (faultinjection_types.go)\<close>

abbreviation (input) ErrorPhase :: string where "ErrorPhase \<equiv> ''Error''"
abbreviation (input) RunningPhase :: string where "RunningPhase \<equiv> ''Running''"
abbreviation (input) CompletedPhase :: string where "CompletedPhase \<equiv> ''Completed''"
abbreviation (input) CancelledPhase :: string where "CancelledPhase \<equiv> ''Cancelled''"

record blastRadiusSpec =
  brDurationSeconds :: int
  brMaxTrafficPercent :: int
  brScope :: string
  brMaxPodsAffected :: int

record actionsSpec =
  asMeshFaults :: "meshFaultAction list"
  asPodFaults :: "podFaultAction list"

record faultInjectionSpec =
  spBlastRadius :: blastRadiusSpec
  spActions :: actionsSpec
  spCancel :: bool
  spStopConditions :: "stopConditionsSpec option"

record faultInjectionStatus =
  stPhase :: string
  stStartedAt :: "time option"
  stExpiresAt :: "time option"
  stMessage :: message
  stCancelledAt :: "time option"
  stStopReason :: string
  stRules :: "stopRuleStatus list"
  stPodFaults :: "podFaultTickStatus list"

record faultInjection =
  fiMeta :: objMeta
  fiSpec :: faultInjectionSpec
  fiStatus :: faultInjectionStatus

abbreviation fiName :: "faultInjection \<Rightarrow> string" where
  "fiName fi \<equiv> oName (fiMeta fi)"

abbreviation fiNamespace :: "faultInjection \<Rightarrow> string" where
  "fiNamespace fi \<equiv> oNamespace (fiMeta fi)"

abbreviation fiUID :: "faultInjection \<Rightarrow> string" where
  "fiUID fi \<equiv> oUID (fiMeta fi)"

abbreviation meshFaults :: "faultInjection \<Rightarrow> meshFaultAction list" where
  "meshFaults fi \<equiv> asMeshFaults (spActions (fiSpec fi))"

abbreviation podFaults :: "faultInjection \<Rightarrow> podFaultAction list" where
  "podFaults fi \<equiv> asPodFaults (spActions (fiSpec fi))"

section \<open>The Kubernetes objects the controller handles\<close>

text \<open>A pod, of which the controller reads the metadata and the phase.\<close>

record podObj =
  pdMeta :: objMeta
  pdPhase :: string

text \<open>A Deployment, of which the controller reads the metadata only.\<close>

record deploymentObj =
  dpMeta :: objMeta

text \<open>A coordination Lease.\<close>

record leaseObj =
  leMeta :: objMeta
  leHolderIdentity :: "string option"
  leAcquireTime :: "time option"
  leRenewTime :: "time option"
  leLeaseDurationSeconds :: "int option"

text \<open>A Job: the pod template is the executor container the controller fills in.\<close>

record jobCondition =
  jcType :: string
  jcStatus :: string

record jobObj =
  jbMeta :: objMeta
  jbBackoffLimit :: int
  jbActiveDeadlineSeconds :: int
  jbTTLSecondsAfterFinished :: int
  jbTemplateLabels :: "string gomap"
  jbTemplateAnnotations :: "string gomap"
  jbRestartPolicy :: string
  jbServiceAccountName :: string
  jbContainerName :: string
  jbImage :: string
  jbImagePullPolicy :: string
  jbCommand :: "string list"
  jbArgs :: "string list"
  jbEnv :: "(string \<times> string) list"
  jbConditions :: "jobCondition list"
  jbCompletionTime :: "time option"
  jbSucceeded :: int
  jbFailed :: int

definition new_meta :: "string \<Rightarrow> string \<Rightarrow> string gomap \<Rightarrow> string gomap \<Rightarrow> objMeta" where
  "new_meta ns n ls an =
     \<lparr>oNamespace = ns, oName = n, oUID = [], oResourceVersion = [], oLabels = ls,
      oAnnotations = an, oOwners = [], oDeletionTimestamp = None\<rparr>"

lemma new_meta_simps [simp]:
  "oNamespace (new_meta ns n ls an) = ns"
  "oName (new_meta ns n ls an) = n"
  "oLabels (new_meta ns n ls an) = ls"
  "oAnnotations (new_meta ns n ls an) = an"
  "oOwners (new_meta ns n ls an) = []"
  by (simp_all add: new_meta_def)

end
