(* ===== verification/Json.thy ===== *)
theory Json
  imports ApiTypes
begin

text \<open>
  The untyped values of \<open>unstructured.Unstructured\<close> (\<open>map[string]any\<close>, \<open>[]any\<close> and the
  scalars), the helpers of \<open>src/internal/controller/helpers.go\<close> that read and copy them, and
  \<open>deepEqualHTTP\<close>, which compares two rule lists by their \<open>%v\<close> text. A float64 is represented
  by the text \<open>%v\<close> prints for it, so that it needs no rendering of its own. A map of strings
  stored in a rule (\<open>map[string]string\<close>) is a \<open>JMap\<close> of \<open>JStr\<close> values: \<open>%v\<close> prints both alike
  and the API server returns the second.
\<close>

datatype jval =
    JNull
  | JBool bool
  | JInt int
  | JFloat string
  | JStr string
  | JList "jval list"
  | JMap "(string \<times> jval) list"

type_synonym jobj = "jval gomap"

section \<open>Reading and copying\<close>

text \<open>The type assertions \<open>v.(map[string]any)\<close>, \<open>v.([]any)\<close> and \<open>v.(string)\<close>.\<close>

fun as_map :: "jval option \<Rightarrow> jobj option" where
  "as_map (Some (JMap m)) = Some m"
| "as_map _ = None"

fun as_list :: "jval option \<Rightarrow> jval list option" where
  "as_list (Some (JList xs)) = Some xs"
| "as_list _ = None"

fun as_str :: "jval option \<Rightarrow> string option" where
  "as_str (Some (JStr s)) = Some s"
| "as_str _ = None"

definition getString :: "jobj \<Rightarrow> string \<Rightarrow> string" where
  "getString m k = (case as_str (mget k m) of None \<Rightarrow> [] | Some s \<Rightarrow> s)"

definition toAnySlice :: "string list \<Rightarrow> jval list" where
  "toAnySlice ss = map JStr ss"

definition string_map :: "string gomap \<Rightarrow> jval" where
  "string_map m = JMap (map (\<lambda>(k, v). (k, JStr v)) m)"

text \<open>
  \<open>cloneMap\<close> inserts every entry into a new map; \<open>cloneAnySlice\<close> appends every element to a
  new slice.
\<close>

definition cloneMap :: "jobj \<Rightarrow> jobj" where
  "cloneMap m = foldl (\<lambda>out (k, v). mput k v out) [] m"

definition cloneAnySlice :: "jval list \<Rightarrow> jval list" where
  "cloneAnySlice xs = foldl (\<lambda>out x. out @ [x]) [] xs"

section \<open>The %v text\<close>

text \<open>
  \<open>fmt\<close> prints a slice as its elements between brackets, a map as \<open>map[k:v ...]\<close> with the keys
  in order, nil as \<open><nil>\<close>.
\<close>

fun sprint_v :: "jval \<Rightarrow> string"
  and sprint_vs :: "jval list \<Rightarrow> string list"
  and sprint_kvs :: "(string \<times> jval) list \<Rightarrow> (string \<times> string) list" where
  "sprint_v JNull = ''<nil>''"
| "sprint_v (JBool b) = (if b then ''true'' else ''false'')"
| "sprint_v (JInt i) = show_int i"
| "sprint_v (JFloat s) = s"
| "sprint_v (JStr s) = s"
| "sprint_v (JList xs) = ''['' @ join '' '' (sprint_vs xs) @ '']''"
| "sprint_v (JMap m) =
     ''map['' @ join '' '' (map (\<lambda>(k, t). k @ '':'' @ t) (sort_key fst (sprint_kvs m))) @ '']''"
| "sprint_vs [] = []"
| "sprint_vs (x # xs) = sprint_v x # sprint_vs xs"
| "sprint_kvs [] = []"
| "sprint_kvs ((k, v) # m) = (k, sprint_v v) # sprint_kvs m"

definition deepEqualHTTP :: "jval list \<Rightarrow> jval list \<Rightarrow> bool" where
  "deepEqualHTTP a b \<longleftrightarrow> sprint_v (JList a) = sprint_v (JList b)"

section \<open>Facts\<close>

lemma getString_JStr: "mget k m = Some (JStr s) \<Longrightarrow> getString m k = s"
  by (simp add: getString_def)

lemma cloneAnySlice_eq [simp]: "cloneAnySlice xs = xs"
proof -
  have "foldl (\<lambda>out x. out @ [x]) ys xs = ys @ xs" for ys
    by (induction xs arbitrary: ys) auto
  then show ?thesis by (simp add: cloneAnySlice_def)
qed

lemma mput_snoc: "k \<notin> set (mkeys m) \<Longrightarrow> mput k v m = m @ [(k, v)]"
  by (induction m) (auto simp: mkeys_def)

lemma cloneMap_eq: "distinct (mkeys m) \<Longrightarrow> cloneMap m = m"
proof -
  have "distinct (mkeys (o' @ m)) \<Longrightarrow> foldl (\<lambda>out (k, v). mput k v out) o' m = o' @ m" for o'
  proof (induction m arbitrary: o')
    case (Cons e m)
    obtain k v where e: "e = (k, v)" by (cases e)
    have "k \<notin> set (mkeys o')" using Cons.prems e by (auto simp: mkeys_def)
    then show ?case using Cons.IH [of "o' @ [(k, v)]"] Cons.prems e
      by (simp add: mput_snoc mkeys_def)
  qed simp
  from this [of "[]"] show "distinct (mkeys m) \<Longrightarrow> cloneMap m = m"
    by (simp add: cloneMap_def)
qed

lemma deepEqualHTTP_refl [simp]: "deepEqualHTTP xs xs"
  by (simp add: deepEqualHTTP_def)

lemma deepEqualHTTP_sym: "deepEqualHTTP xs ys \<Longrightarrow> deepEqualHTTP ys xs"
  by (simp add: deepEqualHTTP_def)

lemma deepEqualHTTP_trans: "deepEqualHTTP xs ys \<Longrightarrow> deepEqualHTTP ys zs \<Longrightarrow> deepEqualHTTP xs zs"
  by (simp add: deepEqualHTTP_def)

end
