(* ===== verification/Names.thy ===== *)
theory Names
  imports ApiTypes
begin

text \<open>
  The names the controller derives from a FaultInjection: the functions of
  \<open>src/internal/controller/helpers.go\<close> on strings, keys and hashes, and the rule, VirtualService,
  Job and Lease names of \<open>mesh_fault.go\<close> and \<open>pod_fault.go\<close>. A slice expression that runs past
  the end of its string panics, which is the value \<open>None\<close>.
\<close>

section \<open>sanitizeName\<close>

definition sanitize_rune :: "rune \<Rightarrow> char" where
  "sanitize_rune r =
     (if (97 \<le> r \<and> r \<le> 122) \<or> (48 \<le> r \<and> r \<le> 57) \<or> r = 45 then char_of r else CHR ''-'')"

definition sanitizeName :: "string \<Rightarrow> string" where
  "sanitizeName s0 =
     (let s1 = ToLower (TrimSpace s0);
          s2 = replace_byte (CHR ''_'') (CHR ''-'') s1;
          s3 = replace_byte (CHR '' '') (CHR ''-'') s2;
          s4 = map_runes sanitize_rune s3;
          s5 = trim_char (CHR ''-'') s4
      in if s5 = [] then ''x'' else s5)"

section \<open>Keys and sets of hosts\<close>

definition joinKey :: "string \<Rightarrow> string \<Rightarrow> string" where
  "joinKey ns name = ns @ ''/'' @ name"

definition splitKey :: "string \<Rightarrow> string \<times> string" where
  "splitKey k =
     (let parts = splitN2 k (CHR ''/'') in
      case parts of [a, b] \<Rightarrow> (a, b) | _ \<Rightarrow> ([], k))"

definition uniqueAppend :: "string list \<Rightarrow> string list \<Rightarrow> string list" where
  "uniqueAppend base add =
     sort (foldl (\<lambda>b a. if a \<in> set b then b else b @ [a]) base add)"

section \<open>Hashes\<close>

text \<open>\<open>hash/fnv\<close>'s 64-bit FNV-1a.\<close>

definition fnv64a :: "string \<Rightarrow> 64 word" where
  "fnv64a s =
     foldl (\<lambda>h c. semiring_bit_operations_class.xor h (of_nat (byte c)) * 1099511628211)
       14695981039346656037 s"

definition alphabet36 :: string where
  "alphabet36 = ''0123456789abcdefghijklmnopqrstuvwxyz''"

text \<open>The loop of \<open>base36u64\<close>, which fills its 13-byte array from the end.\<close>

function base36_loop :: "64 word \<Rightarrow> string \<Rightarrow> string" where
  "base36_loop v acc =
     (if v = 0 then acc else base36_loop (v div 36) (alphabet36 ! unat (v mod 36) # acc))"
  by pat_completeness auto
termination
proof (relation "measure (\<lambda>(v, acc). unat v)")
  fix v :: "64 word" and acc :: string
  assume "v \<noteq> 0"
  then have "0 < unat v" by (simp add: unat_gt_0)
  then show "((v div 36, alphabet36 ! unat (v mod 36) # acc), v, acc) \<in> measure (\<lambda>(v, acc). unat v)"
    by (simp add: unat_div)
qed simp

declare base36_loop.simps [simp del]

definition base36u64 :: "64 word \<Rightarrow> string" where
  "base36u64 v = (if v = 0 then ''0'' else base36_loop v [])"

text \<open>The slice expression \<open>s[:n]\<close>.\<close>

definition slice_to :: "nat \<Rightarrow> string \<Rightarrow> string option" where
  "slice_to n s = (if n \<le> length s then Some (take n s) else None)"

definition shortHash10 :: "string \<Rightarrow> string option" where
  "shortHash10 s = slice_to 10 (base36u64 (fnv64a s))"

definition fiShortID :: "faultInjection \<Rightarrow> string option" where
  "fiShortID fi =
     (let uid = TrimSpace (fiUID fi);
          uid = (if uid = [] then TrimSpace (fiNamespace fi @ ''/'' @ fiName fi) else uid)
      in slice_to 10 (base36u64 (fnv64a uid)))"

definition safeLabelValue :: "string \<Rightarrow> string option" where
  "safeLabelValue s =
     (let slug = sanitizeName s in
      if length slug \<le> 63 then Some slug
      else let cut = 63 - 11 in
        if cut < (1::nat) then map_option (take (min 10 63)) (shortHash10 slug)
        else map_option (\<lambda>h. take cut slug @ ''-'' @ take 10 h) (shortHash10 slug))"

section \<open>Rule, VirtualService, Job and Lease names\<close>

definition fiRuleNamePrefix :: "faultInjection \<Rightarrow> string" where
  "fiRuleNamePrefix fi = ''fi-'' @ fiName fi @ ''-''"

definition injectedRuleName :: "faultInjection \<Rightarrow> meshFaultAction \<Rightarrow> string" where
  "injectedRuleName fi a =
     fiRuleNamePrefix fi @ ToLower (maDirection a) @ ''-'' @ sanitizeName (maName a)"

definition managedOutboundVSName :: "faultInjection \<Rightarrow> meshFaultAction \<Rightarrow> string" where
  "managedOutboundVSName fi a = ''fi-'' @ fiName fi @ ''-'' @ sanitizeName (maName a)"

definition pod_name_format :: "string \<Rightarrow> string \<Rightarrow> string \<Rightarrow> string" where
  "pod_name_format f a t = ''fi-'' @ f @ ''-pod-'' @ a @ ''-'' @ t"

definition podFaultNames ::
  "faultInjection \<Rightarrow> string \<Rightarrow> string \<Rightarrow> (string \<times> string) option" where
  "podFaultNames fi actionName tickID =
     (let name = pod_name_format (sanitizeName (fiName fi)) (sanitizeName actionName)
                   (sanitizeName tickID) in
      if length name \<le> 63 then Some (name, name)
      else case (fiShortID fi, safeLabelValue actionName, safeLabelValue tickID) of
        (Some f, Some a, Some t) \<Rightarrow>
          (let name = pod_name_format f a t in
           if 63 < length name
           then (case (shortHash10 actionName, shortHash10 tickID) of
                   (Some a', Some t') \<Rightarrow> (let n = pod_name_format f a' t' in Some (n, n))
                 | _ \<Rightarrow> None)
           else Some (name, name))
      | _ \<Rightarrow> None)"

section \<open>DNS names\<close>

definition alnum_char :: "char \<Rightarrow> bool" where
  "alnum_char c \<longleftrightarrow> (97 \<le> byte c \<and> byte c \<le> 122) \<or> (48 \<le> byte c \<and> byte c \<le> 57)"

definition dns_char :: "char \<Rightarrow> bool" where
  "dns_char c \<longleftrightarrow> alnum_char c \<or> c = CHR ''-''"

text \<open>What Kubernetes asks of a DNS label, apart from its length.\<close>

definition dns_name :: "string \<Rightarrow> bool" where
  "dns_name s \<longleftrightarrow> s \<noteq> [] \<and> (\<forall>c \<in> set s. dns_char c)
     \<and> hd s \<noteq> CHR ''-'' \<and> last s \<noteq> CHR ''-''"

lemma byte_minus [simp]: "byte (CHR ''-'') = 45"
  by (simp add: byte_def)

lemma dns_char_ascii: "dns_char c \<Longrightarrow> byte c < 128"
  by (auto simp: dns_char_def alnum_char_def)

lemma dns_char_minus [simp]: "dns_char (CHR ''-'')"
  by (simp add: dns_char_def)

lemma alnum_char_neq_minus: "alnum_char c \<Longrightarrow> c \<noteq> CHR ''-''"
  by (auto simp: alnum_char_def)

lemma dns_char_sanitize_rune: "dns_char (sanitize_rune r)"
proof -
  have "dns_char (char_of (45::nat))"
    using char_of_byte [of "CHR ''-''"] by simp
  then show ?thesis by (auto simp: sanitize_rune_def dns_char_def alnum_char_def)
qed

lemma sanitize_rune_id: "dns_char c \<Longrightarrow> sanitize_rune (byte c) = c"
  by (auto simp: sanitize_rune_def dns_char_def alnum_char_def)

lemma dns_name_ascii: "\<forall>c \<in> set s. dns_char c \<Longrightarrow> is_ascii s"
  by (auto simp: is_ascii_def dest: dns_char_ascii)

lemma dns_not_space: "dns_char c \<Longrightarrow> \<not> is_space (byte c)"
  by (auto simp: dns_char_def alnum_char_def is_space_def)

lemma dns_lower: "dns_char c \<Longrightarrow> lower_rune (byte c, [c]) = [c]"
  by (auto simp: dns_char_def alnum_char_def lower_rune_def Let_def rune_error_def)

lemma ToLower_dns: "\<forall>c \<in> set s. dns_char c \<Longrightarrow> ToLower s = s"
proof -
  assume a: "\<forall>c \<in> set s. dns_char c"
  then have "concat (map (\<lambda>c. lower_rune (byte c, [c])) s) = s"
    by (induction s) (auto simp: dns_lower)
  then show ?thesis using a
    by (simp add: ToLower_def runes_ascii dns_name_ascii o_def)
qed

lemma sanitizeName_dns_name: "dns_name (sanitizeName s)"
proof -
  define s4 where "s4 = map_runes sanitize_rune (replace_byte (CHR '' '') (CHR ''-'')
     (replace_byte (CHR ''_'') (CHR ''-'') (ToLower (TrimSpace s))))"
  define s5 where "s5 = trim_char (CHR ''-'') s4"
  have e: "sanitizeName s = (if s5 = [] then ''x'' else s5)"
    by (simp add: sanitizeName_def s4_def s5_def Let_def)
  have "\<forall>c \<in> set s4. dns_char c"
    by (auto simp: s4_def map_runes_def dns_char_sanitize_rune)
  then have a: "\<forall>c \<in> set s5. dns_char c"
    using set_trim_list by (fastforce simp: s5_def trim_char_def)
  have h: "s5 \<noteq> [] \<Longrightarrow> hd s5 \<noteq> CHR ''-'' \<and> last s5 \<noteq> CHR ''-''"
    using trim_list_hd [of "\<lambda>x. x = CHR ''-''" s4] trim_list_last [of "\<lambda>x. x = CHR ''-''" s4]
    by (simp add: s5_def trim_char_def)
  have "dns_name ''x''"
    by (simp add: dns_name_def dns_char_def alnum_char_def byte_def)
  with a h e show ?thesis by (simp add: dns_name_def)
qed

lemma sanitizeName_dns_id:
  assumes "dns_name s" shows "sanitizeName s = s"
proof -
  have c: "\<forall>c \<in> set s. dns_char c" and ne: "s \<noteq> []" and
    h: "hd s \<noteq> CHR ''-''" "last s \<noteq> CHR ''-''"
    using assms by (auto simp: dns_name_def)
  have asc: "is_ascii s" using c by (rule dns_name_ascii)
  have 1: "TrimSpace s = s"
    using c ne by (subst TrimSpace_ascii [OF asc], intro trim_list_idle) (auto simp: dns_not_space)
  have u: "CHR ''_'' \<notin> set s" and sp: "CHR '' '' \<notin> set s"
    using c by (auto simp: dns_char_def alnum_char_def byte_def)
  have "map (\<lambda>c. sanitize_rune (byte c)) s = s"
    using c by (auto simp: sanitize_rune_id intro!: map_idI)
  then have 4: "map_runes sanitize_rune s = s"
    by (simp add: map_runes_def runes_ascii asc o_def)
  have 5: "trim_char (CHR ''-'') s = s"
    using h by (simp add: trim_char_def trim_list_idle)
  show ?thesis
    using ne by (simp add: sanitizeName_def 1 ToLower_dns c replace_byte_idle u sp 4 5)
qed

section \<open>Base 36\<close>

lemma alphabet36_eq:
  "alphabet36 = map (\<lambda>i. char_of (if i < 10 then 48 + i else 87 + i :: nat)) [0..<36]"
  by code_simp

lemma alphabet36_nth: "i < 36 \<Longrightarrow>
    alphabet36 ! i = char_of (if i < 10 then 48 + i else 87 + i :: nat)"
  unfolding alphabet36_eq by (subst nth_map) simp_all

lemma alphabet36_alnum: "i < 36 \<Longrightarrow> alnum_char (alphabet36 ! i)"
  by (auto simp: alphabet36_nth alnum_char_def)

definition digit36 :: "char \<Rightarrow> nat" where
  "digit36 c = (if byte c \<le> 57 then byte c - 48 else byte c - 87)"

text \<open>The number a base-36 string denotes.\<close>

definition read36 :: "string \<Rightarrow> nat" where
  "read36 s = foldl (\<lambda>n c. n * 36 + digit36 c) 0 s"

lemma digit36_alphabet: "i < 36 \<Longrightarrow> digit36 (alphabet36 ! i) = i"
  by (auto simp: alphabet36_nth digit36_def)

lemma unat_mod36: "unat (v mod (36 :: 64 word)) = unat v mod 36"
  by (simp add: unat_mod)

lemma unat_div36: "unat (v div (36 :: 64 word)) = unat v div 36"
  by (simp add: unat_div)

lemma read36_loop:
  "foldl (\<lambda>n c. n * 36 + digit36 c) 0 (base36_loop v acc)
     = foldl (\<lambda>n c. n * 36 + digit36 c) (unat v) acc"
proof (induction v acc rule: base36_loop.induct)
  case (1 v acc)
  show ?case
  proof (cases "v = 0")
    case False
    have "digit36 (alphabet36 ! unat (v mod 36)) = unat v mod 36"
      by (simp add: unat_mod36 digit36_alphabet)
    then show ?thesis using 1 False
      by (subst base36_loop.simps) (simp add: unat_div36)
  qed (subst base36_loop.simps, simp)
qed

lemma read36_base36: "read36 (base36u64 v) = unat v"
  using read36_loop [of v "[]"]
  by (auto simp: base36u64_def read36_def digit36_def byte_def)

lemma base36_loop_longer: "length acc \<le> length (base36_loop v acc)"
proof (induction v acc rule: base36_loop.induct)
  case (1 v acc)
  then show ?case by (subst base36_loop.simps) (auto dest: Suc_leD)
qed

lemma base36_loop_length:
  "length (base36_loop v acc) \<le> k + length acc \<longleftrightarrow> unat v < 36 ^ k"
proof (induction v acc arbitrary: k rule: base36_loop.induct)
  case (1 v acc)
  show ?case
  proof (cases "v = 0")
    case True
    then show ?thesis by (subst base36_loop.simps) simp
  next
    case False
    let ?acc' = "alphabet36 ! unat (v mod 36) # acc"
    have step: "base36_loop v acc = base36_loop (v div 36) ?acc'"
      using False by (subst base36_loop.simps) simp
    show ?thesis
    proof (cases k)
      case 0
      have "Suc (length acc) \<le> length (base36_loop (v div 36) ?acc')"
        using base36_loop_longer [of ?acc' "v div 36"] by simp
      moreover have "0 < unat v" using False by (simp add: unat_gt_0)
      ultimately show ?thesis using 0 step by simp
    next
      case (Suc k')
      have "length (base36_loop v acc) \<le> k + length acc \<longleftrightarrow> unat (v div 36) < 36 ^ k'"
        using "1.IH" [OF False, of k'] Suc step by simp
      also have "\<dots> \<longleftrightarrow> unat v < 36 ^ k"
        by (simp add: unat_div36 Suc div_less_iff_less_mult mult.commute)
      finally show ?thesis .
    qed
  qed
qed

lemma base36u64_length: "0 < k \<Longrightarrow> length (base36u64 v) \<le> k \<longleftrightarrow> unat v < 36 ^ k"
  using base36_loop_length [of v "[]" k] by (auto simp: base36u64_def)

lemma base36_loop_alnum:
  "\<forall>c \<in> set acc. alnum_char c \<Longrightarrow> \<forall>c \<in> set (base36_loop v acc). alnum_char c"
proof (induction v acc rule: base36_loop.induct)
  case (1 v acc)
  have "alnum_char (alphabet36 ! unat (v mod 36))"
    by (simp add: unat_mod36 alphabet36_alnum)
  with 1 show ?case by (subst base36_loop.simps) auto
qed

lemma base36u64_alnum: "\<forall>c \<in> set (base36u64 v). alnum_char c"
  using base36_loop_alnum [of "[]" v]
  by (auto simp: base36u64_def alnum_char_def byte_def)

lemma slice_to_Some: "slice_to n s = Some t \<longleftrightarrow> n \<le> length s \<and> t = take n s"
  by (auto simp: slice_to_def)

lemma slice36_None: "slice_to 10 (base36u64 v) = None \<longleftrightarrow> unat v < 36 ^ 9"
  using base36u64_length [of 9 v] by (auto simp: slice_to_def)

section \<open>Interfaces: name normalisation, bounded labels, keys\<close>

text \<open>
  What the code relies on when it embeds a user's string in a Kubernetes name: the
  normalised string is a DNS name, and normalising a DNS name changes nothing.
\<close>

locale dns_normaliser =
  fixes norm :: "string \<Rightarrow> string"
  assumes norm_dns: "dns_name (norm s)"
    and norm_fix: "dns_name s \<Longrightarrow> norm s = s"
begin

lemma norm_idem: "norm (norm s) = norm s"
  by (simp add: norm_dns norm_fix)

lemma norm_range: "(\<exists>t. s = norm t) \<longleftrightarrow> dns_name s"
  using norm_dns norm_fix by metis

lemma norm_not_empty: "norm s \<noteq> []"
  using norm_dns [of s] by (simp add: dns_name_def)

end

text \<open>What a label value needs: a DNS name of at most 63 characters, or no value at all.\<close>

locale bounded_label =
  fixes lab :: "string \<Rightarrow> string option"
  assumes lab_dns: "lab s = Some t \<Longrightarrow> dns_name t"
    and lab_bound: "lab s = Some t \<Longrightarrow> length t \<le> 63"

text \<open>A label that keeps every DNS name that fits.\<close>

locale faithful_label = bounded_label lab + dns_normaliser norm
  for lab :: "string \<Rightarrow> string option" and norm :: "string \<Rightarrow> string" +
  assumes lab_short: "length (norm s) \<le> 63 \<Longrightarrow> lab s = Some (norm s)"
begin

lemma lab_fix: "dns_name s \<Longrightarrow> length s \<le> 63 \<Longrightarrow> lab s = Some s"
  using lab_short [of s] by (simp add: norm_fix)

lemma lab_idem: "lab s = Some t \<Longrightarrow> lab t = Some t"
  using lab_dns lab_bound lab_fix by blast

end

text \<open>A key built from two parts, and the function that takes it apart.\<close>

locale pair_codec =
  fixes enc :: "string \<Rightarrow> string \<Rightarrow> string"
    and dec :: "string \<Rightarrow> string \<times> string"
    and ok :: "string \<Rightarrow> bool"
  assumes dec_enc: "ok a \<Longrightarrow> dec (enc a b) = (a, b)"
begin

lemma enc_inj: "ok a \<Longrightarrow> ok a' \<Longrightarrow> enc a b = enc a' b' \<longleftrightarrow> a = a' \<and> b = b'"
proof -
  assume ok: "ok a" "ok a'"
  have "(a, b) = (a', b')" if "enc a b = enc a' b'"
    using arg_cong [OF that, of dec] ok by (simp only: dec_enc)
  then show ?thesis by auto
qed

end

section \<open>DNS names put together\<close>

lemma dns_name_alnum: "s \<noteq> [] \<Longrightarrow> \<forall>c \<in> set s. alnum_char c \<Longrightarrow> dns_name s"
proof -
  assume ne: "s \<noteq> []" and a: "\<forall>c \<in> set s. alnum_char c"
  then have "alnum_char (hd s)" "alnum_char (last s)" by simp_all
  then show ?thesis using ne a alnum_char_neq_minus
    by (simp add: dns_name_def dns_char_def)
qed

lemma dns_name_dash: "dns_name a \<Longrightarrow> dns_name b \<Longrightarrow> dns_name (a @ ''-'' @ b)"
  by (auto simp: dns_name_def)

lemma dns_name_cut:
  assumes "dns_name a" "dns_name b" "0 < n" shows "dns_name (take n a @ ''-'' @ b)"
  using assms by (auto simp: dns_name_def dest: in_set_takeD)

lemma dns_name_fi: "dns_name ''fi''" and dns_name_pod: "dns_name ''pod''"
  by (simp_all add: dns_name_def dns_char_def alnum_char_def byte_def)

lemma pod_name_format_dns:
  assumes "dns_name f" "dns_name a" "dns_name t"
  shows "dns_name (pod_name_format f a t)"
proof -
  have "dns_name (''fi'' @ ''-'' @ f @ ''-'' @ ''pod'' @ ''-'' @ a @ ''-'' @ t)"
    by (intro dns_name_dash dns_name_fi dns_name_pod assms)
  then show ?thesis by (simp add: pod_name_format_def)
qed

lemma pod_name_format_length:
  "length (pod_name_format f a t) = length f + length a + length t + 9"
  by (simp add: pod_name_format_def)

lemma slice36_Some:
  assumes "slice_to 10 (base36u64 v) = Some h"
  shows "length h = 10" "dns_name h"
proof -
  have l: "10 \<le> length (base36u64 v)" and h: "h = take 10 (base36u64 v)"
    using assms by (auto simp: slice_to_Some)
  then show len: "length h = 10" by simp
  have "\<forall>c \<in> set h. alnum_char c"
    using base36u64_alnum [of v] h by (auto dest: in_set_takeD)
  then show "dns_name h" using len by (intro dns_name_alnum) auto
qed

lemma shortHash10_Some:
  "shortHash10 s = Some h \<Longrightarrow> length h = 10" "shortHash10 s = Some h \<Longrightarrow> dns_name h"
  by (auto simp: shortHash10_def dest: slice36_Some)

lemma fiShortID_Some:
  "fiShortID fi = Some h \<Longrightarrow> length h = 10" "fiShortID fi = Some h \<Longrightarrow> dns_name h"
  by (auto simp: fiShortID_def Let_def dest: slice36_Some)

section \<open>The interfaces hold of the controller's functions\<close>

interpretation san: dns_normaliser sanitizeName
  by unfold_locales (rule sanitizeName_dns_name, erule sanitizeName_dns_id)

lemma safeLabelValue_cases:
  "safeLabelValue s = (if length (sanitizeName s) \<le> 63 then Some (sanitizeName s)
     else map_option (\<lambda>h. take 52 (sanitizeName s) @ ''-'' @ h) (shortHash10 (sanitizeName s)))"
proof -
  have "shortHash10 (sanitizeName s) = Some h \<Longrightarrow> take 10 h = h" for h
    using shortHash10_Some by fastforce
  then have "map_option (\<lambda>h. take 52 (sanitizeName s) @ ''-'' @ take 10 h) (shortHash10 (sanitizeName s))
    = map_option (\<lambda>h. take 52 (sanitizeName s) @ ''-'' @ h) (shortHash10 (sanitizeName s))"
    by (cases "shortHash10 (sanitizeName s)") auto
  then show ?thesis by (simp add: safeLabelValue_def Let_def)
qed

interpretation lab: faithful_label safeLabelValue sanitizeName
proof unfold_locales
  fix s t
  assume t: "safeLabelValue s = Some t"
  have d: "dns_name (sanitizeName s)" by (rule sanitizeName_dns_name)
  show "dns_name t"
  proof (cases "length (sanitizeName s) \<le> 63")
    case True
    then show ?thesis using t d by (simp add: safeLabelValue_cases)
  next
    case False
    then obtain h where "shortHash10 (sanitizeName s) = Some h"
      and "t = take 52 (sanitizeName s) @ ''-'' @ h"
      using t by (auto simp: safeLabelValue_cases)
    then show ?thesis
      using d by (auto intro!: dns_name_cut [simplified] dest: shortHash10_Some)
  qed
  show "length t \<le> 63"
    using t shortHash10_Some(1) by (fastforce simp: safeLabelValue_cases split: if_splits)
next
  show "length (sanitizeName s) \<le> 63 \<Longrightarrow> safeLabelValue s = Some (sanitizeName s)" for s
    by (simp add: safeLabelValue_cases)
qed

interpretation key: pair_codec joinKey splitKey "\<lambda>ns. CHR ''/'' \<notin> set ns"
  by unfold_locales (simp add: joinKey_def splitKey_def splitN2_join)

lemma splitKey_joinKey_iff: "splitKey (joinKey ns name) = (ns, name) \<longleftrightarrow> CHR ''/'' \<notin> set ns"
proof
  assume s: "splitKey (joinKey ns name) = (ns, name)"
  obtain x y where "splitN2 (ns @ CHR ''/'' # name) (CHR ''/'') = [x, y]"
    by (auto simp: splitN2_def)
  then show "CHR ''/'' \<notin> set ns"
    using s splitN2_self [of ns "CHR ''/''" name] by (simp add: splitKey_def joinKey_def)
qed (rule key.dec_enc)

section \<open>Hosts\<close>

lemma uniqueAppend_fold:
  "set (foldl (\<lambda>b a. if a \<in> set b then b else b @ [a]) base add) = set base \<union> set add"
  "distinct base \<Longrightarrow> distinct (foldl (\<lambda>b a. if a \<in> set b then b else b @ [a]) base add)"
  by (induction add arbitrary: base) auto

lemma set_uniqueAppend: "set (uniqueAppend base add) = set base \<union> set add"
  by (simp add: uniqueAppend_def uniqueAppend_fold)

lemma distinct_uniqueAppend: "distinct base \<Longrightarrow> distinct (uniqueAppend base add)"
  by (simp add: uniqueAppend_def uniqueAppend_fold)

lemma sorted_uniqueAppend: "sorted (uniqueAppend base add)"
  by (simp add: uniqueAppend_def)

lemma uniqueAppend_subset:
  assumes "set add \<subseteq> set base" "sorted base" shows "uniqueAppend base add = base"
proof -
  have "foldl (\<lambda>b a. if a \<in> set b then b else b @ [a]) base add = base"
    using assms(1) by (induction add) auto
  then show ?thesis using assms(2) by (simp add: uniqueAppend_def sorted_sort_id)
qed

section \<open>Claims\<close>

lemma injectedRuleName_prefix [simp]: "HasPrefix (injectedRuleName fi a) (fiRuleNamePrefix fi)"
  by (simp add: injectedRuleName_def)

lemma pod_name_hashed:
  assumes "fiShortID fi = Some f" "shortHash10 a = Some x" "shortHash10 t = Some y"
  shows "dns_name (pod_name_format f x y)" "length (pod_name_format f x y) = 39"
  using shortHash10_Some [OF assms(2)] shortHash10_Some [OF assms(3)] fiShortID_Some [OF assms(1)]
  by (simp_all add: pod_name_format_dns pod_name_format_length)

lemma podFaultNames_ok:
  assumes "podFaultNames fi a t = Some (j, l)"
  shows "j = l \<and> length j \<le> 63 \<and> dns_name j"
proof -
  let ?n = "pod_name_format (sanitizeName (fiName fi)) (sanitizeName a) (sanitizeName t)"
  show ?thesis
  proof (cases "length ?n \<le> 63")
    case True
    then show ?thesis using assms
      by (auto simp: podFaultNames_def Let_def intro!: pod_name_format_dns sanitizeName_dns_name)
  next
    case False
    then obtain f x y where f: "fiShortID fi = Some f" and x: "safeLabelValue a = Some x"
      and y: "safeLabelValue t = Some y"
      using assms by (auto simp: podFaultNames_def Let_def split: option.splits)
    show ?thesis
    proof (cases "63 < length (pod_name_format f x y)")
      case True
      with False f x y obtain x' y' where
        h: "shortHash10 a = Some x'" "shortHash10 t = Some y'"
        using assms by (auto simp: podFaultNames_def Let_def split: option.splits)
      from pod_name_hashed [OF f h] show ?thesis using assms False f x y True h by (auto simp: podFaultNames_def Let_def)
    next
      case fits: False
      have "dns_name (pod_name_format f x y)"
        using f x y by (auto intro!: pod_name_format_dns dest: fiShortID_Some lab.lab_dns)
      then show ?thesis using assms False f x y fits by (auto simp: podFaultNames_def Let_def)
    qed
  qed
qed

lemma shortHash10_None: "shortHash10 s = None \<longleftrightarrow> unat (fnv64a s) < 36 ^ 9"
  by (simp add: shortHash10_def slice36_None)

lemma safeLabelValue_None:
  "safeLabelValue s = None \<longleftrightarrow>
     63 < length (sanitizeName s) \<and> unat (fnv64a (sanitizeName s)) < 36 ^ 9"
  by (auto simp: safeLabelValue_cases shortHash10_None)

lemma podFaultNames_short:
  "length (sanitizeName (fiName fi)) + length (sanitizeName a) + length (sanitizeName t) \<le> 54 \<Longrightarrow>
   podFaultNames fi a t =
     (let n = pod_name_format (sanitizeName (fiName fi)) (sanitizeName a) (sanitizeName t)
      in Some (n, n))"
  by (simp add: podFaultNames_def pod_name_format_length Let_def)

end
