(* ===== verification/Effects.thy ===== *)
theory Effects
  imports Json Names
begin

text \<open>
  The effects of the reconciler. The API server, the clock, the order in which Go ranges over a
  map and \<open>controllerutil.SetControllerReference\<close> are code that is not in the repository: they
  are the fields of a record \<open>reconciler\<close> that every effectful definition takes as an argument,
  functions over an abstract world \<open>'w\<close> about which nothing is assumed. A computation runs on the
  world and on a trace: every request to the API server, with the server's answer, and every
  event is appended to it. Statements about the trace hold for every server, every clock and
  every order.

  The operator \<open>runs\<close> is the calculus of the development: \<open>runs m Q\<close> says that whatever the
  world does, \<open>m\<close> returns a value \<open>a\<close> and appends requests \<open>ops\<close> with \<open>Q a ops\<close>.
\<close>

named_theorems runs_intro \<open>rules of the calculus\<close>
named_theorems always_intro \<open>rules for properties of traces that compose\<close>

section \<open>Objects and requests\<close>

text \<open>
  An \<open>unstructured.Unstructured\<close> VirtualService: its metadata and \<open>Object["spec"]\<close>, if any.
\<close>

record vsObj =
  vsMeta :: objMeta
  vsSpec :: "jval option"

abbreviation vsLabel :: "vsObj \<Rightarrow> string \<Rightarrow> string option" where
  "vsLabel vs k \<equiv> mget k (oLabels (vsMeta vs))"

text \<open>
  A request with its answer. \<open>OpEvent\<close> is a call of the event recorder (type, reason, action; the
  note is text for a human and is not modelled). Jobs are deleted with background propagation.
\<close>

datatype op =
    OpEvent string string string
  | OpGetFI string string "apiError + faultInjection"
  | OpStatusUpdateFI faultInjection "apiError option"
  | OpGetVS string string "apiError + vsObj"
  | OpListVS string "string gomap" "apiError + vsObj list"
  | OpCreateVS vsObj "apiError + vsObj"
  | OpUpdateVS vsObj "apiError option"
  | OpDeleteVS vsObj "apiError option"
  | OpListPods string "string gomap" "apiError + podObj list"
  | OpDeletePod podObj "apiError option"
  | OpGetJob string string "apiError + jobObj"
  | OpListJobs string "string gomap" "apiError + jobObj list"
  | OpCreateJob jobObj "apiError option"
  | OpDeleteJob jobObj "apiError option"
  | OpGetLease string string "apiError + leaseObj"
  | OpListLeases string "string gomap" "apiError + leaseObj list"
  | OpCreateLease leaseObj "apiError option"
  | OpUpdateLease leaseObj "apiError option"
  | OpDeleteLease leaseObj "apiError option"
  | OpListDeployments string "apiError + deploymentObj list"
  | OpDeleteDeployment deploymentObj "apiError option"

record 'w sys =
  world :: 'w
  trace :: "op list"

type_synonym ('w, 'a) eff = "('w sys, 'a) state"

section \<open>The reconciler\<close>

text \<open>
  \<open>FaultInjectionReconciler\<close>: the client as one function per request it makes, whether the scheme
  and the recorder are set, the holder identity; then the clock, the order in which a range over
  a map visits its keys, the number of times \<open>retry.RetryOnConflict\<close> runs its function again
  after a conflict, and \<open>SetControllerReference\<close>, which returns the object's metadata with the
  owner's reference added, or an error.
\<close>

record 'w reconciler =
  rcGetFI :: "string \<Rightarrow> string \<Rightarrow> 'w \<Rightarrow> (apiError + faultInjection) \<times> 'w"
  rcStatusUpdateFI :: "faultInjection \<Rightarrow> 'w \<Rightarrow> apiError option \<times> 'w"
  rcGetVS :: "string \<Rightarrow> string \<Rightarrow> 'w \<Rightarrow> (apiError + vsObj) \<times> 'w"
  rcListVS :: "string \<Rightarrow> string gomap \<Rightarrow> 'w \<Rightarrow> (apiError + vsObj list) \<times> 'w"
  rcCreateVS :: "vsObj \<Rightarrow> 'w \<Rightarrow> (apiError + vsObj) \<times> 'w"
  rcUpdateVS :: "vsObj \<Rightarrow> 'w \<Rightarrow> apiError option \<times> 'w"
  rcDeleteVS :: "vsObj \<Rightarrow> 'w \<Rightarrow> apiError option \<times> 'w"
  rcListPods :: "string \<Rightarrow> string gomap \<Rightarrow> 'w \<Rightarrow> (apiError + podObj list) \<times> 'w"
  rcDeletePod :: "podObj \<Rightarrow> 'w \<Rightarrow> apiError option \<times> 'w"
  rcGetJob :: "string \<Rightarrow> string \<Rightarrow> 'w \<Rightarrow> (apiError + jobObj) \<times> 'w"
  rcListJobs :: "string \<Rightarrow> string gomap \<Rightarrow> 'w \<Rightarrow> (apiError + jobObj list) \<times> 'w"
  rcCreateJob :: "jobObj \<Rightarrow> 'w \<Rightarrow> apiError option \<times> 'w"
  rcDeleteJob :: "jobObj \<Rightarrow> 'w \<Rightarrow> apiError option \<times> 'w"
  rcGetLease :: "string \<Rightarrow> string \<Rightarrow> 'w \<Rightarrow> (apiError + leaseObj) \<times> 'w"
  rcListLeases :: "string \<Rightarrow> string gomap \<Rightarrow> 'w \<Rightarrow> (apiError + leaseObj list) \<times> 'w"
  rcCreateLease :: "leaseObj \<Rightarrow> 'w \<Rightarrow> apiError option \<times> 'w"
  rcUpdateLease :: "leaseObj \<Rightarrow> 'w \<Rightarrow> apiError option \<times> 'w"
  rcDeleteLease :: "leaseObj \<Rightarrow> 'w \<Rightarrow> apiError option \<times> 'w"
  rcListDeployments :: "string \<Rightarrow> 'w \<Rightarrow> (apiError + deploymentObj list) \<times> 'w"
  rcDeleteDeployment :: "deploymentObj \<Rightarrow> 'w \<Rightarrow> apiError option \<times> 'w"
  rcNow :: "'w \<Rightarrow> time \<times> 'w"
  rcRangeOrder :: "string list \<Rightarrow> string list"
  rcRetries :: nat
  rcSetControllerReference :: "objMeta \<Rightarrow> objMeta \<Rightarrow> apiError + objMeta"
  rcScheme :: bool
  rcRecorder :: bool
  rcHolderIdentity :: string

definition call :: "('w \<Rightarrow> 'a \<times> 'w) \<Rightarrow> ('a \<Rightarrow> op) \<Rightarrow> ('w, 'a) eff" where
  "call f mk = State (\<lambda>s. case f (world s) of
     (a, w) \<Rightarrow> (a, s\<lparr>world := w, trace := trace s @ [mk a]\<rparr>))"

definition emit :: "op \<Rightarrow> ('w, unit) eff" where
  "emit e = State (\<lambda>s. ((), s\<lparr>trace := trace s @ [e]\<rparr>))"

text \<open>\<open>time.Now()\<close>.\<close>

definition time_now :: "'w reconciler \<Rightarrow> ('w, time) eff" where
  "time_now r = State (\<lambda>s. case rcNow r (world s) of (t, w) \<Rightarrow> (t, s\<lparr>world := w\<rparr>))"

text \<open>The keys of a map in the order of one \<open>range\<close> over it: some permutation of them.\<close>

definition range_keys :: "'w reconciler \<Rightarrow> string list \<Rightarrow> string list" where
  "range_keys r ks =
     (let ks' = rcRangeOrder r ks in if mset ks' = mset ks then ks' else ks)"

section \<open>The calls the reconciler makes\<close>

definition eventf :: "'w reconciler \<Rightarrow> string \<Rightarrow> string \<Rightarrow> string \<Rightarrow> ('w, unit) eff" where
  "eventf r eventType reason action =
     (if rcRecorder r then emit (OpEvent eventType reason action) else State_Monad.return ())"

definition getFI where "getFI r ns n = call (rcGetFI r ns n) (OpGetFI ns n)"
definition statusUpdateFI where
  "statusUpdateFI r fi = call (rcStatusUpdateFI r fi) (OpStatusUpdateFI fi)"
definition getVS where "getVS r ns n = call (rcGetVS r ns n) (OpGetVS ns n)"
definition listVS where "listVS r ns ls = call (rcListVS r ns ls) (OpListVS ns ls)"
definition createVS where "createVS r vs = call (rcCreateVS r vs) (OpCreateVS vs)"
definition updateVS where "updateVS r vs = call (rcUpdateVS r vs) (OpUpdateVS vs)"
definition deleteVS where "deleteVS r vs = call (rcDeleteVS r vs) (OpDeleteVS vs)"
definition listPods where "listPods r ns ls = call (rcListPods r ns ls) (OpListPods ns ls)"
definition deletePod where "deletePod r p = call (rcDeletePod r p) (OpDeletePod p)"
definition getJob where "getJob r ns n = call (rcGetJob r ns n) (OpGetJob ns n)"
definition listJobs where "listJobs r ns ls = call (rcListJobs r ns ls) (OpListJobs ns ls)"
definition createJob where "createJob r j = call (rcCreateJob r j) (OpCreateJob j)"
definition deleteJob where "deleteJob r j = call (rcDeleteJob r j) (OpDeleteJob j)"
definition getLease where "getLease r ns n = call (rcGetLease r ns n) (OpGetLease ns n)"
definition listLeases where "listLeases r ns ls = call (rcListLeases r ns ls) (OpListLeases ns ls)"
definition createLease where "createLease r l = call (rcCreateLease r l) (OpCreateLease l)"
definition updateLease where "updateLease r l = call (rcUpdateLease r l) (OpUpdateLease l)"
definition deleteLease where "deleteLease r l = call (rcDeleteLease r l) (OpDeleteLease l)"
definition listDeployments where
  "listDeployments r ns = call (rcListDeployments r ns) (OpListDeployments ns)"
definition deleteDeployment where
  "deleteDeployment r d = call (rcDeleteDeployment r d) (OpDeleteDeployment d)"

text \<open>
  \<open>retry.RetryOnConflict\<close> runs its function, and again after each conflict, a bounded number of
  times, and returns the last error. The variables the function's closure assigns are its
  argument and part of its result.
\<close>

fun retry_on_conflict ::
  "nat \<Rightarrow> ('b \<Rightarrow> ('w, goerr option \<times> 'b) eff) \<Rightarrow> 'b \<Rightarrow> ('w, goerr option \<times> 'b) eff" where
  "retry_on_conflict 0 f b = f b"
| "retry_on_conflict (Suc n) f b =
     State_Monad.bind (f b) (\<lambda>(e, b').
       if e = Some (EApi Conflict) then retry_on_conflict n f b'
       else State_Monad.return (e, b'))"

section \<open>The calculus\<close>

definition runs :: "('w, 'a) eff \<Rightarrow> ('a \<Rightarrow> op list \<Rightarrow> bool) \<Rightarrow> bool" where
  "runs m Q \<longleftrightarrow>
     (\<forall>s. \<exists>ops. trace (snd (run_state m s)) = trace s @ ops \<and> Q (fst (run_state m s)) ops)"

text \<open>The requests a run appends to the trace.\<close>

definition ops_of :: "('w, 'a) eff \<Rightarrow> 'w sys \<Rightarrow> op list" where
  "ops_of m s = drop (length (trace s)) (trace (snd (run_state m s)))"

definition result_of :: "('w, 'a) eff \<Rightarrow> 'w sys \<Rightarrow> 'a" where
  "result_of m s = fst (run_state m s)"

lemma runsD:
  "runs m Q \<Longrightarrow> \<exists>ops. trace (snd (run_state m s)) = trace s @ ops \<and> Q (fst (run_state m s)) ops"
  unfolding runs_def by blast

lemma runs_ops_of: "runs m Q \<Longrightarrow> Q (result_of m s) (ops_of m s)"
  by (drule runsD [of _ _ s]) (auto simp: ops_of_def result_of_def)

lemma runs_return [runs_intro]: "Q a [] \<Longrightarrow> runs (State_Monad.return a) Q"
  by (simp add: runs_def)

lemma runs_bind [runs_intro]:
  assumes "runs m (\<lambda>a o1. runs (f a) (\<lambda>b o2. Q b (o1 @ o2)))"
  shows "runs (State_Monad.bind m f) Q"
  unfolding runs_def
proof
  fix s
  obtain a s1 where 1: "run_state m s = (a, s1)" by fastforce
  obtain b s2 where 2: "run_state (f a) s1 = (b, s2)" by fastforce
  obtain o1 where o1: "trace s1 = trace s @ o1" and "runs (f a) (\<lambda>b o2. Q b (o1 @ o2))"
    using runsD [OF assms, of s] 1 by auto
  then obtain o2 where "trace s2 = trace s1 @ o2" and "Q b (o1 @ o2)"
    using runsD [of "f a" _ s1] 2 by fastforce
  then show "\<exists>ops. trace (snd (run_state (State_Monad.bind m f) s)) = trace s @ ops
      \<and> Q (fst (run_state (State_Monad.bind m f) s)) ops"
    using 1 2 o1 by auto
qed

lemma runs_call: "(\<And>a. Q a [mk a]) \<Longrightarrow> runs (call f mk) Q"
  by (simp add: runs_def call_def split: prod.splits)

lemma runs_emit [runs_intro]: "Q () [e] \<Longrightarrow> runs (emit e) Q"
  by (simp add: runs_def emit_def)

lemma runs_time_now [runs_intro]: "(\<And>t. Q t []) \<Longrightarrow> runs (time_now r) Q"
  by (simp add: runs_def time_now_def split: prod.splits)

lemma runs_if [runs_intro]:
  "(b \<Longrightarrow> runs m Q) \<Longrightarrow> (\<not> b \<Longrightarrow> runs n Q) \<Longrightarrow> runs (if b then m else n) Q"
  by simp

lemma runs_case_sum [runs_intro]:
  "(\<And>e. x = Inl e \<Longrightarrow> runs (f e) Q) \<Longrightarrow> (\<And>v. x = Inr v \<Longrightarrow> runs (g v) Q) \<Longrightarrow>
   runs (case x of Inl e \<Rightarrow> f e | Inr v \<Rightarrow> g v) Q"
  by (cases x) auto

lemma runs_case_option [runs_intro]:
  "(x = None \<Longrightarrow> runs m Q) \<Longrightarrow> (\<And>v. x = Some v \<Longrightarrow> runs (g v) Q) \<Longrightarrow>
   runs (case x of None \<Rightarrow> m | Some v \<Rightarrow> g v) Q"
  by (cases x) auto

lemma runs_case_prod [runs_intro]:
  "(\<And>a b. x = (a, b) \<Longrightarrow> runs (f a b) Q) \<Longrightarrow> runs (case x of (a, b) \<Rightarrow> f a b) Q"
  by (cases x) auto

lemma runs_Let [runs_intro]: "(\<And>v. v = x \<Longrightarrow> runs (f v) Q) \<Longrightarrow> runs (let v = x in f v) Q"
  by (simp add: Let_def)

lemma runs_conseq: "runs m Q \<Longrightarrow> (\<And>a ops. Q a ops \<Longrightarrow> R a ops) \<Longrightarrow> runs m R"
  unfolding runs_def by blast

lemma runs_conj: "runs m Q \<Longrightarrow> runs m R \<Longrightarrow> runs m (\<lambda>a ops. Q a ops \<and> R a ops)"
  unfolding runs_def by (metis same_append_eq)

lemma runs_True [simp]: "runs m (\<lambda>a ops. True) \<longleftrightarrow> (\<forall>s. \<exists>ops. trace (snd (run_state m s)) = trace s @ ops)"
  by (simp add: runs_def)

lemma runs_eventf [runs_intro]:
  "(rcRecorder r \<Longrightarrow> Q () [OpEvent t x a]) \<Longrightarrow> (\<not> rcRecorder r \<Longrightarrow> Q () []) \<Longrightarrow> runs (eventf r t x a) Q"
  by (simp add: eventf_def runs_emit runs_return)

lemmas call_defs =
  getFI_def statusUpdateFI_def getVS_def listVS_def createVS_def updateVS_def deleteVS_def
  listPods_def deletePod_def getJob_def listJobs_def createJob_def deleteJob_def getLease_def
  listLeases_def createLease_def updateLease_def deleteLease_def listDeployments_def
  deleteDeployment_def

lemma runs_getFI [runs_intro]: "(\<And>a. Q a [OpGetFI ns n a]) \<Longrightarrow> runs (getFI r ns n) Q"
  and runs_statusUpdateFI [runs_intro]:
    "(\<And>a. Q' a [OpStatusUpdateFI fi a]) \<Longrightarrow> runs (statusUpdateFI r fi) Q'"
  and runs_getVS [runs_intro]: "(\<And>a. Q1 a [OpGetVS ns n a]) \<Longrightarrow> runs (getVS r ns n) Q1"
  and runs_listVS [runs_intro]: "(\<And>a. Q2 a [OpListVS ns ls a]) \<Longrightarrow> runs (listVS r ns ls) Q2"
  and runs_createVS [runs_intro]: "(\<And>a. Q1 a [OpCreateVS vs a]) \<Longrightarrow> runs (createVS r vs) Q1"
  and runs_updateVS [runs_intro]: "(\<And>a. Q' a [OpUpdateVS vs a]) \<Longrightarrow> runs (updateVS r vs) Q'"
  and runs_deleteVS [runs_intro]: "(\<And>a. Q' a [OpDeleteVS vs a]) \<Longrightarrow> runs (deleteVS r vs) Q'"
  by (simp_all add: call_defs runs_call)

lemma runs_listPods [runs_intro]: "(\<And>a. Q a [OpListPods ns ls a]) \<Longrightarrow> runs (listPods r ns ls) Q"
  and runs_deletePod [runs_intro]: "(\<And>a. Q' a [OpDeletePod p a]) \<Longrightarrow> runs (deletePod r p) Q'"
  and runs_getJob [runs_intro]: "(\<And>a. Q1 a [OpGetJob ns n a]) \<Longrightarrow> runs (getJob r ns n) Q1"
  and runs_listJobs [runs_intro]: "(\<And>a. Q2 a [OpListJobs ns ls a]) \<Longrightarrow> runs (listJobs r ns ls) Q2"
  and runs_createJob [runs_intro]: "(\<And>a. Q' a [OpCreateJob j a]) \<Longrightarrow> runs (createJob r j) Q'"
  and runs_deleteJob [runs_intro]: "(\<And>a. Q' a [OpDeleteJob j a]) \<Longrightarrow> runs (deleteJob r j) Q'"
  by (simp_all add: call_defs runs_call)

lemma runs_getLease [runs_intro]: "(\<And>a. Q a [OpGetLease ns n a]) \<Longrightarrow> runs (getLease r ns n) Q"
  and runs_listLeases [runs_intro]:
    "(\<And>a. Q2 a [OpListLeases ns ls a]) \<Longrightarrow> runs (listLeases r ns ls) Q2"
  and runs_createLease [runs_intro]:
    "(\<And>a. Q' a [OpCreateLease l a]) \<Longrightarrow> runs (createLease r l) Q'"
  and runs_updateLease [runs_intro]:
    "(\<And>a. Q' a [OpUpdateLease l a]) \<Longrightarrow> runs (updateLease r l) Q'"
  and runs_deleteLease [runs_intro]:
    "(\<And>a. Q' a [OpDeleteLease l a]) \<Longrightarrow> runs (deleteLease r l) Q'"
  and runs_listDeployments [runs_intro]:
    "(\<And>a. Q3 a [OpListDeployments ns a]) \<Longrightarrow> runs (listDeployments r ns) Q3"
  and runs_deleteDeployment [runs_intro]:
    "(\<And>a. Q' a [OpDeleteDeployment d a]) \<Longrightarrow> runs (deleteDeployment r d) Q'"
  by (simp_all add: call_defs runs_call)

section \<open>Properties of a trace that compose\<close>

text \<open>\<open>always L m\<close>: whatever the world does, the requests \<open>m\<close> makes satisfy \<open>L\<close>.\<close>

definition always :: "(op list \<Rightarrow> bool) \<Rightarrow> ('w, 'a) eff \<Rightarrow> bool" where
  "always L m \<longleftrightarrow> runs m (\<lambda>_ ops. L ops)"

text \<open>
  A property of traces that holds of the empty trace and of two traces one after the other is
  proved of a computation by following its structure.
\<close>

locale trace_property =
  fixes L :: "op list \<Rightarrow> bool"
  assumes L_Nil: "L []"
    and L_append: "L a \<Longrightarrow> L b \<Longrightarrow> L (a @ b)"
begin

lemma always_return [always_intro]: "always L (State_Monad.return a)"
  by (simp add: always_def runs_return L_Nil)

lemma always_bind [always_intro]:
  "always L m \<Longrightarrow> (\<And>a. always L (f a)) \<Longrightarrow> always L (State_Monad.bind m f)"
  unfolding always_def
  by (rule runs_bind, erule runs_conseq, rule runs_conseq, assumption) (rule L_append)

text \<open>A step about whose result more is known.\<close>

lemma always_bind_result:
  "runs m (\<lambda>a ops. L ops \<and> R a) \<Longrightarrow> (\<And>a. R a \<Longrightarrow> always L (f a)) \<Longrightarrow> always L (State_Monad.bind m f)"
  unfolding always_def
  by (rule runs_bind, erule runs_conseq, rule runs_conseq, blast) (blast intro: L_append)

lemma always_time_now [always_intro]: "always L (time_now r)"
  by (simp add: always_def runs_time_now L_Nil)

lemma always_if [always_intro]:
  "(b \<Longrightarrow> always L m) \<Longrightarrow> (\<not> b \<Longrightarrow> always L n) \<Longrightarrow> always L (if b then m else n)"
  by simp

lemma always_case_sum [always_intro]:
  "(\<And>e. x = Inl e \<Longrightarrow> always L (f e)) \<Longrightarrow> (\<And>v. x = Inr v \<Longrightarrow> always L (g v)) \<Longrightarrow>
   always L (case x of Inl e \<Rightarrow> f e | Inr v \<Rightarrow> g v)"
  by (cases x) auto

lemma always_case_option [always_intro]:
  "(x = None \<Longrightarrow> always L m) \<Longrightarrow> (\<And>v. x = Some v \<Longrightarrow> always L (g v)) \<Longrightarrow>
   always L (case x of None \<Rightarrow> m | Some v \<Rightarrow> g v)"
  by (cases x) auto

lemma always_case_prod [always_intro]:
  "(\<And>a b. x = (a, b) \<Longrightarrow> always L (f a b)) \<Longrightarrow> always L (case x of (a, b) \<Rightarrow> f a b)"
  by (cases x) auto

lemma always_case_bool [always_intro]:
  "(x \<Longrightarrow> always L m) \<Longrightarrow> (\<not> x \<Longrightarrow> always L n) \<Longrightarrow> always L (case x of True \<Rightarrow> m | False \<Rightarrow> n)"
  by (cases x) auto

lemma always_Let [always_intro]: "(\<And>v. v = x \<Longrightarrow> always L (f v)) \<Longrightarrow> always L (let v = x in f v)"
  by (simp add: Let_def)

lemma always_eventf: "L [OpEvent t x a] \<Longrightarrow> always L (eventf r t x a)"
  by (simp add: always_def runs_eventf L_Nil)

lemma always_retry [always_intro]:
  "(\<And>b. always L (f b)) \<Longrightarrow> always L (retry_on_conflict n f b)"
  by (induction n arbitrary: b) (auto intro!: always_bind always_case_prod always_if always_return)

end

lemma always_ops_of: "always L m \<Longrightarrow> L (ops_of m s)"
  unfolding always_def by (rule runs_ops_of)

lemma always_mono: "always L m \<Longrightarrow> (\<And>x. L x \<Longrightarrow> M x) \<Longrightarrow> always M m"
  unfolding always_def by (erule runs_conseq)

lemma always_runs: "always L m \<Longrightarrow> runs m (\<lambda>_ ops. L ops)"
  by (simp add: always_def)

text \<open>One such property: every request satisfies \<open>A\<close>.\<close>

interpretation each: trace_property "list_all A" for A
  by unfold_locales auto

text \<open>The VirtualServices a request returned.\<close>

fun obtained :: "op \<Rightarrow> vsObj list" where
  "obtained (OpGetVS _ _ (Inr vs)) = [vs]"
| "obtained (OpCreateVS _ (Inr vs)) = [vs]"
| "obtained (OpListVS _ _ (Inr l)) = l"
| "obtained _ = []"

lemma always_call: "(\<And>a. L [mk a]) \<Longrightarrow> always L (call f mk)"
  by (simp add: always_def runs_call)

abbreviation emits :: "(op \<Rightarrow> bool) \<Rightarrow> ('w, 'a) eff \<Rightarrow> bool" where
  "emits A \<equiv> always (list_all A)"

lemma emits_mono: "emits A m \<Longrightarrow> (\<And>x. A x \<Longrightarrow> B x) \<Longrightarrow> emits B m"
  by (erule always_mono) (auto simp: list_all_iff)

lemma mset_range_keys: "mset (range_keys r ks) = mset ks"
  by (simp add: range_keys_def Let_def)

lemma set_range_keys [simp]: "set (range_keys r ks) = set ks"
  using mset_range_keys [of r ks] by (metis set_mset_mset)

section \<open>What came before a request\<close>

text \<open>
  \<open>after J pre ops\<close>: every request of \<open>ops\<close> stands in relation \<open>J\<close> to the requests before it, of
  which \<open>pre\<close> are those before the trace. \<open>preceded J ops\<close>: to those of some stretch of the trace
  right before it, which is a property that composes.
\<close>

fun after :: "(op list \<Rightarrow> op \<Rightarrow> bool) \<Rightarrow> op list \<Rightarrow> op list \<Rightarrow> bool" where
  "after J pre [] = True"
| "after J pre (x # ops) = (J pre x \<and> after J (pre @ [x]) ops)"

definition preceded :: "(op list \<Rightarrow> op \<Rightarrow> bool) \<Rightarrow> op list \<Rightarrow> bool" where
  "preceded J ops \<longleftrightarrow> (\<forall>a x b. ops = a @ x # b \<longrightarrow> (\<exists>c d. a = c @ d \<and> J d x))"

lemma after_append: "after J pre (a @ b) \<longleftrightarrow> after J pre a \<and> after J (pre @ a) b"
  by (induction a arbitrary: pre) auto

lemma after_split: "after J pre (a @ x # b) \<Longrightarrow> J (pre @ a) x"
  by (simp add: after_append)

lemma after_preceded: "after J [] ops \<Longrightarrow> preceded J ops"
  unfolding preceded_def by (metis after_split append_Nil)

lemma after_free: "list_all (\<lambda>x. \<forall>d. J d x) ops \<Longrightarrow> after J pre ops"
  by (induction ops arbitrary: pre) auto

lemma preceded_append:
  assumes "preceded J a" "preceded J b" shows "preceded J (a @ b)"
  unfolding preceded_def
proof (intro allI impI)
  fix u x v assume eq: "a @ b = u @ x # v"
  then obtain w where "a = u @ w \<and> w @ b = x # v \<or> u = a @ w \<and> b = w @ x # v"
    by (auto simp: append_eq_append_conv2)
  then show "\<exists>c d. u = c @ d \<and> J d x"
  proof
    assume w: "a = u @ w \<and> w @ b = x # v"
    show ?thesis
    proof (cases w)
      case Nil
      then have "b = [] @ x # v" using w by simp
      then show ?thesis using assms(2) unfolding preceded_def by (metis append_is_Nil_conv append_Nil2)
    next
      case (Cons y w')
      then have "a = u @ x # w'" using w by simp
      then show ?thesis using assms(1) unfolding preceded_def by metis
    qed
  next
    assume "u = a @ w \<and> b = w @ x # v"
    then show ?thesis using assms(2) unfolding preceded_def by (metis append.assoc)
  qed
qed

text \<open>Sequencing, with what is known of the first step's result.\<close>

lemma runs_bind_after:
  assumes "runs m (\<lambda>a ops. after J pre ops \<and> R a ops)"
    and "\<And>a ops. R a ops \<Longrightarrow> runs (f a) (\<lambda>_ o2. after J (pre @ ops) o2)"
  shows "runs (State_Monad.bind m f) (\<lambda>_ ops. after J pre ops)"
  by (rule runs_bind, rule runs_conseq [OF assms(1)], rule runs_conseq, rule assms(2))
    (auto simp: after_append)

interpretation hist: trace_property "preceded J" for J
  by unfold_locales (simp add: preceded_def, rule preceded_append)

lemma preceded_after:
  assumes "preceded J ops" "\<And>u d x. J d x \<Longrightarrow> K (pre @ u @ d) x" shows "after K pre ops"
proof -
  have "after K (pre @ w) v" if "ops = w @ v" for w v
    using that
  proof (induction v arbitrary: w)
    case (Cons x v)
    obtain c d where "w = c @ d" "J d x"
      using assms(1) Cons.prems unfolding preceded_def by metis
    then have "K (pre @ w) x" using assms(2) by simp
    then show ?case using Cons.IH [of "w @ [x]"] Cons.prems by simp
  qed simp
  from this [of "[]" ops] show ?thesis by simp
qed

lemma precededD: "preceded J ops \<Longrightarrow> x \<in> set ops \<Longrightarrow> \<exists>d. set d \<subseteq> set ops \<and> J d x"
  by (drule split_list) (fastforce simp: preceded_def)

text \<open>An update of a VirtualService writes an object related by \<open>R\<close> to one obtained before.\<close>

definition update_from :: "(vsObj \<Rightarrow> vsObj \<Rightarrow> bool) \<Rightarrow> op list \<Rightarrow> op \<Rightarrow> bool" where
  "update_from R before x \<longleftrightarrow>
     (\<forall>vs' e. x = OpUpdateVS vs' e \<longrightarrow> (\<exists>vs \<in> set (concat (map obtained before)). R vs vs'))"

text \<open>The requests about one kind of object.\<close>

fun fi_op :: "op \<Rightarrow> bool" where
  "fi_op (OpGetFI _ _ _) = True"
| "fi_op (OpStatusUpdateFI _ _) = True"
| "fi_op _ = False"

fun lease_op :: "op \<Rightarrow> bool" where
  "lease_op (OpGetLease _ _ _) = True"
| "lease_op (OpCreateLease _ _) = True"
| "lease_op (OpUpdateLease _ _) = True"
| "lease_op _ = False"

fun event_op :: "op \<Rightarrow> bool" where
  "event_op (OpEvent _ _ _) = True"
| "event_op _ = False"

fun vs_op :: "op \<Rightarrow> bool" where
  "vs_op (OpGetVS _ _ _) = True"
| "vs_op (OpListVS _ _ _) = True"
| "vs_op (OpCreateVS _ _) = True"
| "vs_op (OpUpdateVS _ _) = True"
| "vs_op (OpDeleteVS _ _) = True"
| "vs_op _ = False"

text \<open>
  The requests that put a fault into the cluster, and those that cleanup makes: reads, events and
  the removal of objects.
\<close>

fun injects :: "op \<Rightarrow> bool" where
  "injects (OpCreateVS _ _) = True"
| "injects (OpCreateJob _ _) = True"
| "injects (OpCreateLease _ _) = True"
| "injects (OpUpdateLease _ _) = True"
| "injects _ = False"

lemma runs_retry:
  fixes f :: "'b \<Rightarrow> ('w, goerr option \<times> 'b) eff"
  assumes "\<And>b. runs (f b) (\<lambda>x ops. J (fst x) ops)"
    and "\<And>e a b. J (Some (EApi Conflict)) a \<Longrightarrow> J e b \<Longrightarrow> J e (a @ b)"
  shows "runs (retry_on_conflict n f b) (\<lambda>x ops. J (fst x) ops)"
proof (induction n arbitrary: b)
  case 0
  then show ?case using assms(1) by simp
next
  case (Suc n)
  have "runs (f b) (\<lambda>x o1. runs (case x of (e, b') \<Rightarrow>
      if e = Some (EApi Conflict) then retry_on_conflict n f b' else State_Monad.return (e, b'))
      (\<lambda>y o2. J (fst y) (o1 @ o2)))"
    using assms(1)
  proof (rule runs_conseq)
    fix x :: "goerr option \<times> 'b" and o1
    assume "J (fst x) o1"
    moreover obtain e b' where "x = (e, b')" by fastforce
    ultimately show "runs (case x of (e, b') \<Rightarrow>
      if e = Some (EApi Conflict) then retry_on_conflict n f b' else State_Monad.return (e, b'))
      (\<lambda>y o2. J (fst y) (o1 @ o2))"
      using assms(2) by (auto intro!: runs_return runs_conseq [OF Suc.IH])
  qed
  then show ?case by (auto intro!: runs_bind)
qed

lemma runs_events: "(\<And>ops. list_all event_op ops \<Longrightarrow> Q () ops) \<Longrightarrow> runs (eventf r t x a) Q"
  by (simp add: runs_eventf)

end
