(* ===== verification/PodPlan.thy ===== *)
theory PodPlan
  imports Effects
begin

text \<open>
  The pure part of \<open>src/internal/controller/pod_fault.go\<close> and the tick helpers of
  \<open>helpers.go\<close>: the execution plan of a pod fault, the selection of pods, the table of ticks
  in the status. int32 and int64 arithmetic that can leave its range is wrapped.
\<close>

abbreviation (input) defaultPodFaultLeaseDurationSeconds :: int where
  "defaultPodFaultLeaseDurationSeconds \<equiv> 60"
abbreviation (input) defaultPodFaultLeaseSafetySkew :: int where
  "defaultPodFaultLeaseSafetySkew \<equiv> 10 * second"
abbreviation (input) defaultPodFaultJobActiveDeadlineSeconds :: int where
  "defaultPodFaultJobActiveDeadlineSeconds \<equiv> 120"
abbreviation (input) defaultPodFaultJobTTLSecondsAfterFinished :: int where
  "defaultPodFaultJobTTLSecondsAfterFinished \<equiv> 300"
abbreviation (input) defaultPodFaultJobBackoffLimit :: int where
  "defaultPodFaultJobBackoffLimit \<equiv> 0"
abbreviation (input) PodFaultStatePlanned :: string where "PodFaultStatePlanned \<equiv> ''Planned''"
abbreviation (input) PodFaultStateSucceeded :: string where "PodFaultStateSucceeded \<equiv> ''Succeeded''"
abbreviation (input) PodFaultStateFailed :: string where "PodFaultStateFailed \<equiv> ''Failed''"

section \<open>Plans\<close>

record podFaultPlan =
  plActionName :: string
  plTickID :: string
  plDueAt :: "time option"
  plJobName :: string
  plLeaseName :: string
  plNamespace :: string
  plSelectionCount :: "int option"
  plSelectionPercent :: "int option"
  plPodNames :: "string list"
  plSelectorLabels :: "string gomap"
  plTerminationMode :: string
  plGracePeriodSecs :: int
  plMaxPodsAffectedEffective :: int
  plRespectPDB :: bool
  plRefuseIfPodsLessThan :: int

definition resolvePodFaultMode :: "podFaultAction \<Rightarrow> string" where
  "resolvePodFaultMode a =
     (case paPolicy a of
        Some p \<Rightarrow> if ppExecutionMode p \<noteq> [] then ppExecutionMode p else ExecutionModeOneShot
      | None \<Rightarrow> ExecutionModeOneShot)"

definition resolvePodFaultTargetNS :: "faultInjection \<Rightarrow> podFaultAction \<Rightarrow> string" where
  "resolvePodFaultTargetNS fi a =
     (let targetNS = TrimSpace (ptNamespace (paTarget a))
      in if targetNS = [] then fiNamespace fi else targetNS)"

definition validatePodFaultSelection :: "podFaultAction \<Rightarrow> goerr option" where
  "validatePodFaultSelection a =
     (if psMode (paSelection a) = PodSelectionModeCount then
        (case psCount (paSelection a) of
           None \<Rightarrow> Some (EPlanCount (paName a))
         | Some c \<Rightarrow> if c \<le> 0 then Some (EPlanCount (paName a)) else None)
      else if psMode (paSelection a) = PodSelectionModePercent then
        (case psPercent (paSelection a) of
           None \<Rightarrow> Some (EPlanPercent (paName a))
         | Some p \<Rightarrow> if p \<le> 0 \<or> p > 100 then Some (EPlanPercent (paName a)) else None)
      else Some (EPlanMode (paName a) (psMode (paSelection a))))"

definition capEffectiveMaxPods :: "faultInjection \<Rightarrow> podFaultAction \<Rightarrow> string \<Rightarrow> int" where
  "capEffectiveMaxPods fi a mode =
     (let maxInt32 = 2 ^ 31 - 1;
          br = brMaxPodsAffected (spBlastRadius (fiSpec fi));
          e0 = (if br > 0 then (if br > maxInt32 then to_i32 maxInt32 else to_i32 br) else 0);
          e1 = (case psMaxPodsAffected (paSelection a) of
                  Some m \<Rightarrow> if m > 0 \<and> (e0 = 0 \<or> m < e0) then m else e0
                | None \<Rightarrow> e0);
          e2 = (case paWindow a of
                  Some w \<Rightarrow>
                    if mode = ExecutionModeWindowed \<and> pwMaxTotalPodsAffected w > 0
                       \<and> (e1 = 0 \<or> pwMaxTotalPodsAffected w < e1)
                    then pwMaxTotalPodsAffected w else e1
                | None \<Rightarrow> e1)
      in e2)"

text \<open>
  The five results of \<open>computeWindowedTick\<close>: an error, or the tick, its due time, whether to plan
  now, and the next due time.
\<close>

definition computeWindowedTick ::
  "podFaultAction \<Rightarrow> time \<Rightarrow> time \<Rightarrow> goerr + string \<times> time option \<times> bool \<times> time option" where
  "computeWindowedTick a now startedAt =
     (case paWindow a of
        None \<Rightarrow> Inl (EPlanWindowNil (paName a))
      | Some w \<Rightarrow>
          (let interval = to_i64 (pwIntervalSeconds w * second) in
           if interval \<le> 0 then Inl (EPlanInterval (paName a) (pwIntervalSeconds w))
           else if now < startedAt then Inr ([], None, False, Some startedAt)
           else
             (let elapsed = time_sub now startedAt;
                  tick = elapsed sdiv interval;
                  tickID = show_int tick;
                  nextDue = startedAt + to_i64 (to_i64 (tick + 1) * interval)
              in Inr (tickID, Some nextDue, True, Some nextDue))))"

definition updateEarliestDue :: "time option \<Rightarrow> time option \<Rightarrow> time option" where
  "updateEarliestDue earliest candidate =
     (case candidate of
        None \<Rightarrow> earliest
      | Some c \<Rightarrow> (case earliest of
            None \<Rightarrow> Some c
          | Some e \<Rightarrow> if c < e then Some c else Some e))"

text \<open>The plan of one action for a tick; the names can panic.\<close>

definition plan_for ::
  "faultInjection \<Rightarrow> podFaultAction \<Rightarrow> int \<Rightarrow> string \<Rightarrow> time option \<Rightarrow> podFaultPlan option" where
  "plan_for fi a effectiveMax tickID dueAt =
     map_option (\<lambda>(jobName, leaseName).
       \<lparr>plActionName = paName a,
        plTickID = tickID,
        plDueAt = dueAt,
        plJobName = jobName,
        plLeaseName = leaseName,
        plNamespace = resolvePodFaultTargetNS fi a,
        plSelectionCount = psCount (paSelection a),
        plSelectionPercent = psPercent (paSelection a),
        plPodNames = [],
        plSelectorLabels = lsMatchLabels (ptSelector (paTarget a)),
        plTerminationMode = trMode (paTermination a),
        plGracePeriodSecs = trGracePeriodSeconds (paTermination a),
        plMaxPodsAffectedEffective = effectiveMax,
        plRespectPDB = pgRespectPodDisruptionBudget (paGuardrails a),
        plRefuseIfPodsLessThan = pgRefuseIfPodsLessThan (paGuardrails a)\<rparr>)
     (podFaultNames fi (paName a) tickID)"

text \<open>
  The body of the loop over the actions: an error, or the plan, if the action has one now, and
  the earliest due time. An error leaves the due time it was computed with.
\<close>

definition plan_step ::
  "faultInjection \<Rightarrow> time \<Rightarrow> time \<Rightarrow> podFaultAction \<Rightarrow> time option \<Rightarrow>
   goerr \<times> time option + podFaultPlan list \<times> time option" where
  "plan_step fi now startedAt a earliestDue =
     (let mode = resolvePodFaultMode a in
      case validatePodFaultSelection a of
        Some e \<Rightarrow> Inl (e, earliestDue)
      | None \<Rightarrow>
          (let effectiveMax = capEffectiveMaxPods fi a mode in
           if mode = ExecutionModeWindowed then
             (case computeWindowedTick a now startedAt of
                Inl e \<Rightarrow> Inl (e, earliestDue)
              | Inr (tickID, dueAt, shouldPlan, nextDue) \<Rightarrow>
                  (let due = updateEarliestDue earliestDue nextDue in
                   if \<not> shouldPlan then Inr ([], due)
                   else (case plan_for fi a effectiveMax tickID dueAt of
                       None \<Rightarrow> Inl (EPanic, due)
                     | Some p \<Rightarrow> Inr ([p], due))))
           else (case plan_for fi a effectiveMax ''oneshot'' None of
               None \<Rightarrow> Inl (EPanic, earliestDue)
             | Some p \<Rightarrow> Inr ([p], earliestDue))))"

fun plan_loop ::
  "faultInjection \<Rightarrow> time \<Rightarrow> time \<Rightarrow> podFaultAction list \<Rightarrow> podFaultPlan list \<Rightarrow> time option \<Rightarrow>
   podFaultPlan list \<times> time option \<times> goerr option" where
  "plan_loop fi now startedAt [] plans due = (plans, due, None)"
| "plan_loop fi now startedAt (a # as) plans due =
     (case plan_step fi now startedAt a due of
        Inl (e, due') \<Rightarrow> ([], due', Some e)
      | Inr (new, due') \<Rightarrow> plan_loop fi now startedAt as (plans @ new) due')"

definition buildPodFaultPlans ::
  "faultInjection \<Rightarrow> time \<Rightarrow> time \<Rightarrow> podFaultPlan list \<times> time option \<times> goerr option" where
  "buildPodFaultPlans fi now startedAt = plan_loop fi now startedAt (podFaults fi) [] None"

section \<open>Selection\<close>

text \<open>The pods \<open>listCandidatePods\<close> returns for a list: the ones not terminating, by name.\<close>

definition candidate_pods :: "podObj list \<Rightarrow> podObj list" where
  "candidate_pods pods =
     sort_key (\<lambda>p. oName (pdMeta p)) (filter (\<lambda>p. oDeletionTimestamp (pdMeta p) = None) pods)"

definition selectPodNamesDeterministically ::
  "podObj list \<Rightarrow> string \<Rightarrow> int option \<Rightarrow> int option \<Rightarrow> int \<Rightarrow> string list" where
  "selectPodNamesDeterministically candidates mode cnt percent maxPods =
     (let n = int (length candidates) in
      if n = 0 then []
      else
        (let desired =
               (if mode = PodSelectionModeCount then
                  (case cnt of Some c \<Rightarrow> c | None \<Rightarrow> 0)
                else if mode = PodSelectionModePercent then
                  (case percent of Some p \<Rightarrow> to_i64 (to_i64 (n * p) + 99) sdiv 100 | None \<Rightarrow> 0)
                else 0)
         in if desired < 1 then []
            else
              (let d1 = (if desired > n then n else desired);
                   d2 = (if maxPods > 0 \<and> d1 > maxPods then maxPods else d1)
               in map (\<lambda>i. oName (pdMeta (candidates ! i))) [0..<nat d2])))"

section \<open>Jobs\<close>

definition isJobComplete :: "jobObj \<Rightarrow> bool" where
  "isJobComplete j \<longleftrightarrow>
     (\<exists>c \<in> set (jbConditions j). jcType c = ''Complete'' \<and> jcStatus c = ''True'')
     \<or> jbCompletionTime j \<noteq> None \<or> jbSucceeded j > 0"

definition isJobFailed :: "jobObj \<Rightarrow> bool" where
  "isJobFailed j \<longleftrightarrow>
     (\<exists>c \<in> set (jbConditions j). jcType c = ''Failed'' \<and> jcStatus c = ''True'')
     \<or> jbFailed j > 0"

section \<open>The table of ticks in the status\<close>

text \<open>
  The functions return a pointer to the entry, or nil; here its index. An entry that is missing
  is appended with the zero value of its other fields.
\<close>

definition tick_matches :: "string \<Rightarrow> string \<Rightarrow> podFaultTickStatus \<Rightarrow> bool" where
  "tick_matches actionName tickID e \<longleftrightarrow> tkActionName e = actionName \<and> tkTickID e = tickID"

definition new_tick :: "string \<Rightarrow> string \<Rightarrow> podFaultTickStatus" where
  "new_tick actionName tickID =
     \<lparr>tkActionName = actionName, tkTickID = tickID, tkPlannedAt = None, tkPlannedPods = [],
      tkJobName = [], tkExecutedAt = None, tkState = [], tkMessage = []\<rparr>"

fun tick_index :: "string \<Rightarrow> string \<Rightarrow> podFaultTickStatus list \<Rightarrow> nat option" where
  "tick_index a t [] = None"
| "tick_index a t (e # es) =
     (if tick_matches a t e then Some 0 else map_option Suc (tick_index a t es))"

definition findPodFaultTickStatus ::
  "podFaultTickStatus list \<Rightarrow> string \<Rightarrow> string \<Rightarrow> podFaultTickStatus option" where
  "findPodFaultTickStatus es a t = map_option ((!) es) (tick_index a t es)"

definition upsertPodFaultTickStatus ::
  "podFaultTickStatus list \<Rightarrow> string \<Rightarrow> string \<Rightarrow> podFaultTickStatus list \<times> nat" where
  "upsertPodFaultTickStatus es a t =
     (case tick_index a t es of
        Some i \<Rightarrow> (es, i)
      | None \<Rightarrow> (es @ [new_tick a t], length es))"

definition isTerminalTickState :: "string \<Rightarrow> bool" where
  "isTerminalTickState state \<longleftrightarrow> state = PodFaultStateSucceeded \<or> state = PodFaultStateFailed"

definition tick_finished :: "podFaultTickStatus \<Rightarrow> bool" where
  "tick_finished e \<longleftrightarrow> tkExecutedAt e \<noteq> None
     \<or> tkState e = PodFaultStateSucceeded \<or> tkState e = PodFaultStateFailed"

definition podFaultTickAlreadyExecuted ::
  "podFaultTickStatus list \<Rightarrow> string \<Rightarrow> string \<Rightarrow> bool" where
  "podFaultTickAlreadyExecuted es a t \<longleftrightarrow> (\<exists>e \<in> set es. tick_matches a t e \<and> tick_finished e)"

text \<open>
  The two writes, on the status of the object just read: the status to persist, or nothing when
  the tick is finished.
\<close>

definition planned_status ::
  "podFaultPlan \<Rightarrow> time \<Rightarrow> faultInjectionStatus \<Rightarrow> faultInjectionStatus option" where
  "planned_status p now st =
     (let (es, i) = upsertPodFaultTickStatus (stPodFaults st) (plActionName p) (plTickID p);
          e = es ! i
      in if tick_finished e then None
         else Some (st\<lparr>stPodFaults := es[i := e\<lparr>
           tkPlannedAt := Some now,
           tkPlannedPods := plPodNames p,
           tkJobName := plJobName p,
           tkState := PodFaultStatePlanned,
           tkMessage := []\<rparr>]\<rparr>))"

definition executed_status ::
  "podFaultPlan \<Rightarrow> time \<Rightarrow> bool \<Rightarrow> string \<Rightarrow> faultInjectionStatus \<Rightarrow> faultInjectionStatus" where
  "executed_status p now succeeded msg st =
     (let (es, i) = upsertPodFaultTickStatus (stPodFaults st) (plActionName p) (plTickID p);
          e = es ! i;
          pods = (if tkPlannedPods e = [] \<and> plPodNames p \<noteq> [] then plPodNames p else tkPlannedPods e)
      in st\<lparr>stPodFaults := es[i := e\<lparr>
           tkPlannedPods := pods,
           tkJobName := plJobName p,
           tkExecutedAt := Some now,
           tkState := (if succeeded then PodFaultStateSucceeded else PodFaultStateFailed),
           tkMessage := msg\<rparr>]\<rparr>)"

section \<open>The cap on pods\<close>

text \<open>The positive caps an action is under: the minimum of them is the effective one.\<close>

definition declared_caps :: "faultInjection \<Rightarrow> podFaultAction \<Rightarrow> string \<Rightarrow> int list" where
  "declared_caps fi a mode =
     filter (\<lambda>c. c > 0)
       (min (2 ^ 31 - 1) (brMaxPodsAffected (spBlastRadius (fiSpec fi)))
        # (case psMaxPodsAffected (paSelection a) of Some m \<Rightarrow> [m] | None \<Rightarrow> [])
        @ (case paWindow a of
             Some w \<Rightarrow> if mode = ExecutionModeWindowed then [pwMaxTotalPodsAffected w] else []
           | None \<Rightarrow> []))"

definition tighten :: "int \<Rightarrow> int \<Rightarrow> int" where
  "tighten e c = (if c > 0 \<and> (e = 0 \<or> c < e) then c else e)"

definition least_cap :: "int list \<Rightarrow> int" where
  "least_cap cs = (if cs = [] then 0 else Min (set cs))"

lemma tighten_step:
  assumes "\<forall>x \<in> set cs. 0 < x"
  shows "tighten (least_cap cs) c = least_cap (cs @ (if c > 0 then [c] else []))"
proof (cases "cs = [] \<or> \<not> 0 < c")
  case False
  define m where "m = Min (set cs)"
  have "0 < m" using False assms by (simp add: m_def)
  moreover have "Min (set (cs @ [c])) = min c m" using False by (simp add: m_def)
  ultimately have "least_cap cs = m" "least_cap (cs @ (if c > 0 then [c] else [])) = min c m"
    using False by (simp_all only: least_cap_def m_def [symmetric]) simp_all
  with \<open>0 < m\<close> False show ?thesis by (auto simp: tighten_def min_def)
qed (auto simp: tighten_def least_cap_def)

lemma foldl_tighten:
  "\<forall>x \<in> set cs. 0 < x \<Longrightarrow>
   foldl tighten (least_cap cs) ds = least_cap (cs @ filter (\<lambda>c. c > 0) ds)"
proof (induction ds arbitrary: cs)
  case (Cons d ds)
  have "\<forall>x \<in> set (cs @ (if d > 0 then [d] else [])). 0 < x" using Cons.prems by auto
  from Cons.IH [OF this] show ?case
    using tighten_step [OF Cons.prems, of d] by (simp split: if_splits)
qed simp

lemma capEffectiveMaxPods_least:
  "capEffectiveMaxPods fi a mode = least_cap (declared_caps fi a mode)"
proof -
  let ?br = "brMaxPodsAffected (spBlastRadius (fiSpec fi))"
  let ?s = "case psMaxPodsAffected (paSelection a) of Some m \<Rightarrow> [m] | None \<Rightarrow> []"
  let ?w = "case paWindow a of
           Some w \<Rightarrow> if mode = ExecutionModeWindowed then [pwMaxTotalPodsAffected w] else []
         | None \<Rightarrow> []"
  define e0 where "e0 = tighten 0 (min (2 ^ 31 - 1) ?br)"
  define e1 where "e1 = foldl tighten e0 ?s"
  have 0: "(if ?br > 0 then (if ?br > 2 ^ 31 - 1 then to_i32 (2 ^ 31 - 1) else to_i32 ?br) else 0) = e0"
    by (auto simp: e0_def tighten_def to_i32_id in_i32_def)
  have 1: "(case psMaxPodsAffected (paSelection a) of
        Some m \<Rightarrow> if m > 0 \<and> (e0 = 0 \<or> m < e0) then m else e0 | None \<Rightarrow> e0) = e1"
    by (simp add: e1_def tighten_def split: option.split)
  have "capEffectiveMaxPods fi a mode = foldl tighten e1 ?w"
    unfolding capEffectiveMaxPods_def Let_def 0 1
    by (cases "paWindow a") (auto simp: tighten_def)
  then have "capEffectiveMaxPods fi a mode =
      foldl tighten (least_cap []) (min (2 ^ 31 - 1) ?br # ?s @ ?w)"
    by (simp add: e1_def e0_def least_cap_def)
  also have "\<dots> = least_cap (declared_caps fi a mode)"
    by (subst foldl_tighten) (simp_all add: declared_caps_def)
  finally show ?thesis .
qed

lemma declared_caps_pos: "c \<in> set (declared_caps fi a mode) \<Longrightarrow> 0 < c"
  unfolding declared_caps_def set_filter by simp

lemma capEffectiveMaxPods_nonneg: "0 \<le> capEffectiveMaxPods fi a mode"
  using declared_caps_pos [of _ fi a mode]
  by (force simp: capEffectiveMaxPods_least least_cap_def)

section \<open>The selection\<close>

text \<open>How many of \<open>n\<close> candidates a selection asks for, before the caps.\<close>

definition selection_size :: "int \<Rightarrow> string \<Rightarrow> int option \<Rightarrow> int option \<Rightarrow> int" where
  "selection_size n mode cnt percent =
     (if mode = PodSelectionModeCount then (case cnt of Some c \<Rightarrow> c | None \<Rightarrow> 0)
      else if mode = PodSelectionModePercent then
        (case percent of Some p \<Rightarrow> \<lceil>rat_of_int (n * p) / 100\<rceil> | None \<Rightarrow> 0)
      else 0)"

lemma ceil_percent: "\<lceil>rat_of_int x / 100\<rceil> = (x + 99) div 100"
proof (rule ceiling_unique)
  define q where "q = (x + 99) div 100"
  define r where "r = (x + 99) mod 100"
  have "x + 99 = 100 * q + r" "0 \<le> r" "r < 100" by (simp_all add: q_def r_def)
  then have "100 * q \<le> x + 99" "x \<le> 100 * q" by linarith+
  then have "rat_of_int (100 * q) \<le> rat_of_int (x + 99)" "rat_of_int x \<le> rat_of_int (100 * q)"
    by (simp_all only: of_int_le_iff)
  then show "rat_of_int ((x + 99) div 100) - 1 < rat_of_int x / 100"
    and "rat_of_int x / 100 \<le> rat_of_int ((x + 99) div 100)"
    by (simp_all add: q_def [symmetric])
qed

lemma ceil_percent_i64:
  assumes "0 \<le> n" "n < 2 ^ 31" "0 \<le> p" "p \<le> 100"
  shows "to_i64 (to_i64 (n * p) + 99) sdiv 100 = \<lceil>rat_of_int (n * p) / 100\<rceil>"
proof -
  have "n * p \<le> n * 100" using assms by (intro mult_left_mono) auto
  then have "0 \<le> n * p" "n * p < 2 ^ 40" using assms by auto
  then show ?thesis by (simp only: ceil_percent) (simp add: to_i64_id in_i64_def sdiv_nonneg)
qed

definition pod_names :: "podObj list \<Rightarrow> string list" where
  "pod_names ps = map (\<lambda>p. oName (pdMeta p)) ps"

lemma select_take:
  "k \<le> int (length cs) \<Longrightarrow> map (\<lambda>i. oName (pdMeta (cs ! i))) [0..<nat k] = pod_names (take (nat k) cs)"
  unfolding pod_names_def by (intro nth_equalityI) auto

lemma selection_size_eq:
  assumes "0 \<le> n" "n < 2 ^ 31" "case percent of Some p \<Rightarrow> 0 \<le> p \<and> p \<le> 100 | None \<Rightarrow> True"
  shows "(if mode = PodSelectionModeCount then (case cnt of Some c \<Rightarrow> c | None \<Rightarrow> 0)
      else if mode = PodSelectionModePercent then
        (case percent of Some p \<Rightarrow> to_i64 (to_i64 (n * p) + 99) sdiv 100 | None \<Rightarrow> 0)
      else 0) = selection_size n mode cnt percent"
proof (cases percent)
  case (Some p)
  then show ?thesis
    using ceil_percent_i64 [of n p] assms by (simp only: selection_size_def option.case)
qed (simp only: selection_size_def option.case)

lemma select_prefix:
  assumes "int (length cs) < 2 ^ 31" "case percent of Some p \<Rightarrow> 0 \<le> p \<and> p \<le> 100 | None \<Rightarrow> True"
  shows "selectPodNamesDeterministically cs mode cnt percent maxPods =
    (let d = min (selection_size (int (length cs)) mode cnt percent) (int (length cs))
     in pod_names (take (nat (if maxPods > 0 then min d maxPods else d)) cs))"
  unfolding selectPodNamesDeterministically_def Let_def
    selection_size_eq [OF of_nat_0_le_iff assms]
  by (auto simp: select_take min_def pod_names_def)

text \<open>The percentage does not matter to a selection by count.\<close>

lemma select_by_count:
  "selectPodNamesDeterministically cs PodSelectionModeCount cnt percent m =
     selectPodNamesDeterministically cs PodSelectionModeCount cnt None m"
  "selection_size n PodSelectionModeCount cnt percent = selection_size n PodSelectionModeCount cnt None"
  by (simp_all only: selectPodNamesDeterministically_def selection_size_def simp_thms if_True)

lemma selection_size_pos:
  assumes "validatePodFaultSelection a = None" "0 < n"
  shows "1 \<le> selection_size n (psMode (paSelection a)) (psCount (paSelection a)) (psPercent (paSelection a))"
proof -
  have "0 < rat_of_int n * rat_of_int p" if "\<not> p \<le> 0" for p
    using that assms(2) by (simp add: zero_less_mult_iff)
  then show ?thesis
    using assms(1) by (auto simp: validatePodFaultSelection_def selection_size_def split: option.splits if_splits)
qed

text \<open>A selection that passed the checks of the plan asks for at least one pod.\<close>

lemma select_clamped:
  assumes "validatePodFaultSelection a = None" "int (length cs) < 2 ^ 31"
  shows "selectPodNamesDeterministically cs (psMode (paSelection a)) (psCount (paSelection a)) (psPercent (paSelection a)) m =
    (let n = int (length cs);
         d = max 1 (min (selection_size n (psMode (paSelection a)) (psCount (paSelection a)) (psPercent (paSelection a))) n)
     in pod_names (take (nat (if m > 0 then min d m else d)) cs))"
    (is "?l = ?r")
proof (cases "cs = []")
  case True
  then show ?thesis by (simp add: selectPodNamesDeterministically_def pod_names_def Let_def)
next
  case False
  let ?size = "selection_size (int (length cs)) (psMode (paSelection a)) (psCount (paSelection a)) (psPercent (paSelection a))"
  have pos: "1 \<le> min ?size (int (length cs))" using selection_size_pos [OF assms(1), of "int (length cs)"] False by (simp add: Suc_le_eq)
  have "?l = (let d = min ?size (int (length cs)) in pod_names (take (nat (if m > 0 then min d m else d)) cs))"
  proof (cases "psMode (paSelection a) = PodSelectionModeCount")
    case True
    have "selectPodNamesDeterministically cs PodSelectionModeCount (psCount (paSelection a)) None m =
        (let d = min (selection_size (int (length cs)) PodSelectionModeCount (psCount (paSelection a)) None) (int (length cs))
         in pod_names (take (nat (if m > 0 then min d m else d)) cs))"
      by (rule select_prefix [OF assms(2)]) simp
    then show ?thesis
      unfolding True select_by_count(1) [of cs "psCount (paSelection a)" "psPercent (paSelection a)"]
        select_by_count(2) [of "int (length cs)" "psCount (paSelection a)" "psPercent (paSelection a)"] .
  next
    case False
    then have "case psPercent (paSelection a) of Some p \<Rightarrow> 0 \<le> p \<and> p \<le> 100 | None \<Rightarrow> True"
      using assms(1) by (auto simp: validatePodFaultSelection_def split: option.splits if_splits)
    then show ?thesis by (rule select_prefix [OF assms(2)])
  qed
  then show ?thesis using pos by (simp add: Let_def max_def)
qed

lemma set_candidate_pods:
  "set (candidate_pods l) = {p \<in> set l. oDeletionTimestamp (pdMeta p) = None}"
  by (simp add: candidate_pods_def)

lemma sorted_candidate_pods: "sorted (pod_names (candidate_pods l))"
  by (simp add: candidate_pods_def pod_names_def)

lemma candidate_pods_perm:
  assumes "mset l = mset l'" "distinct (pod_names l)"
  shows "candidate_pods l = candidate_pods l'"
proof -
  let ?f = "\<lambda>p. oName (pdMeta p)" and ?P = "\<lambda>p. oDeletionTimestamp (pdMeta p) = None"
  have "inj_on ?f (set l)" using assms(2) by (simp add: pod_names_def distinct_map)
  then have "inj_on ?f (set (filter ?P l))" by (rule inj_on_subset) auto
  then show ?thesis
    unfolding candidate_pods_def using assms(1) by (intro sort_key_inj_key_eq) simp_all
qed

text \<open>Without assumptions on the numbers: no more than the cap, only candidates, in their order.\<close>

lemma select_names:
  "\<exists>k. selectPodNamesDeterministically cs mode cnt percent maxPods = pod_names (take k cs)
     \<and> (0 < maxPods \<longrightarrow> int k \<le> maxPods)"
proof -
  have "\<exists>k. map (\<lambda>i. oName (pdMeta (cs ! i))) [0..<nat d] = pod_names (take k cs) \<and> (0 < maxPods \<longrightarrow> int k \<le> maxPods)"
    if "d \<le> int (length cs)" "0 < maxPods \<longrightarrow> d \<le> maxPods" for d
    using that select_take [of d cs] by (intro exI [of _ "nat d"]) auto
  moreover have "\<exists>k. [] = pod_names (take k cs) \<and> (0 < maxPods \<longrightarrow> int k \<le> maxPods)"
    by (intro exI [of _ 0]) (simp add: pod_names_def)
  ultimately show ?thesis
    unfolding selectPodNamesDeterministically_def Let_def by (auto split: if_splits)
qed

section \<open>Ticks\<close>

lemma tick_window:
  assumes w: "paWindow a = Some w" and i: "in_i32 (pwIntervalSeconds w)" "0 < pwIntervalSeconds w"
    and t: "startedAt \<le> now" "now - startedAt < 2 ^ 62"
  defines "interval \<equiv> pwIntervalSeconds w * second"
  defines "k \<equiv> (now - startedAt) div interval"
  shows "computeWindowedTick a now startedAt =
      Inr (show_int k, Some (startedAt + (k + 1) * interval), True, Some (startedAt + (k + 1) * interval))"
    and "0 \<le> k" "startedAt + k * interval \<le> now" "now < startedAt + (k + 1) * interval"
proof -
  have i0: "0 < interval" "interval < 2 ^ 62"
    using i by (simp_all add: interval_def second_def in_i32_def)
  have e: "0 \<le> now - startedAt" using t by simp
  have dm: "now - startedAt = k * interval + (now - startedAt) mod interval"
    by (simp add: k_def)
  have m: "0 \<le> (now - startedAt) mod interval" "(now - startedAt) mod interval < interval"
    using i0 by simp_all
  show k0: "0 \<le> k" using e i0 by (simp add: k_def pos_imp_zdiv_nonneg_iff)
  show "startedAt + k * interval \<le> now" and "now < startedAt + (k + 1) * interval"
    using dm m by (simp_all add: algebra_simps)
  have k_le: "k \<le> k * interval" using k0 i0 by (simp add: mult_le_cancel_left1)
  have "to_i64 interval = interval" "to_i64 (k + 1) = k + 1"
    "to_i64 ((k + 1) * interval) = (k + 1) * interval" "time_sub now startedAt = now - startedAt"
    using i0 t dm m k0 k_le by (auto simp: to_i64_id in_i64_def time_sub_def algebra_simps)
  moreover have "(now - startedAt) sdiv interval = k"
    using e i0 by (simp add: sdiv_nonneg k_def)
  ultimately show "computeWindowedTick a now startedAt =
      Inr (show_int k, Some (startedAt + (k + 1) * interval), True, Some (startedAt + (k + 1) * interval))"
    using w i0 t by (simp add: computeWindowedTick_def interval_def [symmetric] Let_def)
qed

section \<open>The table of ticks\<close>

text \<open>
  A table of entries under keys, in which an entry is changed in place, and added first when it is
  missing. A change leaves the key alone.
\<close>

locale keyed_table =
  fixes find :: "'t \<Rightarrow> 'k \<Rightarrow> 'e option"
    and change :: "'t \<Rightarrow> 'k \<Rightarrow> ('e \<Rightarrow> 'e) \<Rightarrow> 't"
    and fresh :: "'k \<Rightarrow> 'e"
    and keeps :: "('e \<Rightarrow> 'e) \<Rightarrow> bool"
    and wf :: "'t \<Rightarrow> bool"
  assumes find_change: "keeps f \<Longrightarrow> find (change t k f) j =
      (if j = k then Some (f (case find t k of Some e \<Rightarrow> e | None \<Rightarrow> fresh k)) else find t j)"
    and wf_change: "keeps f \<Longrightarrow> wf t \<Longrightarrow> wf (change t k f)"
    and keeps_comp: "keeps f \<Longrightarrow> keeps g \<Longrightarrow> keeps (g \<circ> f)"
begin

lemma find_same:
  "keeps f \<Longrightarrow> find (change t k f) k = Some (f (case find t k of Some e \<Rightarrow> e | None \<Rightarrow> fresh k))"
  by (simp add: find_change)

lemma find_twice:
  "keeps f \<Longrightarrow> keeps g \<Longrightarrow> find (change (change t k f) k g) j = find (change t k (g \<circ> f)) j"
  by (simp add: find_change keeps_comp)

text \<open>A property of an entry that a change keeps is kept by the table.\<close>

lemma stable:
  "keeps f \<Longrightarrow> (\<And>e. P e \<Longrightarrow> P (f e)) \<Longrightarrow> find t j = Some e \<Longrightarrow> P e \<Longrightarrow>
   \<exists>e'. find (change t k f) j = Some e' \<and> P e'"
  by (cases "j = k") (simp_all add: find_change)

lemma commute:
  "keeps f \<Longrightarrow> keeps g \<Longrightarrow> k \<noteq> k' \<Longrightarrow>
   find (change (change t k f) k' g) j = find (change (change t k' g) k f) j"
  by (simp add: find_change)

end

definition tick_key :: "podFaultTickStatus \<Rightarrow> string \<times> string" where
  "tick_key e = (tkActionName e, tkTickID e)"

text \<open>One entry per action and tick.\<close>

definition ticks_distinct :: "podFaultTickStatus list \<Rightarrow> bool" where
  "ticks_distinct es \<longleftrightarrow> distinct (map tick_key es)"

text \<open>What the code does with the pointer \<open>upsertPodFaultTickStatus\<close> returns.\<close>

definition change_tick ::
  "podFaultTickStatus list \<Rightarrow> string \<times> string \<Rightarrow> (podFaultTickStatus \<Rightarrow> podFaultTickStatus) \<Rightarrow>
   podFaultTickStatus list" where
  "change_tick es k f =
     (let (es', i) = upsertPodFaultTickStatus es (fst k) (snd k) in es'[i := f (es' ! i)])"

lemma tick_index_Some:
  "tick_index a t es = Some i \<Longrightarrow> i < length es \<and> tick_key (es ! i) = (a, t)
     \<and> (\<forall>j < i. tick_key (es ! j) \<noteq> (a, t))"
proof (induction es arbitrary: i)
  case (Cons e es)
  show ?case
  proof (cases "tick_matches a t e")
    case True
    then show ?thesis using Cons.prems by (simp add: tick_matches_def tick_key_def)
  next
    case False
    then obtain i' where i': "i = Suc i'" "tick_index a t es = Some i'" using Cons.prems by auto
    have "tick_key ((e # es) ! j) \<noteq> (a, t)" if "j < Suc i'" for j
      using that False Cons.IH [OF i'(2)] by (cases j) (auto simp: tick_matches_def tick_key_def)
    then show ?thesis using i' Cons.IH [OF i'(2)] by simp
  qed
qed simp

lemma tick_index_None: "tick_index a t es = None \<longleftrightarrow> (a, t) \<notin> tick_key ` set es"
  by (induction es) (auto simp: tick_matches_def tick_key_def)

lemma tick_index_first:
  "i < length es \<Longrightarrow> tick_key (es ! i) = (a, t) \<Longrightarrow> \<forall>j < i. tick_key (es ! j) \<noteq> (a, t) \<Longrightarrow>
   tick_index a t es = Some i"
proof (induction es arbitrary: i)
  case (Cons e es)
  show ?case
  proof (cases i)
    case (Suc i')
    have "\<forall>j < i'. tick_key (es ! j) \<noteq> (a, t)" using Cons.prems(3) Suc by auto
    moreover have "\<not> tick_matches a t e"
      using Cons.prems(3) Suc by (auto simp: tick_matches_def tick_key_def)
    ultimately show ?thesis using Cons Suc by simp
  qed (use Cons.prems in \<open>simp add: tick_matches_def tick_key_def\<close>)
qed simp

lemma tick_index_update:
  "i < length es \<Longrightarrow> tick_key e' = tick_key (es ! i) \<Longrightarrow> tick_index a t (es[i := e']) = tick_index a t es"
proof (induction es arbitrary: i)
  case (Cons e es)
  then show ?case by (cases i) (auto simp: tick_matches_def tick_key_def)
qed simp

lemma tick_index_append:
  "tick_index a t (es @ [e]) =
     (case tick_index a t es of Some i \<Rightarrow> Some i
      | None \<Rightarrow> if tick_matches a t e then Some (length es) else None)"
  by (induction es) (auto split: option.split)

lemma map_update_same: "i < length xs \<Longrightarrow> f y = f (xs ! i) \<Longrightarrow> map f (xs[i := y]) = map f xs"
  by (metis list_update_id map_update)

definition keeps_key :: "(podFaultTickStatus \<Rightarrow> podFaultTickStatus) \<Rightarrow> bool" where
  "keeps_key f \<longleftrightarrow> (\<forall>e. tick_key (f e) = tick_key e)"

interpretation ticks: keyed_table "\<lambda>es k. findPodFaultTickStatus es (fst k) (snd k)" change_tick
    "\<lambda>k. new_tick (fst k) (snd k)" keeps_key ticks_distinct
proof unfold_locales
  fix f es k j
  assume f: "keeps_key f"
  show "findPodFaultTickStatus (change_tick es k f) (fst j) (snd j) =
    (if j = k then Some (f (case findPodFaultTickStatus es (fst k) (snd k) of
         Some e \<Rightarrow> e | None \<Rightarrow> new_tick (fst k) (snd k)))
     else findPodFaultTickStatus es (fst j) (snd j))"
  proof (cases "tick_index (fst k) (snd k) es")
    case (Some i)
    then have i: "i < length es" "tick_key (es ! i) = k" using tick_index_Some by fastforce+
    have "tick_index (fst j) (snd j) es = Some i \<longleftrightarrow> j = k"
      using Some tick_index_Some [of "fst j" "snd j" es i] i by auto
    moreover have "tick_index (fst j) (snd j) (es[i := f (es ! i)]) = tick_index (fst j) (snd j) es"
      using f i by (intro tick_index_update) (simp_all add: keeps_key_def)
    moreover have "change_tick es k f = es[i := f (es ! i)]"
      by (simp add: change_tick_def upsertPodFaultTickStatus_def Some)
    ultimately show ?thesis
      using Some i by (cases "tick_index (fst j) (snd j) es")
        (auto simp: findPodFaultTickStatus_def nth_list_update)
  next
    case None
    have "tick_matches (fst j) (snd j) (f (new_tick (fst k) (snd k))) \<longleftrightarrow> j = k"
      using f by (auto simp: keeps_key_def tick_key_def tick_matches_def new_tick_def prod_eq_iff)
    then show ?thesis using None
      by (auto simp: change_tick_def upsertPodFaultTickStatus_def findPodFaultTickStatus_def
          tick_index_append nth_append dest: tick_index_Some split: option.split)
  qed
next
  fix f es k
  assume f: "keeps_key f" and d: "ticks_distinct es"
  show "ticks_distinct (change_tick es k f)"
  proof (cases "tick_index (fst k) (snd k) es")
    case (Some i)
    then show ?thesis using f d tick_index_Some [OF Some]
      by (simp add: change_tick_def upsertPodFaultTickStatus_def ticks_distinct_def keeps_key_def
          map_update_same)
  next
    case None
    then have "k \<notin> tick_key ` set es" by (simp add: tick_index_None)
    moreover have "tick_key (f (new_tick (fst k) (snd k))) = k"
      using f by (simp add: keeps_key_def tick_key_def new_tick_def)
    ultimately show ?thesis using None d
      by (simp add: change_tick_def upsertPodFaultTickStatus_def ticks_distinct_def)
  qed
next
  show "keeps_key f \<Longrightarrow> keeps_key g \<Longrightarrow> keeps_key (g \<circ> f)" for f g
    by (simp add: keeps_key_def)
qed

section \<open>The two writes\<close>

definition plan_tick :: "podFaultPlan \<Rightarrow> time \<Rightarrow> podFaultTickStatus \<Rightarrow> podFaultTickStatus" where
  "plan_tick p now e = e\<lparr>tkPlannedAt := Some now, tkPlannedPods := plPodNames p,
     tkJobName := plJobName p, tkState := PodFaultStatePlanned, tkMessage := []\<rparr>"

definition finish_tick ::
  "podFaultPlan \<Rightarrow> time \<Rightarrow> bool \<Rightarrow> string \<Rightarrow> podFaultTickStatus \<Rightarrow> podFaultTickStatus" where
  "finish_tick p now succeeded msg e = e\<lparr>
     tkPlannedPods := (if tkPlannedPods e = [] \<and> plPodNames p \<noteq> [] then plPodNames p else tkPlannedPods e),
     tkJobName := plJobName p, tkExecutedAt := Some now,
     tkState := (if succeeded then PodFaultStateSucceeded else PodFaultStateFailed), tkMessage := msg\<rparr>"

definition plan_key :: "podFaultPlan \<Rightarrow> string \<times> string" where
  "plan_key p = (plActionName p, plTickID p)"

abbreviation find_tick :: "podFaultTickStatus list \<Rightarrow> string \<times> string \<Rightarrow> podFaultTickStatus option" where
  "find_tick es k \<equiv> findPodFaultTickStatus es (fst k) (snd k)"

lemma keeps_key_writes [simp]:
  "keeps_key (plan_tick p now)" "keeps_key (finish_tick p now b msg)"
  by (simp_all add: keeps_key_def tick_key_def plan_tick_def finish_tick_def)

lemma tick_finished_finish [simp]: "tick_finished (finish_tick p now b msg e)"
  by (simp add: tick_finished_def finish_tick_def)

lemma not_finished_new [simp]: "\<not> tick_finished (new_tick a t)"
  by (simp add: tick_finished_def new_tick_def)

lemma executed_status_eq:
  "executed_status p now b msg st =
     st\<lparr>stPodFaults := change_tick (stPodFaults st) (plan_key p) (finish_tick p now b msg)\<rparr>"
  by (simp add: executed_status_def change_tick_def finish_tick_def plan_key_def Let_def
      split: prod.split)

lemma upsert_entry:
  "upsertPodFaultTickStatus es a t = (es', i) \<Longrightarrow>
   es' ! i = (case findPodFaultTickStatus es a t of Some e \<Rightarrow> e | None \<Rightarrow> new_tick a t)"
  by (auto simp: upsertPodFaultTickStatus_def findPodFaultTickStatus_def nth_append
      split: option.splits)

lemma planned_status_eq:
  "planned_status p now st =
     (if (\<exists>e. find_tick (stPodFaults st) (plan_key p) = Some e \<and> tick_finished e) then None
      else Some (st\<lparr>stPodFaults := change_tick (stPodFaults st) (plan_key p) (plan_tick p now)\<rparr>))"
proof -
  obtain es' i where u: "upsertPodFaultTickStatus (stPodFaults st) (plActionName p) (plTickID p) = (es', i)"
    by fastforce
  show ?thesis using upsert_entry [OF u] u
    by (auto simp: planned_status_def change_tick_def plan_tick_def plan_key_def Let_def
        split: option.splits)
qed

lemma find_tick_set: "find_tick es k = Some e \<Longrightarrow> e \<in> set es \<and> tick_key e = k"
  using tick_index_Some [of "fst k" "snd k" es] by (auto simp: findPodFaultTickStatus_def)

lemma find_tick_distinct:
  "ticks_distinct es \<Longrightarrow> e \<in> set es \<Longrightarrow> find_tick es (tick_key e) = Some e"
proof -
  assume d: "ticks_distinct es" and e: "e \<in> set es"
  then obtain i where i: "tick_index (fst (tick_key e)) (snd (tick_key e)) es = Some i"
    using tick_index_None [of "fst (tick_key e)" "snd (tick_key e)" es] by fastforce
  have "tick_key (es ! i) = tick_key e" "es ! i \<in> set es" using tick_index_Some [OF i] by auto
  then have "es ! i = e" using d e by (auto simp: ticks_distinct_def distinct_map dest: inj_onD)
  then show ?thesis using i by (simp add: findPodFaultTickStatus_def)
qed

lemma already_executed_find:
  "ticks_distinct es \<Longrightarrow> podFaultTickAlreadyExecuted es a t \<longleftrightarrow>
     (\<exists>e. findPodFaultTickStatus es a t = Some e \<and> tick_finished e)"
proof -
  assume d: "ticks_distinct es"
  have m: "tick_matches a t e \<longleftrightarrow> tick_key e = (a, t)" for e
    by (simp add: tick_matches_def tick_key_def)
  show ?thesis
  proof
    assume "podFaultTickAlreadyExecuted es a t"
    then obtain e where "e \<in> set es" "tick_key e = (a, t)" "tick_finished e"
      by (auto simp: podFaultTickAlreadyExecuted_def m)
    then show "\<exists>e. findPodFaultTickStatus es a t = Some e \<and> tick_finished e"
      using find_tick_distinct [OF d] by (metis fst_conv snd_conv)
  next
    assume "\<exists>e. findPodFaultTickStatus es a t = Some e \<and> tick_finished e"
    then obtain e where "findPodFaultTickStatus es a t = Some e" "tick_finished e" by blast
    then show "podFaultTickAlreadyExecuted es a t"
      using find_tick_set [of es "(a, t)" e] by (auto simp: podFaultTickAlreadyExecuted_def m)
  qed
qed

section \<open>What is planned\<close>

text \<open>The plan of an action at a time: its tick, its names, its caps.\<close>

definition plan_of :: "faultInjection \<Rightarrow> time \<Rightarrow> time \<Rightarrow> podFaultAction \<Rightarrow> podFaultPlan \<Rightarrow> bool" where
  "plan_of fi now startedAt a p \<longleftrightarrow>
     validatePodFaultSelection a = None
     \<and> (if resolvePodFaultMode a = ExecutionModeWindowed
        then (\<exists>due. computeWindowedTick a now startedAt = Inr (plTickID p, plDueAt p, True, due))
        else plTickID p = ''oneshot'' \<and> plDueAt p = None)
     \<and> plan_for fi a (capEffectiveMaxPods fi a (resolvePodFaultMode a)) (plTickID p) (plDueAt p) = Some p"

text \<open>An action whose next tick is still to come, and an action that cannot be planned, with the reason.\<close>

definition not_due :: "faultInjection \<Rightarrow> time \<Rightarrow> time \<Rightarrow> podFaultAction \<Rightarrow> bool" where
  "not_due fi now startedAt a \<longleftrightarrow>
     validatePodFaultSelection a = None \<and> resolvePodFaultMode a = ExecutionModeWindowed
     \<and> (\<exists>t d due. computeWindowedTick a now startedAt = Inr (t, d, False, due))"

definition plan_error :: "faultInjection \<Rightarrow> time \<Rightarrow> time \<Rightarrow> podFaultAction \<Rightarrow> goerr \<Rightarrow> bool" where
  "plan_error fi now startedAt a e \<longleftrightarrow>
     (case validatePodFaultSelection a of
        Some e' \<Rightarrow> e = e'
      | None \<Rightarrow>
          if resolvePodFaultMode a = ExecutionModeWindowed
          then (case computeWindowedTick a now startedAt of
                  Inl e' \<Rightarrow> e = e'
                | Inr (t, d, b, due) \<Rightarrow> b \<and> podFaultNames fi (paName a) t = None \<and> e = EPanic)
          else podFaultNames fi (paName a) ''oneshot'' = None \<and> e = EPanic)"

text \<open>The plans of a list of actions: in their order, one of each that is due.\<close>

inductive each_planned :: "faultInjection \<Rightarrow> time \<Rightarrow> time \<Rightarrow> podFaultAction list \<Rightarrow> podFaultPlan list \<Rightarrow> bool"
  for fi now startedAt where
  none: "each_planned fi now startedAt [] []"
| plan: "plan_of fi now startedAt a p \<Longrightarrow> each_planned fi now startedAt as ps \<Longrightarrow>
    each_planned fi now startedAt (a # as) (p # ps)"
| wait: "not_due fi now startedAt a \<Longrightarrow> each_planned fi now startedAt as ps \<Longrightarrow>
    each_planned fi now startedAt (a # as) ps"

lemma each_planned_mem:
  "each_planned fi now startedAt as ps \<Longrightarrow> p \<in> set ps \<Longrightarrow> \<exists>a \<in> set as. plan_of fi now startedAt a p"
  by (induction rule: each_planned.induct) auto

text \<open>The first tick to come of an action, and the first of a list of actions.\<close>

definition next_tick :: "time \<Rightarrow> time \<Rightarrow> podFaultAction \<Rightarrow> time option" where
  "next_tick now startedAt a =
     (if resolvePodFaultMode a = ExecutionModeWindowed
      then (case computeWindowedTick a now startedAt of Inl _ \<Rightarrow> None | Inr (t, d, b, due) \<Rightarrow> due)
      else None)"

definition first_of :: "time option list \<Rightarrow> time option \<Rightarrow> bool" where
  "first_of ts due \<longleftrightarrow>
     (case due of
        None \<Rightarrow> list_all (\<lambda>t. t = None) ts
      | Some d \<Rightarrow> due \<in> set ts \<and> list_all (\<lambda>t. case t of None \<Rightarrow> True | Some d' \<Rightarrow> d \<le> d') ts)"

lemma first_of_update: "first_of ts due \<Longrightarrow> first_of (ts @ [t]) (updateEarliestDue due t)"
  by (cases due; cases t) (auto simp: first_of_def updateEarliestDue_def list_all_iff split: option.splits)

lemma plan_for_tick: "plan_for fi a m t d = Some p \<Longrightarrow> plTickID p = t \<and> plDueAt p = d"
  by (auto simp: plan_for_def)

lemma plan_step_ok:
  assumes "plan_step fi now startedAt a due = Inr (ps, due')"
  shows "(\<exists>p. ps = [p] \<and> plan_of fi now startedAt a p) \<or> ps = [] \<and> not_due fi now startedAt a"
    and "due' = updateEarliestDue due (next_tick now startedAt a)"
proof -
  have none: "updateEarliestDue due None = due" by (simp add: updateEarliestDue_def)
  show "(\<exists>p. ps = [p] \<and> plan_of fi now startedAt a p) \<or> ps = [] \<and> not_due fi now startedAt a"
    using assms unfolding plan_step_def plan_of_def not_due_def Let_def
    by (auto split: option.split_asm sum.split_asm if_split_asm prod.split_asm) (frule plan_for_tick, simp)+
  show "due' = updateEarliestDue due (next_tick now startedAt a)"
    using assms none unfolding plan_step_def next_tick_def Let_def
    by (auto split: option.split_asm sum.split_asm if_split_asm prod.split_asm)
qed

lemma plan_step_error: "plan_step fi now startedAt a due = Inl (e, due') \<Longrightarrow> plan_error fi now startedAt a e"
  by (auto simp: plan_step_def plan_error_def plan_for_def Let_def split: option.splits sum.splits if_splits)

lemma plan_loop_sound:
  "plan_loop fi now startedAt as ps due = (ps', due', None) \<Longrightarrow> first_of ts due \<Longrightarrow>
   (\<exists>new. ps' = ps @ new \<and> each_planned fi now startedAt as new)
     \<and> first_of (ts @ map (next_tick now startedAt) as) due'"
proof (induction as arbitrary: ps due ts)
  case (Cons a as)
  then obtain q due1 where q: "plan_step fi now startedAt a due = Inr (q, due1)"
    and l: "plan_loop fi now startedAt as (ps @ q) due1 = (ps', due', None)"
    by (auto split: sum.splits)
  have "first_of (ts @ [next_tick now startedAt a]) due1"
    using first_of_update [OF Cons.prems(2)] plan_step_ok(2) [OF q] by simp
  from Cons.IH [OF l this] obtain new where new: "ps' = (ps @ q) @ new" "each_planned fi now startedAt as new"
      "first_of (ts @ map (next_tick now startedAt) (a # as)) due'"
    by auto
  then show ?case using plan_step_ok(1) [OF q] by (auto intro: each_planned.intros)
qed (simp add: each_planned.none)

lemma plan_loop_error:
  "plan_loop fi now startedAt as ps due = (ps', due', Some e) \<Longrightarrow>
   ps' = [] \<and> (\<exists>before a after new. as = before @ a # after
     \<and> each_planned fi now startedAt before new \<and> plan_error fi now startedAt a e)"
proof (induction as arbitrary: ps due)
  case (Cons a as)
  show ?case
  proof (cases "plan_step fi now startedAt a due")
    case (Inl x)
    then have "ps' = []" "plan_error fi now startedAt a e"
      using Cons.prems plan_step_error [of fi now startedAt a due e] by (auto split: prod.splits)
    then show ?thesis by (metis append_Nil each_planned.none)
  next
    case (Inr x)
    then obtain q due1 where q: "plan_step fi now startedAt a due = Inr (q, due1)" by (cases x) auto
    then have "plan_loop fi now startedAt as (ps @ q) due1 = (ps', due', Some e)" using Cons.prems by simp
    from Cons.IH [OF this] obtain before a' rest new where
      l: "ps' = []" "as = before @ a' # rest" "each_planned fi now startedAt before new" "plan_error fi now startedAt a' e"
      by blast
    have "\<exists>new'. each_planned fi now startedAt (a # before) new'"
      using plan_step_ok(1) [OF q] l(3) by (blast intro: each_planned.intros)
    then show ?thesis using l by (metis append_Cons)
  qed
qed simp

lemma plans_sound:
  assumes "buildPodFaultPlans fi now startedAt = (ps, due, err)" "p \<in> set ps"
  shows "\<exists>a \<in> set (podFaults fi). plan_of fi now startedAt a p"
proof (cases err)
  case None
  have "first_of [] None" by (simp add: first_of_def)
  then show ?thesis
    using assms None plan_loop_sound [of fi now startedAt "podFaults fi" "[]" None ps due "[]"] each_planned_mem
    by (auto simp: buildPodFaultPlans_def)
next
  case (Some e)
  then show ?thesis
    using assms plan_loop_error [of fi now startedAt "podFaults fi" "[]" None ps due e]
    by (simp add: buildPodFaultPlans_def)
qed

lemma plan_for_fields:
  assumes "plan_for fi a m t d = Some p"
  shows "plActionName p = paName a \<and> plTickID p = t \<and> plNamespace p = resolvePodFaultTargetNS fi a
      \<and> plSelectorLabels p = lsMatchLabels (ptSelector (paTarget a))
      \<and> plTerminationMode p = trMode (paTermination a)
      \<and> plGracePeriodSecs p = trGracePeriodSeconds (paTermination a)
      \<and> plSelectionCount p = psCount (paSelection a)
      \<and> plSelectionPercent p = psPercent (paSelection a)
      \<and> plMaxPodsAffectedEffective p = m
      \<and> plRefuseIfPodsLessThan p = pgRefuseIfPodsLessThan (paGuardrails a)
      \<and> podFaultNames fi (paName a) t = Some (plJobName p, plLeaseName p)"
  using assms by (auto simp: plan_for_def)

lemma plan_of_fields:
  assumes "plan_of fi now startedAt a p"
  shows "plActionName p = paName a" "plNamespace p = resolvePodFaultTargetNS fi a"
    and "plSelectorLabels p = lsMatchLabels (ptSelector (paTarget a))"
    and "plTerminationMode p = trMode (paTermination a)"
    and "plGracePeriodSecs p = trGracePeriodSeconds (paTermination a)"
    and "plSelectionCount p = psCount (paSelection a)"
    and "plSelectionPercent p = psPercent (paSelection a)"
    and "plMaxPodsAffectedEffective p = capEffectiveMaxPods fi a (resolvePodFaultMode a)"
    and "plRefuseIfPodsLessThan p = pgRefuseIfPodsLessThan (paGuardrails a)"
    and "podFaultNames fi (plActionName p) (plTickID p) = Some (plJobName p, plLeaseName p)"
  using plan_for_fields [of fi a _ "plTickID p" "plDueAt p" p] assms
  unfolding plan_of_def by auto

end
