(* ===== verification/PodOps.thy ===== *)
theory PodOps
  imports PodPlan
begin

text \<open>
  The effectful part of the pod faults: the lease and job operations, the status records and
  \<open>applyPodFaults\<close> of \<open>src/internal/controller/pod_fault.go\<close>, \<open>countPods\<close> of
  \<open>faultinjection_controller.go\<close> and \<open>setFIStatusPhaseMessage\<close> of \<open>helpers.go\<close>. A panic is the
  error \<open>EPanic\<close>; it unwinds, so no event is emitted after it.
\<close>

section \<open>Status updates\<close>

text \<open>
  The closure most callers give to \<open>RetryOnConflict\<close>: read the object again, edit its status,
  write the status; an edit may decide that there is nothing to write.
\<close>

definition edit_status ::
  "'w reconciler \<Rightarrow> string \<Rightarrow> string \<Rightarrow> (faultInjectionStatus \<Rightarrow> faultInjectionStatus option) \<Rightarrow>
   unit \<Rightarrow> ('w, goerr option \<times> unit) eff" where
  "edit_status r ns n edit u = do {
     g \<leftarrow> getFI r ns n;
     (case g of
        Inl e \<Rightarrow> State_Monad.return (Some (EApi e), u)
      | Inr latest \<Rightarrow>
          (case edit (fiStatus latest) of
             None \<Rightarrow> State_Monad.return (None, u)
           | Some st \<Rightarrow> do {
               x \<leftarrow> statusUpdateFI r (latest\<lparr>fiStatus := st\<rparr>);
               State_Monad.return (map_option EApi x, u)
             }))
   }"

definition update_status ::
  "'w reconciler \<Rightarrow> string \<Rightarrow> string \<Rightarrow> (faultInjectionStatus \<Rightarrow> faultInjectionStatus option) \<Rightarrow>
   ('w, goerr option) eff" where
  "update_status r ns n edit = do {
     (e, _) \<leftarrow> retry_on_conflict (rcRetries r) (edit_status r ns n edit) ();
     State_Monad.return e
   }"

definition setFIStatusPhaseMessage ::
  "'w reconciler \<Rightarrow> faultInjection \<Rightarrow> string \<Rightarrow> message \<Rightarrow> ('w, goerr option) eff" where
  "setFIStatusPhaseMessage r fi phase msg =
     update_status r (fiNamespace fi) (fiName fi) (\<lambda>st. Some (st\<lparr>stPhase := phase, stMessage := msg\<rparr>))"

definition recordPodFaultPlanned ::
  "'w reconciler \<Rightarrow> faultInjection \<Rightarrow> podFaultPlan \<Rightarrow> time \<Rightarrow> ('w, goerr option) eff" where
  "recordPodFaultPlanned r fi p now =
     update_status r (fiNamespace fi) (fiName fi) (planned_status p now)"

definition recordPodFaultExecuted ::
  "'w reconciler \<Rightarrow> faultInjection \<Rightarrow> podFaultPlan \<Rightarrow> time \<Rightarrow> bool \<Rightarrow> string \<Rightarrow> ('w, goerr option) eff" where
  "recordPodFaultExecuted r fi p now succeeded msg =
     update_status r (fiNamespace fi) (fiName fi) (\<lambda>st. Some (executed_status p now succeeded msg st))"

section \<open>Pods\<close>

definition countPods ::
  "'w reconciler \<Rightarrow> string \<Rightarrow> string gomap \<Rightarrow> ('w, goerr + int) eff" where
  "countPods r ns match = do {
     l \<leftarrow> listPods r ns match;
     (case l of
        Inl e \<Rightarrow> State_Monad.return (Inl (EApi e))
      | Inr pods \<Rightarrow> State_Monad.return (Inr (int (length pods))))
   }"

definition listCandidatePods ::
  "'w reconciler \<Rightarrow> string \<Rightarrow> string gomap \<Rightarrow> ('w, goerr + podObj list) eff" where
  "listCandidatePods r namespace matchLabels = do {
     l \<leftarrow> listPods r namespace matchLabels;
     (case l of
        Inl e \<Rightarrow> State_Monad.return (Inl (EApi e))
      | Inr pods \<Rightarrow> State_Monad.return (Inr (candidate_pods pods)))
   }"

section \<open>The lease\<close>

definition lastTime :: "leaseObj \<Rightarrow> time" where
  "lastTime l =
     (case leRenewTime l of
        Some t \<Rightarrow> t
      | None \<Rightarrow> (case leAcquireTime l of Some t \<Rightarrow> t | None \<Rightarrow> zero_time))"

definition leaseDuration :: "leaseObj \<Rightarrow> int" where
  "leaseDuration l =
     (case leLeaseDurationSeconds l of
        Some d \<Rightarrow> if d > 0 then d else defaultPodFaultLeaseDurationSeconds
      | None \<Rightarrow> defaultPodFaultLeaseDurationSeconds)"

definition stale_after :: "int \<Rightarrow> int" where
  "stale_after durSec =
     (let dur = to_i64 (durSec * second);
          skew = min defaultPodFaultLeaseSafetySkew dur
      in to_i64 (dur + skew))"

definition isStaleAt :: "time \<Rightarrow> int \<Rightarrow> time \<Rightarrow> bool" where
  "isStaleAt lastT durSec now \<longleftrightarrow> lastT = zero_time \<or> now > lastT + stale_after durSec"

definition lease_stale :: "leaseObj \<Rightarrow> time \<Rightarrow> bool" where
  "lease_stale l now \<longleftrightarrow> isStaleAt (lastTime l) (leaseDuration l) now"

text \<open>The reason, with the values the text of a busy lease is built from.\<close>

datatype leaseReason = Reason string | HeldBy string time int

definition lease_holder :: "'w reconciler \<Rightarrow> string" where
  "lease_holder r =
     (let holder = TrimSpace (rcHolderIdentity r) in if holder = [] then ''fi-operator'' else holder)"

text \<open>The lease a first acquisition creates, before its owner reference is set.\<close>

definition new_lease ::
  "faultInjection \<Rightarrow> podFaultPlan \<Rightarrow> string \<Rightarrow> string \<Rightarrow> time \<Rightarrow> leaseObj option" where
  "new_lease fi p leaseNS holder now =
     (case (safeLabelValue (plActionName p), safeLabelValue (plTickID p), safeLabelValue holder) of
        (Some a, Some t, Some h) \<Rightarrow>
          Some \<lparr>leMeta = new_meta leaseNS (plLeaseName p)
                 [(''chaos.sghaida.io/fi'', fiName fi),
                  (''chaos.sghaida.io/fi-uid'', fiUID fi),
                  (''chaos.sghaida.io/kind'', ''podfault''),
                  (''chaos.sghaida.io/action'', a),
                  (''chaos.sghaida.io/tick'', t),
                  (''chaos.sghaida.io/holder'', h)]
                 [(''chaos.sghaida.io/fi-name'', fiName fi),
                  (''chaos.sghaida.io/fi-action'', plActionName p)],
               leHolderIdentity = Some holder,
               leAcquireTime = Some now,
               leRenewTime = Some now,
               leLeaseDurationSeconds = Some defaultPodFaultLeaseDurationSeconds\<rparr>
      | _ \<Rightarrow> None)"

text \<open>The stale lease with the new holder.\<close>

definition take_lease ::
  "faultInjection \<Rightarrow> podFaultPlan \<Rightarrow> string \<Rightarrow> time \<Rightarrow> leaseObj \<Rightarrow> leaseObj option" where
  "take_lease fi p holder now latest =
     (case (fiShortID fi, safeLabelValue (plActionName p), safeLabelValue (plTickID p),
            safeLabelValue holder) of
        (Some s, Some a, Some t, Some h) \<Rightarrow>
          (let ls = oLabels (leMeta latest);
               ls = mput ''chaos.sghaida.io/fi'' (fiName fi) ls;
               ls = mput ''chaos.sghaida.io/fi-uid'' (fiUID fi) ls;
               ls = mput ''chaos.sghaida.io/fi-short'' s ls;
               ls = mput ''chaos.sghaida.io/kind'' ''podfault'' ls;
               ls = mput ''chaos.sghaida.io/action'' a ls;
               ls = mput ''chaos.sghaida.io/tick'' t ls;
               ls = mput ''chaos.sghaida.io/holder'' h ls
           in Some (latest\<lparr>
                leMeta := (leMeta latest)\<lparr>oLabels := ls\<rparr>,
                leHolderIdentity := Some holder,
                leRenewTime := Some now,
                leAcquireTime := Some now,
                leLeaseDurationSeconds :=
                  (case leLeaseDurationSeconds latest of
                     Some d \<Rightarrow> if d \<le> 0 then Some defaultPodFaultLeaseDurationSeconds else Some d
                   | None \<Rightarrow> Some defaultPodFaultLeaseDurationSeconds)\<rparr>))
      | _ \<Rightarrow> None)"

definition takeover_attempt ::
  "'w reconciler \<Rightarrow> faultInjection \<Rightarrow> podFaultPlan \<Rightarrow> string \<Rightarrow> string \<Rightarrow> time \<Rightarrow>
   unit \<Rightarrow> ('w, goerr option \<times> unit) eff" where
  "takeover_attempt r fi p leaseNS holder now u = do {
     g \<leftarrow> getLease r leaseNS (plLeaseName p);
     (case g of
        Inl e \<Rightarrow> State_Monad.return (Some (EApi e), u)
      | Inr latest \<Rightarrow>
          if \<not> lease_stale latest now then State_Monad.return (Some ELeaseNoLongerStale, u)
          else (case take_lease fi p holder now latest of
              None \<Rightarrow> State_Monad.return (Some EPanic, u)
            | Some l \<Rightarrow> do {
                x \<leftarrow> updateLease r l;
                State_Monad.return (map_option EApi x, u)
              }))
   }"

definition create_lease ::
  "'w reconciler \<Rightarrow> faultInjection \<Rightarrow> podFaultPlan \<Rightarrow> string \<Rightarrow> string \<Rightarrow> time \<Rightarrow>
   ('w, bool \<times> leaseReason \<times> goerr option) eff" where
  "create_lease r fi p leaseNS holder now =
     (case new_lease fi p leaseNS holder now of
        None \<Rightarrow> State_Monad.return (False, Reason [], Some EPanic)
      | Some lease \<Rightarrow>
          (let lease = (if rcScheme r
                 then (case rcSetControllerReference r (fiMeta fi) (leMeta lease) of
                         Inl _ \<Rightarrow> lease | Inr m \<Rightarrow> lease\<lparr>leMeta := m\<rparr>)
                 else lease)
           in do {
             c \<leftarrow> createLease r lease;
             State_Monad.return
               (case c of
                  Some AlreadyExists \<Rightarrow> (False, Reason ''created by another reconciler'', None)
                | Some e \<Rightarrow> (False, Reason ''create failed'', Some (EApi e))
                | None \<Rightarrow> (True, Reason ''created'', None))
           }))"

definition takeover_lease ::
  "'w reconciler \<Rightarrow> faultInjection \<Rightarrow> podFaultPlan \<Rightarrow> string \<Rightarrow> string \<Rightarrow> time \<Rightarrow>
   ('w, bool \<times> leaseReason \<times> goerr option) eff" where
  "takeover_lease r fi p leaseNS holder now = do {
     (e, _) \<leftarrow> retry_on_conflict (rcRetries r) (takeover_attempt r fi p leaseNS holder now) ();
     (case e of
        Some err \<Rightarrow>
          State_Monad.return
            (if err = ELeaseNoLongerStale
             then (False, Reason ''lease no longer stale (renewed by another holder)'', None)
             else (False, Reason ''takeover update failed'', Some err))
      | None \<Rightarrow> do {
          c \<leftarrow> getLease r leaseNS (plLeaseName p);
          State_Monad.return
            (case c of
               Inl err \<Rightarrow> (False, Reason ''confirm get failed'', Some (EApi err))
             | Inr confirm \<Rightarrow>
                 if leHolderIdentity confirm \<noteq> Some holder
                 then (False, Reason ''takeover lost to another holder'', None)
                 else (True, Reason ''taken over (stale)'', None))
        })
   }"

definition tryAcquireOrTakeoverLease ::
  "'w reconciler \<Rightarrow> faultInjection \<Rightarrow> podFaultPlan \<Rightarrow> time \<Rightarrow>
   ('w, bool \<times> leaseReason \<times> goerr option) eff" where
  "tryAcquireOrTakeoverLease r fi p now =
     (let holder = lease_holder r;
          leaseNS = (if TrimSpace (plNamespace p) = [] then fiNamespace fi else plNamespace p)
      in do {
        g \<leftarrow> getLease r leaseNS (plLeaseName p);
        (case g of
           Inl e \<Rightarrow>
             if e \<noteq> NotFound then State_Monad.return (False, Reason ''get failed'', Some (EApi e))
             else create_lease r fi p leaseNS holder now
         | Inr lease \<Rightarrow>
             if \<not> lease_stale lease now
             then State_Monad.return
               (False,
                HeldBy (case leHolderIdentity lease of Some c \<Rightarrow> c | None \<Rightarrow> []) (lastTime lease)
                  (stale_after (leaseDuration lease)),
                None)
             else takeover_lease r fi p leaseNS holder now)
      })"

section \<open>The executor job\<close>

definition job_args :: "podFaultPlan \<Rightarrow> string list" where
  "job_args p =
     [''delete'', ''pod''] @ plPodNames p
     @ [''-n'', plNamespace p, ''--wait=false'', ''--ignore-not-found=true'']
     @ (if plTerminationMode p = PodTerminationModeForceful
        then [''--grace-period=0'', ''--force'']
        else [''--grace-period='' @ show_int (plGracePeriodSecs p)])"

definition podfault_job :: "faultInjection \<Rightarrow> podFaultPlan \<Rightarrow> jobObj option" where
  "podfault_job fi p =
     (case (safeLabelValue (plActionName p), safeLabelValue (plTickID p)) of
        (Some a, Some t) \<Rightarrow>
          (let labels =
                 [(''chaos.sghaida.io/fi'', fiName fi),
                  (''chaos.sghaida.io/fi-uid'', fiUID fi),
                  (''chaos.sghaida.io/kind'', ''podfault''),
                  (''chaos.sghaida.io/action'', a),
                  (''chaos.sghaida.io/tick'', t)]
           in Some
             \<lparr>jbMeta = new_meta (plNamespace p) (plJobName p) labels
                [(''chaos.sghaida.io/fi-name'', fiName fi)],
              jbBackoffLimit = defaultPodFaultJobBackoffLimit,
              jbActiveDeadlineSeconds = defaultPodFaultJobActiveDeadlineSeconds,
              jbTTLSecondsAfterFinished = defaultPodFaultJobTTLSecondsAfterFinished,
              jbTemplateLabels = labels,
              jbTemplateAnnotations =
                [(''chaos.sghaida.io/fi-name'', fiName fi),
                 (''chaos.sghaida.io/fi-action'', plActionName p),
                 (''chaos.sghaida.io/tick-id'', plTickID p),
                 (''chaos.sghaida.io/target-namespace'', plNamespace p)],
              jbRestartPolicy = ''Never'',
              jbServiceAccountName = ''fi-podfault-executor'',
              jbContainerName = ''executor'',
              jbImage = ''registry.k8s.io/kubectl:v1.29.0'',
              jbImagePullPolicy = ''IfNotPresent'',
              jbCommand = [''kubectl''],
              jbArgs = job_args p,
              jbEnv =
                [(''FI_NAME'', fiName fi),
                 (''ACTION_NAME'', plActionName p),
                 (''TICK_ID'', plTickID p),
                 (''TARGET_NAMESPACE'', plNamespace p),
                 (''POD_NAMES_CSV'', join '','' (plPodNames p)),
                 (''TERMINATION_MODE'', plTerminationMode p),
                 (''GRACE_PERIOD_SECONDS'', show_int (plGracePeriodSecs p))],
              jbConditions = [],
              jbCompletionTime = None,
              jbSucceeded = 0,
              jbFailed = 0\<rparr>)
      | _ \<Rightarrow> None)"

definition createPodFaultJobIfNotExists ::
  "'w reconciler \<Rightarrow> faultInjection \<Rightarrow> podFaultPlan \<Rightarrow> ('w, goerr option) eff" where
  "createPodFaultJobIfNotExists r fi p = do {
     g \<leftarrow> getJob r (plNamespace p) (plJobName p);
     (case g of
        Inr existing \<Rightarrow> State_Monad.return None
      | Inl e \<Rightarrow>
          if e \<noteq> NotFound then State_Monad.return (Some (EApi e))
          else (case podfault_job fi p of
              None \<Rightarrow> State_Monad.return (Some EPanic)
            | Some job \<Rightarrow>
                (case (if rcScheme r then rcSetControllerReference r (fiMeta fi) (jbMeta job)
                       else Inr (jbMeta job)) of
                   Inl e \<Rightarrow> State_Monad.return (Some (EApi e))
                 | Inr m \<Rightarrow> do {
                     c \<leftarrow> createJob r (job\<lparr>jbMeta := m\<rparr>);
                     State_Monad.return (map_option EApi c)
                   })))
   }"

section \<open>applyPodFaults\<close>

text \<open>
  The body of the loop over the plans ends in a \<open>return\<close> of stop and error (\<open>Inl\<close>), or goes on to
  the next plan, having set \<open>pending\<close> or not (\<open>Inr\<close>).
\<close>

type_synonym pod_step = "bool \<times> goerr option + bool"

definition delete_failed :: "apiError option \<Rightarrow> bool" where
  "delete_failed x \<longleftrightarrow> x \<noteq> None \<and> x \<noteq> Some NotFound"

definition unless_panic :: "goerr \<Rightarrow> ('w, unit) eff \<Rightarrow> ('w, unit) eff" where
  "unless_panic e m = (if e = EPanic then State_Monad.return () else m)"

definition job_complete_step ::
  "'w reconciler \<Rightarrow> faultInjection \<Rightarrow> podFaultPlan \<Rightarrow> time \<Rightarrow> jobObj \<Rightarrow> ('w, pod_step) eff" where
  "job_complete_step r fi p now job = do {
     u \<leftarrow> recordPodFaultExecuted r fi p now True ''completed'';
     (case u of
        Some e \<Rightarrow> do {
          eventf r ''Warning'' ''PodFaultStatusUpdateFailed'' ''podfault-status'';
          State_Monad.return (Inl (False, Some e))
        }
      | None \<Rightarrow> do {
          d \<leftarrow> deleteJob r job;
          (if delete_failed d then eventf r ''Warning'' ''PodFaultJobDeleteFailed'' ''podfault-cleanup''
           else State_Monad.return ());
          eventf r ''Normal'' ''PodFaultCompleted'' ''podfault-complete'';
          State_Monad.return (Inr False)
        })
   }"

definition job_failed_step ::
  "'w reconciler \<Rightarrow> faultInjection \<Rightarrow> podFaultPlan \<Rightarrow> time \<Rightarrow> jobObj \<Rightarrow> ('w, pod_step) eff" where
  "job_failed_step r fi p now job = do {
     u \<leftarrow> recordPodFaultExecuted r fi p now False ''failed'';
     (case u of
        Some e \<Rightarrow> do {
          eventf r ''Warning'' ''PodFaultStatusUpdateFailed'' ''podfault-status'';
          State_Monad.return (Inl (False, Some e))
        }
      | None \<Rightarrow> do {
          d \<leftarrow> deleteJob r job;
          (if delete_failed d then eventf r ''Warning'' ''PodFaultJobDeleteFailed'' ''podfault-cleanup''
           else State_Monad.return ());
          v \<leftarrow> setFIStatusPhaseMessage r fi ErrorPhase
                 (MsgTickFailed (plActionName p) (plTickID p) (oNamespace (jbMeta job)) (oName (jbMeta job)));
          (case v of
             Some e \<Rightarrow> State_Monad.return (Inl (True, Some e))
           | None \<Rightarrow> do {
               eventf r ''Warning'' ''PodFaultFailed'' ''podfault-failed'';
               State_Monad.return (Inl (True, None))
             })
        })
   }"

text \<open>The end of the loop body, once the lease is held: the job.\<close>

definition start_job ::
  "'w reconciler \<Rightarrow> faultInjection \<Rightarrow> podFaultPlan \<Rightarrow> ('w, pod_step) eff" where
  "start_job r fi p = do {
     c \<leftarrow> createPodFaultJobIfNotExists r fi p;
     (case c of
        Some e \<Rightarrow> do {
          unless_panic e (eventf r ''Warning'' ''PodFaultJobCreateFailed'' ''podfault-job-create'');
          State_Monad.return (Inl (False, Some e))
        }
      | None \<Rightarrow> do {
          eventf r ''Normal'' ''PodFaultJobCreated'' ''podfault-job-create'';
          State_Monad.return (Inr True)
        })
   }"

text \<open>From the status record on, with the selected pods in the plan.\<close>

definition launch_step ::
  "'w reconciler \<Rightarrow> faultInjection \<Rightarrow> podFaultPlan \<Rightarrow> time \<Rightarrow> ('w, pod_step) eff" where
  "launch_step r fi p now = do {
     _ \<leftarrow> recordPodFaultPlanned r fi p now;
     (acquired, reason, lerr) \<leftarrow> tryAcquireOrTakeoverLease r fi p now;
     (case lerr of
        Some e \<Rightarrow> do {
          unless_panic e (eventf r ''Warning'' ''PodFaultLeaseError'' ''podfault-lease'');
          State_Monad.return (Inl (False, Some e))
        }
      | None \<Rightarrow>
          if \<not> acquired then do {
            eventf r ''Normal'' ''PodFaultLockBusy'' ''podfault-lease'';
            State_Monad.return (Inr False)
          }
          else do {
            eventf r ''Normal'' ''PodFaultLockAcquired'' ''podfault-lease'';
            start_job r fi p
          })
   }"

text \<open>No job yet: the guardrail and the selection of exact targets among the candidates.\<close>

definition select_from ::
  "'w reconciler \<Rightarrow> faultInjection \<Rightarrow> podFaultPlan \<Rightarrow> time \<Rightarrow> podObj list \<Rightarrow> ('w, pod_step) eff" where
  "select_from r fi p now candidates =
     (if to_i32 (int (length candidates)) < plRefuseIfPodsLessThan p then do {
        eventf r ''Warning'' ''PodFaultRefused'' ''podfault-select'';
        v \<leftarrow> setFIStatusPhaseMessage r fi ErrorPhase
               (MsgRefused (plActionName p) (int (length candidates)) (plRefuseIfPodsLessThan p));
        State_Monad.return (Inl (True, v))
      }
      else
        let mode = (if plSelectionCount p \<noteq> None then Some PodSelectionModeCount
                    else if plSelectionPercent p \<noteq> None then Some PodSelectionModePercent
                    else None)
        in case mode of
             None \<Rightarrow> do {
               eventf r ''Warning'' ''PodFaultInvalidPlan'' ''podfault-select'';
               State_Monad.return (Inr False)
             }
           | Some mode \<Rightarrow>
               let selected = selectPodNamesDeterministically candidates mode
                     (plSelectionCount p) (plSelectionPercent p) (plMaxPodsAffectedEffective p)
               in if selected = [] then do {
                    eventf r ''Normal'' ''PodFaultNoTargets'' ''podfault-select'';
                    State_Monad.return (Inr False)
                  }
                  else launch_step r fi (p\<lparr>plPodNames := selected\<rparr>) now)"

definition select_step ::
  "'w reconciler \<Rightarrow> faultInjection \<Rightarrow> podFaultPlan \<Rightarrow> time \<Rightarrow> ('w, pod_step) eff" where
  "select_step r fi p now = do {
     l \<leftarrow> listCandidatePods r (plNamespace p) (plSelectorLabels p);
     (case l of
        Inl e \<Rightarrow> do {
          eventf r ''Warning'' ''PodFaultPodListFailed'' ''podfault-select'';
          State_Monad.return (Inl (False, Some e))
        }
      | Inr candidates \<Rightarrow> select_from r fi p now candidates)
   }"

definition skip_plan :: "faultInjection \<Rightarrow> podFaultPlan \<Rightarrow> bool" where
  "skip_plan fi p \<longleftrightarrow>
     (plTickID p = ''oneshot''
        \<and> podFaultTickAlreadyExecuted (stPodFaults (fiStatus fi)) (plActionName p) (plTickID p))
     \<or> (case findPodFaultTickStatus (stPodFaults (fiStatus fi)) (plActionName p) (plTickID p) of
          Some cur \<Rightarrow> isTerminalTickState (tkState cur)
        | None \<Rightarrow> False)"

definition plan_body ::
  "'w reconciler \<Rightarrow> faultInjection \<Rightarrow> time \<Rightarrow> podFaultPlan \<Rightarrow> ('w, pod_step) eff" where
  "plan_body r fi now p =
     (if skip_plan fi p then State_Monad.return (Inr False)
      else do {
        g \<leftarrow> getJob r (plNamespace p) (plJobName p);
        (case g of
           Inr job \<Rightarrow>
             if isJobComplete job then job_complete_step r fi p now job
             else if isJobFailed job then job_failed_step r fi p now job
             else State_Monad.return (Inr True)
         | Inl e \<Rightarrow>
             if e \<noteq> NotFound then do {
               eventf r ''Warning'' ''PodFaultJobGetFailed'' ''podfault-job-get'';
               State_Monad.return (Inl (False, Some (EApi e)))
             }
             else select_step r fi p now)
      })"

fun plans_loop ::
  "'w reconciler \<Rightarrow> faultInjection \<Rightarrow> time \<Rightarrow> podFaultPlan list \<Rightarrow> bool \<Rightarrow> ('w, pod_step) eff" where
  "plans_loop r fi now [] pending = State_Monad.return (Inr pending)"
| "plans_loop r fi now (p # ps) pending = do {
     x \<leftarrow> plan_body r fi now p;
     (case x of
        Inl ret \<Rightarrow> State_Monad.return (Inl ret)
      | Inr b \<Rightarrow> plans_loop r fi now ps (pending \<or> b))
   }"

definition applyPodFaults ::
  "'w reconciler \<Rightarrow> faultInjection \<Rightarrow> time \<Rightarrow> ('w, bool \<times> time option \<times> goerr option) eff" where
  "applyPodFaults r fi now =
     (if podFaults fi = [] then State_Monad.return (False, None, None)
      else case stStartedAt (fiStatus fi) of
        None \<Rightarrow> State_Monad.return (False, None, None)
      | Some startedAt \<Rightarrow>
          (let (plans, earliestDue, perr) = buildPodFaultPlans fi now startedAt in
           case perr of
             Some e \<Rightarrow> State_Monad.return (False, earliestDue, Some e)
           | None \<Rightarrow> do {
               x \<leftarrow> plans_loop r fi now plans False;
               State_Monad.return
                 (case x of
                    Inl (stop, err) \<Rightarrow> (stop, earliestDue, err)
                  | Inr pending \<Rightarrow>
                      (False,
                       if pending then updateEarliestDue earliestDue (Some (now + 2 * second))
                       else earliestDue,
                       None))
             }))"

section \<open>Cleanup\<close>

definition podfault_labels :: "faultInjection \<Rightarrow> string gomap" where
  "podfault_labels fi =
     [(''chaos.sghaida.io/fi'', fiName fi), (''chaos.sghaida.io/kind'', ''podfault'')]
     @ (if fiUID fi \<noteq> [] then [(''chaos.sghaida.io/fi-uid'', fiUID fi)] else [])"

fun delete_each ::
  "'w reconciler \<Rightarrow> ('b \<Rightarrow> bool) \<Rightarrow> ('b \<Rightarrow> ('w, apiError option) eff) \<Rightarrow> string \<Rightarrow> string \<Rightarrow>
   'b list \<Rightarrow> ('w, unit) eff" where
  "delete_each r skip del failed deleted [] = State_Monad.return ()"
| "delete_each r skip del failed deleted (x # xs) =
     (if skip x then delete_each r skip del failed deleted xs
      else do {
        d \<leftarrow> del x;
        (if delete_failed d then eventf r ''Warning'' failed ''podfault-cleanup''
         else eventf r ''Normal'' deleted ''podfault-cleanup'');
        delete_each r skip del failed deleted xs
      })"

definition cleanupPodFaultArtifacts :: "'w reconciler \<Rightarrow> faultInjection \<Rightarrow> ('w, goerr option) eff" where
  "cleanupPodFaultArtifacts r fi = do {
     jobs \<leftarrow> listJobs r (fiNamespace fi) (podfault_labels fi);
     (case jobs of
        Inl e \<Rightarrow> do {
          eventf r ''Warning'' ''PodFaultJobListFailed'' ''podfault-cleanup'';
          State_Monad.return (Some (EApi e))
        }
      | Inr js \<Rightarrow> do {
          delete_each r (\<lambda>j. False) (deleteJob r) ''PodFaultJobDeleteFailed'' ''PodFaultJobDeleted'' js;
          pods \<leftarrow> listPods r (fiNamespace fi) (podfault_labels fi);
          (case pods of
             Inl e \<Rightarrow> do {
               eventf r ''Warning'' ''PodFaultPodListFailed'' ''podfault-cleanup'';
               State_Monad.return (Some (EApi e))
             }
           | Inr ps \<Rightarrow> do {
               delete_each r (\<lambda>p. pdPhase p \<noteq> ''Succeeded'' \<and> pdPhase p \<noteq> ''Failed'') (deletePod r)
                 ''PodFaultPodDeleteFailed'' ''PodFaultPodDeleted'' ps;
               leases \<leftarrow> listLeases r (fiNamespace fi) (podfault_labels fi);
               (case leases of
                  Inl e \<Rightarrow> do {
                    eventf r ''Warning'' ''PodFaultLeaseListFailed'' ''podfault-cleanup'';
                    State_Monad.return (Some (EApi e))
                  }
                | Inr ls \<Rightarrow> do {
                    delete_each r (\<lambda>l. False) (deleteLease r) ''PodFaultLeaseDeleteFailed''
                      ''PodFaultLeaseDeleted'' ls;
                    State_Monad.return None
                  })
             })
        })
   }"

section \<open>The requests of each operation\<close>

lemma emits_update_status: "emits fi_op (update_status r ns n edit)"
  unfolding update_status_def edit_status_def call_defs
  by (intro always_intro always_call) simp_all

lemma emits_lease: "emits lease_op (tryAcquireOrTakeoverLease r fi p now)"
  unfolding tryAcquireOrTakeoverLease_def create_lease_def takeover_lease_def takeover_attempt_def call_defs
  by (intro always_intro always_call) simp_all

section \<open>The lease protocol\<close>

definition lease_namespace :: "faultInjection \<Rightarrow> podFaultPlan \<Rightarrow> string" where
  "lease_namespace fi p = (if TrimSpace (plNamespace p) = [] then fiNamespace fi else plNamespace p)"

text \<open>
  Writes of a lease: it is updated only after a read in the same run that showed it stale, and
  created only after a read that did not find it; the holder written is this reconciler's.
\<close>

definition lease_writes_ok ::
  "'w reconciler \<Rightarrow> faultInjection \<Rightarrow> podFaultPlan \<Rightarrow> time \<Rightarrow> op list \<Rightarrow> bool" where
  "lease_writes_ok r fi p now ops \<longleftrightarrow>
     (\<forall>l x. OpUpdateLease l x \<in> set ops \<longrightarrow>
        (\<exists>l0. OpGetLease (lease_namespace fi p) (plLeaseName p) (Inr l0) \<in> set ops
           \<and> lease_stale l0 now \<and> take_lease fi p (lease_holder r) now l0 = Some l))
     \<and> (\<forall>l x. OpCreateLease l x \<in> set ops \<longrightarrow>
        OpGetLease (lease_namespace fi p) (plLeaseName p) (Inl NotFound) \<in> set ops
          \<and> leHolderIdentity l = Some (lease_holder r) \<and> leRenewTime l = Some now)"

text \<open>The lease was won: the create succeeded, or the update did and a last read confirmed it.\<close>

definition lease_won ::
  "'w reconciler \<Rightarrow> faultInjection \<Rightarrow> podFaultPlan \<Rightarrow> op list \<Rightarrow> bool" where
  "lease_won r fi p ops \<longleftrightarrow>
     (\<exists>l. OpCreateLease l None \<in> set ops \<and> leHolderIdentity l = Some (lease_holder r))
     \<or> (\<exists>l a b c. ops = a @ OpUpdateLease l None # b \<and> leHolderIdentity l = Some (lease_holder r)
          \<and> OpGetLease (lease_namespace fi p) (plLeaseName p) (Inr c) \<in> set b
          \<and> leHolderIdentity c = Some (lease_holder r))"

lemma lease_won_mono: "lease_won r fi p ops \<Longrightarrow> lease_won r fi p (a @ ops @ b)"
  unfolding lease_won_def
  by (elim disjE exE conjE; simp; metis append.assoc append_Cons Un_iff set_append)

lemma lease_won_update:
  "OpUpdateLease l None \<in> set ops \<Longrightarrow> leHolderIdentity l = Some (lease_holder r) \<Longrightarrow>
   leHolderIdentity c = Some (lease_holder r) \<Longrightarrow>
   lease_won r fi p (ops @ [OpGetLease (lease_namespace fi p) (plLeaseName p) (Inr c)])"
  unfolding lease_won_def by (drule split_list) fastforce

lemma lease_writes_ok_append:
  "lease_writes_ok r fi p now a \<Longrightarrow> lease_writes_ok r fi p now b \<Longrightarrow> lease_writes_ok r fi p now (a @ b)"
  unfolding lease_writes_ok_def set_append Un_iff by meson

lemma lease_writes_ok_simps [simp]:
  "lease_writes_ok r fi p now []"
  "lease_writes_ok r fi p now [OpGetLease ns n x]"
  by (simp_all add: lease_writes_ok_def)

lemma new_lease_holder:
  "new_lease fi p ns h now = Some l \<Longrightarrow> leHolderIdentity l = Some h \<and> leRenewTime l = Some now"
  by (auto simp: new_lease_def split: option.splits)

lemma take_lease_holder:
  "take_lease fi p h now l0 = Some l \<Longrightarrow>
     leHolderIdentity l = Some h \<and> leRenewTime l = Some now \<and> leaseDuration l = leaseDuration l0"
  by (auto simp: take_lease_def Let_def leaseDuration_def split: option.splits)

lemma runs_takeover_attempt:
  "runs (takeover_attempt r fi p (lease_namespace fi p) (lease_holder r) now u)
     (\<lambda>x ops. lease_writes_ok r fi p now ops
        \<and> (fst x = None \<longrightarrow> (\<exists>l. OpUpdateLease l None \<in> set ops \<and> leHolderIdentity l = Some (lease_holder r))))"
  unfolding takeover_attempt_def
  by (intro runs_intro) (auto simp: lease_writes_ok_def dest: take_lease_holder)

lemma runs_create_lease:
  "runs (create_lease r fi p (lease_namespace fi p) (lease_holder r) now)
     (\<lambda>(acq, _, e) ops.
        lease_writes_ok r fi p now (OpGetLease (lease_namespace fi p) (plLeaseName p) (Inl NotFound) # ops)
        \<and> (acq \<longrightarrow> e = None \<and> lease_won r fi p ops))"
  unfolding create_lease_def
  apply (intro runs_intro)
  apply (auto simp: lease_writes_ok_def lease_won_def dest!: new_lease_holder split: sum.splits option.splits apiError.splits)
  done

text \<open>The promise of an acquisition, with the trace so far.\<close>

definition lease_promise ::
  "'w reconciler \<Rightarrow> faultInjection \<Rightarrow> podFaultPlan \<Rightarrow> time \<Rightarrow> bool \<times> leaseReason \<times> goerr option \<Rightarrow>
   op list \<Rightarrow> bool" where
  "lease_promise r fi p now res ops \<longleftrightarrow>
     lease_writes_ok r fi p now ops \<and> (fst res \<longrightarrow> snd (snd res) = None \<and> lease_won r fi p ops)"

lemma runs_takeover_retry:
  "runs (retry_on_conflict n (takeover_attempt r fi p (lease_namespace fi p) (lease_holder r) now) u)
     (\<lambda>x ops. lease_writes_ok r fi p now ops
        \<and> (fst x = None \<longrightarrow> (\<exists>l. OpUpdateLease l None \<in> set ops \<and> leHolderIdentity l = Some (lease_holder r))))"
  by (rule runs_retry [where J = "\<lambda>e ops. lease_writes_ok r fi p now ops
        \<and> (e = None \<longrightarrow> (\<exists>l. OpUpdateLease l None \<in> set ops \<and> leHolderIdentity l = Some (lease_holder r)))"])
    (rule runs_takeover_attempt, auto intro: lease_writes_ok_append)

lemma runs_takeover_lease:
  "runs (takeover_lease r fi p (lease_namespace fi p) (lease_holder r) now) (lease_promise r fi p now)"
  unfolding takeover_lease_def
  apply (rule runs_bind)
  apply (rule runs_conseq [OF runs_takeover_retry])
  apply (intro runs_intro)
   apply (auto simp: lease_promise_def)[1]
  apply (auto simp: lease_promise_def intro!: lease_writes_ok_append lease_won_update
      split: sum.splits if_splits)
  done

lemma runs_create_promise:
  "runs (create_lease r fi p (lease_namespace fi p) (lease_holder r) now)
     (\<lambda>res ops. lease_promise r fi p now res
        (OpGetLease (lease_namespace fi p) (plLeaseName p) (Inl NotFound) # ops))"
  by (rule runs_conseq [OF runs_create_lease])
    (auto simp: lease_promise_def dest: lease_won_mono [of _ _ _ _ "[x]" "[]" for x])

lemma runs_tryAcquire:
  "runs (tryAcquireOrTakeoverLease r fi p now) (\<lambda>res ops. lease_promise r fi p now res ops
     \<and> (\<forall>l ops'. ops = OpGetLease (lease_namespace fi p) (plLeaseName p) (Inr l) # ops' \<longrightarrow>
          \<not> lease_stale l now \<longrightarrow> ops' = [] \<and> \<not> fst res \<and> snd (snd res) = None))"
  unfolding tryAcquireOrTakeoverLease_def Let_def lease_namespace_def [symmetric]
  apply (intro runs_intro)
     apply (simp add: lease_promise_def)
    apply (rule runs_conseq [OF runs_create_promise], simp)
   apply (simp add: lease_promise_def)
  apply (rule runs_conseq [OF runs_takeover_lease])
  apply (auto simp: lease_promise_def dest: lease_won_mono [of _ _ _ _ "[x]" "[]" for x]
      intro: lease_writes_ok_append [of _ _ _ _ "[OpGetLease a b c]" for a b c, simplified])
  done

text \<open>
  How long a lease is safe: while it is not stale nobody takes it, so after an acquisition at
  \<open>now\<close> no other reconciler gets it before its duration and the safety skew have passed.
\<close>

lemma stale_after_eq:
  assumes "0 < d" "in_i32 d" shows "stale_after d = d * second + min (10 * second) (d * second)"
  using assms by (auto simp: stale_after_def Let_def to_i64_id in_i64_def in_i32_def second_def min_def)

lemma fresh_not_stale:
  assumes "leRenewTime l = Some t" "t \<noteq> zero_time" "in_i32 (leaseDuration l)"
    and "now \<le> t + leaseDuration l * second"
  shows "\<not> lease_stale l now"
proof -
  have "0 < leaseDuration l" by (auto simp: leaseDuration_def split: option.split)
  then have "0 < leaseDuration l" "leaseDuration l * second \<le> stale_after (leaseDuration l)"
    using assms(3) by (auto simp: stale_after_eq second_def)
  then show ?thesis using assms by (simp add: lease_stale_def isStaleAt_def lastTime_def)
qed

section \<open>When a job is created\<close>

text \<open>
  The executor job of a plan is created after the plan's lease was won and no job of its name was
  found; apart from its metadata, which \<open>SetControllerReference\<close> fills in, it is
  \<open>podfault_job\<close> of the plan.
\<close>

definition job_after_lease ::
  "'w reconciler \<Rightarrow> faultInjection \<Rightarrow> podFaultPlan \<Rightarrow> op list \<Rightarrow> op \<Rightarrow> bool" where
  "job_after_lease r fi p before x =
     (case x of
        OpCreateJob j e \<Rightarrow>
          lease_won r fi p before
          \<and> OpGetJob (plNamespace p) (plJobName p) (Inl NotFound) \<in> set before
          \<and> (\<exists>m. map_option (jbMeta_update (\<lambda>_. m)) (podfault_job fi p) = Some j)
      | _ \<Rightarrow> True)"

lemma job_after_lease_free:
  "\<forall>j e. x \<noteq> OpCreateJob j e \<Longrightarrow> job_after_lease r fi p pre x"
  by (cases x) (simp_all add: job_after_lease_def)

lemma after_no_job:
  "list_all (\<lambda>x. \<forall>j e. x \<noteq> OpCreateJob j e) ops \<Longrightarrow> after (job_after_lease r fi p) pre ops"
  by (rule after_free) (auto simp: list_all_iff intro: job_after_lease_free)

lemma fi_op_no_job: "fi_op x \<Longrightarrow> x \<noteq> OpCreateJob j e"
  and lease_op_no_job: "lease_op x \<Longrightarrow> x \<noteq> OpCreateJob j e"
  by auto

lemma after_fi_ops: "list_all fi_op ops \<Longrightarrow> after (job_after_lease r fi p) pre ops"
  and after_lease_ops: "list_all lease_op ops \<Longrightarrow> after (job_after_lease r fi p) pre ops"
  by (rule after_no_job, simp add: list_all_iff, blast dest: fi_op_no_job lease_op_no_job)+

lemma runs_createJob_step:
  assumes "lease_won r fi p pre"
  shows "runs (createPodFaultJobIfNotExists r fi p) (\<lambda>_ ops. after (job_after_lease r fi p) pre ops)"
proof -
  have won: "lease_won r fi p (pre @ [x])" for x
    using lease_won_mono [OF assms, of "[]" "[x]"] by simp
  show ?thesis
    unfolding createPodFaultJobIfNotExists_def
    by (intro runs_intro) (auto simp: job_after_lease_def won intro: exI)
qed

lemma after_event_ops: "list_all event_op ops \<Longrightarrow> after (job_after_lease r fi p) pre ops"
  by (rule after_no_job) (auto simp: list_all_iff)

lemmas after_ops = after_append after_fi_ops after_lease_ops after_event_ops

lemma emits_events:
  "emits event_op (eventf r t x a)" "emits event_op (unless_panic e (eventf r t x a))"
  unfolding unless_panic_def by (auto intro!: each.always_eventf always_intro)

lemma runs_start_job:
  assumes "lease_won r fi p pre"
  shows "runs (start_job r fi p) (\<lambda>_ ops. after (job_after_lease r fi p) pre ops)"
proof -
  have "emits event_op (case c of
        Some e \<Rightarrow> do {
          unless_panic e (eventf r ''Warning'' ''PodFaultJobCreateFailed'' ''podfault-job-create'');
          State_Monad.return (Inl (False, Some e))
        }
      | None \<Rightarrow> do {
          eventf r ''Normal'' ''PodFaultJobCreated'' ''podfault-job-create'';
          State_Monad.return (Inr True)
        })" for c
    by (intro always_intro emits_events)
  note rest = runs_conseq [OF always_runs [OF this]]
  show ?thesis
    unfolding start_job_def
    by (rule runs_bind, rule runs_conseq [OF runs_createJob_step [OF assms]], rule rest)
      (simp add: after_ops)
qed

lemma runs_launch:
  "runs (launch_step r fi p now) (\<lambda>_ ops. after (job_after_lease r fi p) pre ops)"
proof -
  have lease: "runs (tryAcquireOrTakeoverLease r fi p now)
      (\<lambda>res ops. list_all lease_op ops \<and> lease_promise r fi p now res ops)"
    by (intro runs_conj always_runs emits_lease runs_conseq [OF runs_tryAcquire]) blast
  have busy: "emits event_op (do { eventf r t x a; State_Monad.return v })"
    "emits event_op (do { unless_panic e (eventf r t x a); State_Monad.return v })"
    for t x a e and v :: pod_step
    by (intro always_intro emits_events)+
  have job: "runs (do { eventf r t x a; start_job r fi p })
      (\<lambda>_ ops. after (job_after_lease r fi p) (pre @ u @ b) ops)"
    if "lease_promise r fi p now (True, w, e) b" for u b w e t x a
    using that lease_won_mono [of r fi p b "pre @ u"]
    by (intro runs_bind runs_events runs_conseq [OF runs_start_job])
      (auto simp: lease_promise_def after_ops)
  show ?thesis
    unfolding launch_step_def recordPodFaultPlanned_def
    apply (rule runs_bind, rule runs_conseq [OF always_runs [OF emits_update_status]])
    apply (rule runs_bind, rule runs_conseq [OF lease])
    apply (rule runs_case_prod, rule runs_case_prod, rule runs_case_option, rule runs_if)
      apply (rule runs_conseq [OF always_runs [OF busy(1)]], simp add: after_ops)
     apply (clarsimp, rule runs_conseq [OF job], assumption, simp add: after_ops)
    apply (rule runs_conseq [OF always_runs [OF busy(2)]], simp add: after_ops)
    done
qed

text \<open>The pods a plan takes from the candidates.\<close>

definition plan_targets :: "podFaultPlan \<Rightarrow> podObj list \<Rightarrow> string list" where
  "plan_targets p candidates =
     selectPodNamesDeterministically candidates
       (if plSelectionCount p \<noteq> None then PodSelectionModeCount else PodSelectionModePercent)
       (plSelectionCount p) (plSelectionPercent p) (plMaxPodsAffectedEffective p)"

text \<open>
  What justifies the job of a plan: the tick is not finished, the candidates listed before are
  enough for the guardrail, the job deletes the pods selected from them, and the lease was won.
\<close>

definition plan_launch ::
  "'w reconciler \<Rightarrow> faultInjection \<Rightarrow> podFaultPlan \<Rightarrow> op list \<Rightarrow> op \<Rightarrow> bool" where
  "plan_launch r fi p before x \<longleftrightarrow>
     (\<forall>j e. x = OpCreateJob j e \<longrightarrow>
        \<not> skip_plan fi p
        \<and> (\<exists>l. OpListPods (plNamespace p) (plSelectorLabels p) (Inr l) \<in> set before
             \<and> plRefuseIfPodsLessThan p \<le> to_i32 (int (length (candidate_pods l)))
             \<and> plan_targets p (candidate_pods l) \<noteq> []
             \<and> job_after_lease r fi (p\<lparr>plPodNames := plan_targets p (candidate_pods l)\<rparr>) before x))"

lemma after_mono: "after J pre ops \<Longrightarrow> (\<And>a x. set pre \<subseteq> set a \<Longrightarrow> J a x \<Longrightarrow> K a x) \<Longrightarrow> after K pre ops"
proof (induction ops arbitrary: pre)
  case (Cons x ops)
  have "after K (pre @ [x]) ops" using Cons by (intro Cons.IH) auto
  then show ?case using Cons.prems by simp
qed simp

lemma plan_launch_free: "\<not> injects x \<Longrightarrow> plan_launch r fi p pre x"
  by (auto simp: plan_launch_def)

lemma after_plan_free: "list_all (\<lambda>x. \<not> injects x) ops \<Longrightarrow> after (plan_launch r fi p) pre ops"
  by (rule after_free) (auto simp: list_all_iff intro: plan_launch_free)

lemma fi_op_not_injects: "fi_op x \<Longrightarrow> \<not> injects x"
  and event_op_not_injects: "event_op x \<Longrightarrow> \<not> injects x"
  by (cases x; simp)+

lemma quiet_events [always_intro]: "emits (\<lambda>x. \<not> injects x) (eventf r t x a)"
  by (rule emits_mono [OF emits_events(1) event_op_not_injects])

lemma quiet_status [always_intro]: "emits (\<lambda>x. \<not> injects x) (update_status r ns n edit)"
  by (rule emits_mono [OF emits_update_status fi_op_not_injects])

lemma quiet_job_steps:
  "emits (\<lambda>x. \<not> injects x) (job_complete_step r fi p now job)"
  "emits (\<lambda>x. \<not> injects x) (job_failed_step r fi p now job)"
  unfolding job_complete_step_def job_failed_step_def recordPodFaultExecuted_def
    setFIStatusPhaseMessage_def call_defs
  by (intro always_intro always_call; simp)+

lemma runs_quiet:
  "emits (\<lambda>x. \<not> injects x) m \<Longrightarrow> runs m (\<lambda>_ ops. after (plan_launch r fi p) pre ops)"
  by (drule always_runs, erule runs_conseq) (rule after_plan_free)

lemma runs_launch_selected:
  assumes "\<not> skip_plan fi p" "OpListPods (plNamespace p) (plSelectorLabels p) (Inr l) \<in> set pre"
    "\<not> to_i32 (int (length (candidate_pods l))) < plRefuseIfPodsLessThan p"
    "plan_targets p (candidate_pods l) \<noteq> []"
  shows "runs (launch_step r fi (p\<lparr>plPodNames := plan_targets p (candidate_pods l)\<rparr>) now)
      (\<lambda>_ ops. after (plan_launch r fi p) pre ops)"
proof (rule runs_conseq [OF runs_launch [where pre = pre]])
  let ?q = "p\<lparr>plPodNames := plan_targets p (candidate_pods l)\<rparr>"
  fix x :: pod_step and ops
  assume "after (job_after_lease r fi ?q) pre ops"
  then show "after (plan_launch r fi p) pre ops"
  proof (rule after_mono)
    fix d y assume "set pre \<subseteq> set d" "job_after_lease r fi ?q d y"
    then show "plan_launch r fi p d y"
      using assms unfolding plan_launch_def by (intro allI impI conjI exI [of _ l]) auto
  qed
qed

lemma plan_mode:
  assumes "(if plSelectionCount p \<noteq> None then Some PodSelectionModeCount
      else if plSelectionPercent p \<noteq> None then Some PodSelectionModePercent else None) = Some mode"
  shows "selectPodNamesDeterministically cs mode (plSelectionCount p) (plSelectionPercent p)
      (plMaxPodsAffectedEffective p) = plan_targets p cs"
proof (cases "plSelectionCount p = None")
  case True
  then have "mode = PodSelectionModePercent" using assms by (simp split: if_splits)
  then show ?thesis using True by (simp add: plan_targets_def)
next
  case False
  then have "mode = PodSelectionModeCount" using assms by simp
  then show ?thesis using False by (simp add: plan_targets_def)
qed

lemma quiet_refuse:
  "emits (\<lambda>x. \<not> injects x) (do {
      eventf r t x a; v \<leftarrow> setFIStatusPhaseMessage r fi ph msg; State_Monad.return (f v) })"
  "emits (\<lambda>x. \<not> injects x) (do { eventf r t x a; State_Monad.return w })"
  unfolding setFIStatusPhaseMessage_def by (intro always_intro)+

lemma runs_select_from:
  assumes "\<not> skip_plan fi p" "OpListPods (plNamespace p) (plSelectorLabels p) (Inr l) \<in> set pre"
  shows "runs (select_from r fi p now (candidate_pods l)) (\<lambda>_ ops. after (plan_launch r fi p) pre ops)"
  unfolding select_from_def
proof (intro runs_if runs_Let runs_case_option)
  fix mode mode' sel
  assume c: "\<not> to_i32 (int (length (candidate_pods l))) < plRefuseIfPodsLessThan p"
    and m: "mode = (if plSelectionCount p \<noteq> None then Some PodSelectionModeCount
      else if plSelectionPercent p \<noteq> None then Some PodSelectionModePercent else None)"
      "mode = Some mode'"
    and s: "sel = selectPodNamesDeterministically (candidate_pods l) mode'
        (plSelectionCount p) (plSelectionPercent p) (plMaxPodsAffectedEffective p)" "sel \<noteq> []"
  have "sel = plan_targets p (candidate_pods l)" using plan_mode [of p mode'] m s by simp
  then show "runs (launch_step r fi (p\<lparr>plPodNames := sel\<rparr>) now) (\<lambda>_ ops. after (plan_launch r fi p) pre ops)"
    using runs_launch_selected [OF assms c] s(2) by simp
qed (rule runs_quiet, rule quiet_refuse)+

lemma runs_select_step:
  "\<not> skip_plan fi p \<Longrightarrow> runs (select_step r fi p now) (\<lambda>_ ops. after (plan_launch r fi p) pre ops)"
  unfolding select_step_def listCandidatePods_def
  apply (rule runs_bind, rule runs_bind, rule runs_listPods)
  subgoal for x
    apply (cases x)
     apply (simp, rule runs_return, simp add: plan_launch_free)
     apply (rule runs_quiet [OF quiet_refuse(2)])
    apply (simp, rule runs_return, simp add: plan_launch_free)
    apply (rule runs_select_from, simp_all)
    done
  done

lemma always_plan_body: "always (preceded (plan_launch r fi p)) (plan_body r fi now p)"
proof (cases "skip_plan fi p")
  case True
  then show ?thesis by (simp add: plan_body_def hist.always_return)
next
  case False
  have "runs (plan_body r fi now p) (\<lambda>_ ops. after (plan_launch r fi p) [] ops)"
    unfolding plan_body_def using False
    apply (simp only: if_False)
    apply (rule runs_bind, rule runs_getJob)
    subgoal for x
      apply (cases x)
       apply (simp add: plan_launch_free runs_select_step runs_quiet quiet_refuse(2))
      apply (auto simp: plan_launch_free intro!: runs_quiet quiet_job_steps runs_return)
      done
    done
  then show ?thesis
    unfolding always_def by (rule runs_conseq) (rule after_preceded)
qed

section \<open>The whole run\<close>

text \<open>
  Every job the run creates is the job of a plan of the spec at this time, justified by what the
  run did before.
\<close>

definition job_of_spec :: "'w reconciler \<Rightarrow> faultInjection \<Rightarrow> time \<Rightarrow> op list \<Rightarrow> op \<Rightarrow> bool" where
  "job_of_spec r fi now before x \<longleftrightarrow>
     (\<forall>j e. x = OpCreateJob j e \<longrightarrow>
        (\<exists>startedAt p. stStartedAt (fiStatus fi) = Some startedAt
           \<and> (\<exists>a \<in> set (podFaults fi). plan_of fi now startedAt a p)
           \<and> plan_launch r fi p before x))"

lemma always_plans_loop:
  "\<forall>p \<in> set ps. always (preceded J) (plan_body r fi now p) \<Longrightarrow>
   always (preceded J) (plans_loop r fi now ps pending)"
  by (induction ps arbitrary: pending) (auto intro!: always_intro)

lemma preceded_mono: "preceded J ops \<Longrightarrow> (\<And>d x. J d x \<Longrightarrow> K d x) \<Longrightarrow> preceded K ops"
  unfolding preceded_def by blast

lemma always_applyPodFaults: "always (preceded (job_of_spec r fi now)) (applyPodFaults r fi now)"
proof -
  have body: "always (preceded (job_of_spec r fi now)) (plan_body r fi now p)"
    if "stStartedAt (fiStatus fi) = Some startedAt" "a \<in> set (podFaults fi)" "plan_of fi now startedAt a p"
    for startedAt a p
    using that by (intro always_mono [OF always_plan_body], elim preceded_mono)
      (auto simp: job_of_spec_def)
  show ?thesis
    unfolding applyPodFaults_def
    by (intro always_intro always_plans_loop ballI)
      (metis body plans_sound prod.inject)
qed

section \<open>Status writes\<close>

text \<open>
  A status write of the run is the edit of an object read before it in the run: metadata and spec
  are those the server returned.
\<close>

definition status_write ::
  "(faultInjectionStatus \<Rightarrow> faultInjectionStatus option) \<Rightarrow> string \<Rightarrow> string \<Rightarrow> op list \<Rightarrow> op \<Rightarrow> bool" where
  "status_write edit ns n before x \<longleftrightarrow>
     (\<forall>fi' e. x = OpStatusUpdateFI fi' e \<longrightarrow>
        (\<exists>fi0 st. OpGetFI ns n (Inr fi0) \<in> set before \<and> edit (fiStatus fi0) = Some st
           \<and> fi' = fi0\<lparr>fiStatus := st\<rparr>))"

definition status_outcome ::
  "(faultInjectionStatus \<Rightarrow> faultInjectionStatus option) \<Rightarrow> string \<Rightarrow> string \<Rightarrow> goerr option \<Rightarrow> op list \<Rightarrow> bool" where
  "status_outcome edit ns n e ops \<longleftrightarrow> (e = None \<longrightarrow>
     (\<exists>fi0. OpGetFI ns n (Inr fi0) \<in> set ops \<and>
        (case edit (fiStatus fi0) of
           None \<Rightarrow> True
         | Some st \<Rightarrow> OpStatusUpdateFI (fi0\<lparr>fiStatus := st\<rparr>) None \<in> set ops)))"

lemma runs_edit_status:
  "runs (edit_status r ns n edit u)
     (\<lambda>x ops. preceded (status_write edit ns n) ops \<and> status_outcome edit ns n (fst x) ops)"
proof -
  have "runs (edit_status r ns n edit u)
     (\<lambda>x ops. after (status_write edit ns n) [] ops \<and> status_outcome edit ns n (fst x) ops)"
    unfolding edit_status_def
    by (intro runs_intro) (auto simp: status_write_def status_outcome_def)
  then show ?thesis by (rule runs_conseq) (auto intro: after_preceded)
qed

lemma runs_update_status:
  "runs (update_status r ns n edit)
     (\<lambda>e ops. preceded (status_write edit ns n) ops \<and> status_outcome edit ns n e ops)"
  unfolding update_status_def
  apply (rule runs_bind)
  apply (rule runs_conseq [OF runs_retry [where J = "\<lambda>e ops. preceded (status_write edit ns n) ops
      \<and> status_outcome edit ns n e ops", OF runs_edit_status]])
   apply (auto intro: preceded_append simp: status_outcome_def split: option.splits)[1]
  apply (auto intro!: runs_return)
  done

section \<open>Cleanup of pod fault artifacts\<close>

text \<open>Cleanup deletes what it listed under the labels of this FaultInjection, nothing else.\<close>

definition deletes_listed :: "string \<Rightarrow> string gomap \<Rightarrow> op list \<Rightarrow> op \<Rightarrow> bool" where
  "deletes_listed ns ls before x =
     (case x of
        OpDeleteJob j _ \<Rightarrow> \<exists>l. OpListJobs ns ls (Inr l) \<in> set before \<and> j \<in> set l
      | OpDeleteLease j _ \<Rightarrow> \<exists>l. OpListLeases ns ls (Inr l) \<in> set before \<and> j \<in> set l
      | OpDeletePod p _ \<Rightarrow> \<exists>l. OpListPods ns ls (Inr l) \<in> set before \<and> p \<in> set l
          \<and> (pdPhase p = ''Succeeded'' \<or> pdPhase p = ''Failed'')
      | OpListJobs _ _ _ \<Rightarrow> True
      | OpListLeases _ _ _ \<Rightarrow> True
      | OpListPods _ _ _ \<Rightarrow> True
      | OpEvent _ _ _ \<Rightarrow> True
      | _ \<Rightarrow> False)"

lemma runs_delete_each:
  assumes "\<And>x pre. x \<in> set xs \<Longrightarrow> \<not> skip x \<Longrightarrow> set pre0 \<subseteq> set pre \<Longrightarrow>
      runs (del x) (\<lambda>_ ops. after (deletes_listed ns ls) pre ops)"
    and "set pre0 \<subseteq> set pre"
  shows "runs (delete_each r skip del failed deleted xs) (\<lambda>_ ops. after (deletes_listed ns ls) pre ops)"
  using assms
proof (induction xs arbitrary: pre)
  case Nil
  then show ?case by (simp add: runs_return)
next
  case (Cons x xs)
  have ev: "runs (if delete_failed d then eventf r ''Warning'' failed ''podfault-cleanup''
       else eventf r ''Normal'' deleted ''podfault-cleanup'')
     (\<lambda>_ ops. list_all event_op ops)" for d
    by (intro runs_intro) simp_all
  have evs: "after (deletes_listed ns ls) u ops" if "list_all event_op ops" for u ops
    using that by (intro after_free) (auto simp: list_all_iff deletes_listed_def elim!: event_op.elims)
  have rest: "runs (delete_each r skip del failed deleted xs) (\<lambda>_ ops. after (deletes_listed ns ls) pre' ops)"
    if "set pre0 \<subseteq> set pre'" for pre'
    using Cons.prems(1) that by (intro Cons.IH) auto
  show ?case
  proof (cases "skip x")
    case True
    then show ?thesis using rest Cons.prems(2) by simp
  next
    case False
    show ?thesis
      unfolding delete_each.simps using False
      apply (simp only: if_False)
      apply (rule runs_bind, rule runs_conseq [OF Cons.prems(1)])
         apply simp
        apply assumption
       apply (rule Cons.prems(2))
      apply (rule runs_bind, rule runs_conseq [OF ev])
      apply (rule runs_conseq [OF rest])
      using Cons.prems(2) apply (auto simp: after_append evs)
      done
  qed
qed

lemma emits_pod_deletes:
  "runs (cleanupPodFaultArtifacts r fi)
     (\<lambda>_ ops. after (deletes_listed (fiNamespace fi) (podfault_labels fi)) [] ops)"
proof -
  let ?J = "deletes_listed (fiNamespace fi) (podfault_labels fi)"
  have ev: "runs (do { eventf r t x a; State_Monad.return v }) (\<lambda>_ ops. after ?J pre ops)"
    for t x a pre and v :: "goerr option"
    by (intro runs_intro) (simp_all add: deletes_listed_def)
  have jobs: "runs (delete_each r (\<lambda>j. False) (deleteJob r) f d js) (\<lambda>_ ops. after ?J pre ops)"
    if "OpListJobs (fiNamespace fi) (podfault_labels fi) (Inr js) \<in> set pre" for f d js pre
    using that by (intro runs_delete_each [where ?pre0.0 = pre] runs_deleteJob) (auto simp: deletes_listed_def)
  have pods: "runs (delete_each r (\<lambda>p. pdPhase p \<noteq> ''Succeeded'' \<and> pdPhase p \<noteq> ''Failed'') (deletePod r) f d ps)
      (\<lambda>_ ops. after ?J pre ops)"
    if "OpListPods (fiNamespace fi) (podfault_labels fi) (Inr ps) \<in> set pre" for f d ps pre
    using that by (intro runs_delete_each [where ?pre0.0 = pre] runs_deletePod) (auto simp: deletes_listed_def)
  have leases: "runs (delete_each r (\<lambda>l. False) (deleteLease r) f d xs) (\<lambda>_ ops. after ?J pre ops)"
    if "OpListLeases (fiNamespace fi) (podfault_labels fi) (Inr xs) \<in> set pre" for f d xs pre
    using that by (intro runs_delete_each [where ?pre0.0 = pre] runs_deleteLease) (auto simp: deletes_listed_def)
  let ?stage3 = "do {
      leases \<leftarrow> listLeases r (fiNamespace fi) (podfault_labels fi);
      (case leases of
         Inl e \<Rightarrow> do {
           eventf r ''Warning'' ''PodFaultLeaseListFailed'' ''podfault-cleanup'';
           State_Monad.return (Some (EApi e))
         }
       | Inr ls \<Rightarrow> do {
           delete_each r (\<lambda>l. False) (deleteLease r) ''PodFaultLeaseDeleteFailed''
             ''PodFaultLeaseDeleted'' ls;
           State_Monad.return None
         })
    }"
  have stage3: "runs ?stage3 (\<lambda>_ ops. after ?J pre ops)" for pre
    apply (rule runs_bind, rule runs_listLeases, rule runs_case_sum)
     apply (rule runs_conseq [OF ev [of _ _ _ _ "pre @ [OpListLeases a b c]" for a b c]])
     apply (simp add: deletes_listed_def)
    subgoal for x xs
      apply (rule runs_bind, rule runs_conseq [OF leases [of xs "pre @ [OpListLeases (fiNamespace fi) (podfault_labels fi) x]"]])
       apply simp
      apply (simp add: deletes_listed_def after_append runs_return)
      done
    done
  let ?stage2 = "do {
      pods \<leftarrow> listPods r (fiNamespace fi) (podfault_labels fi);
      (case pods of
         Inl e \<Rightarrow> do {
           eventf r ''Warning'' ''PodFaultPodListFailed'' ''podfault-cleanup'';
           State_Monad.return (Some (EApi e))
         }
       | Inr ps \<Rightarrow> do {
           delete_each r (\<lambda>p. pdPhase p \<noteq> ''Succeeded'' \<and> pdPhase p \<noteq> ''Failed'') (deletePod r)
             ''PodFaultPodDeleteFailed'' ''PodFaultPodDeleted'' ps;
           ?stage3
         })
    }"
  have stage2: "runs ?stage2 (\<lambda>_ ops. after ?J pre ops)" for pre
    apply (rule runs_bind, rule runs_listPods, rule runs_case_sum)
     apply (rule runs_conseq [OF ev [of _ _ _ _ "pre @ [OpListPods a b c]" for a b c]])
     apply (simp add: deletes_listed_def)
    subgoal for x ps
      apply (rule runs_bind, rule runs_conseq [OF pods [of ps "pre @ [OpListPods (fiNamespace fi) (podfault_labels fi) x]"]])
       apply simp
      apply (rule runs_conseq [OF stage3])
      apply (simp add: deletes_listed_def after_append)
      done
    done
  show ?thesis
    unfolding cleanupPodFaultArtifacts_def
    apply (rule runs_bind, rule runs_listJobs, rule runs_case_sum)
     apply (rule runs_conseq [OF ev [of _ _ _ _ "[OpListJobs a b c]" for a b c]])
     apply (simp add: deletes_listed_def)
    subgoal for x js
      apply (rule runs_bind, rule runs_conseq [OF jobs [of js "[OpListJobs (fiNamespace fi) (podfault_labels fi) x]"]])
       apply simp
      apply (rule runs_conseq [OF stage2])
      apply (simp add: deletes_listed_def after_append)
      done
    done
qed

section \<open>What a job may delete\<close>

text \<open>
  The job of an action deletes pods that the server listed for the action's selector in its
  namespace and that were not terminating, the first ones by name, at least one, no more than the
  least of the caps, and only when the candidates are enough for the guardrail.
\<close>

definition job_bounded :: "faultInjection \<Rightarrow> op list \<Rightarrow> op \<Rightarrow> bool" where
  "job_bounded fi before x \<longleftrightarrow>
     (\<forall>j e. x = OpCreateJob j e \<longrightarrow>
        (\<exists>a p l k. a \<in> set (podFaults fi)
           \<and> OpListPods (resolvePodFaultTargetNS fi a) (lsMatchLabels (ptSelector (paTarget a))) (Inr l) \<in> set before
           \<and> pgRefuseIfPodsLessThan (paGuardrails a) \<le> to_i32 (int (length (candidate_pods l)))
           \<and> plPodNames p = pod_names (take k (candidate_pods l)) \<and> plPodNames p \<noteq> []
           \<and> (declared_caps fi a (resolvePodFaultMode a) \<noteq> [] \<longrightarrow>
                int (length (plPodNames p)) \<le> least_cap (declared_caps fi a (resolvePodFaultMode a)))
           \<and> plNamespace p = resolvePodFaultTargetNS fi a
           \<and> plTerminationMode p = trMode (paTermination a)
           \<and> plGracePeriodSecs p = trGracePeriodSeconds (paTermination a)
           \<and> jbArgs j = job_args p))"

lemma podfault_job_args: "podfault_job fi p = Some j \<Longrightarrow> jbArgs j = job_args p"
  by (auto simp: podfault_job_def Let_def split: option.splits)

lemma job_of_spec_bounded: "job_of_spec r fi now d x \<Longrightarrow> job_bounded fi d x"
  unfolding job_bounded_def
proof (intro allI impI)
  fix j e assume spec: "job_of_spec r fi now d x" and x: "x = OpCreateJob j e"
  obtain startedAt a p where a: "a \<in> set (podFaults fi)" "plan_of fi now startedAt a p"
    and l: "plan_launch r fi p d x"
    using spec x unfolding job_of_spec_def by blast
  obtain l where l: "OpListPods (plNamespace p) (plSelectorLabels p) (Inr l) \<in> set d"
      "plRefuseIfPodsLessThan p \<le> to_i32 (int (length (candidate_pods l)))"
      "plan_targets p (candidate_pods l) \<noteq> []"
      "job_after_lease r fi (p\<lparr>plPodNames := plan_targets p (candidate_pods l)\<rparr>) d x"
    using l x unfolding plan_launch_def by blast
  let ?q = "p\<lparr>plPodNames := plan_targets p (candidate_pods l)\<rparr>"
  obtain k where k: "plan_targets p (candidate_pods l) = pod_names (take k (candidate_pods l))"
      "0 < plMaxPodsAffectedEffective p \<longrightarrow> int k \<le> plMaxPodsAffectedEffective p"
    using select_names unfolding plan_targets_def by blast
  have args: "jbArgs j = job_args ?q"
    using l(4) x by (auto simp: job_after_lease_def dest: podfault_job_args)
  note f = plan_of_fields [OF a(2)]
  have cap: "plMaxPodsAffectedEffective p = least_cap (declared_caps fi a (resolvePodFaultMode a))"
    using f(8) capEffectiveMaxPods_least by simp
  have pos: "0 < least_cap (declared_caps fi a (resolvePodFaultMode a))"
    if "declared_caps fi a (resolvePodFaultMode a) \<noteq> []"
    using that declared_caps_pos [of _ fi a "resolvePodFaultMode a"] by (simp add: least_cap_def)
  have "declared_caps fi a (resolvePodFaultMode a) \<noteq> [] \<longrightarrow>
      int (length (plan_targets p (candidate_pods l))) \<le> least_cap (declared_caps fi a (resolvePodFaultMode a))"
    using k pos cap by (auto simp: pod_names_def)
  then show "\<exists>a p l k. a \<in> set (podFaults fi)
           \<and> OpListPods (resolvePodFaultTargetNS fi a) (lsMatchLabels (ptSelector (paTarget a))) (Inr l) \<in> set d
           \<and> pgRefuseIfPodsLessThan (paGuardrails a) \<le> to_i32 (int (length (candidate_pods l)))
           \<and> plPodNames p = pod_names (take k (candidate_pods l)) \<and> plPodNames p \<noteq> []
           \<and> (declared_caps fi a (resolvePodFaultMode a) \<noteq> [] \<longrightarrow>
                int (length (plPodNames p)) \<le> least_cap (declared_caps fi a (resolvePodFaultMode a)))
           \<and> plNamespace p = resolvePodFaultTargetNS fi a
           \<and> plTerminationMode p = trMode (paTermination a)
           \<and> plGracePeriodSecs p = trGracePeriodSeconds (paTermination a)
           \<and> jbArgs j = job_args p"
    using a(1) l k(1) args f
    by (intro exI [of _ a] exI [of _ ?q] exI [of _ l] exI [of _ k]) simp
qed

lemma applyPodFaults_bounded: "preceded (job_bounded fi) (ops_of (applyPodFaults r fi now) s)"
  by (rule preceded_mono [OF always_ops_of [OF always_applyPodFaults] job_of_spec_bounded])


section \<open>Finished ticks are not run again\<close>

lemma find_executed:
  "find_tick (stPodFaults (executed_status p now b msg st)) (plan_key p) =
     Some (finish_tick p now b msg
       (case find_tick (stPodFaults st) (plan_key p) of
          Some e \<Rightarrow> e | None \<Rightarrow> new_tick (plActionName p) (plTickID p)))"
  using ticks.find_same [of "finish_tick p now b msg" "stPodFaults st" "plan_key p"]
  unfolding executed_status_eq plan_key_def by (simp cong: option.case_cong)

lemma skip_after_executed:
  "skip_plan (fi\<lparr>fiStatus := executed_status p now b msg st\<rparr>) p"
  using find_executed [of p now b msg st]
  by (simp add: skip_plan_def plan_key_def isTerminalTickState_def finish_tick_def)

lemma plan_body_skip: "skip_plan fi p \<Longrightarrow> ops_of (plan_body r fi now p) s = []"
  by (simp add: plan_body_def ops_of_def)


section \<open>The rounds of a status update\<close>

text \<open>
  One round of a status update, with its error: it reads the object, and writes the edit of the
  status it read, if the edit asks for a write. A whole update repeats the round, with a new read,
  exactly after conflicts, as long as there are retries left, and returns the error of the last round.
\<close>

inductive status_round ::
  "(faultInjectionStatus \<Rightarrow> faultInjectionStatus option) \<Rightarrow> string \<Rightarrow> string \<Rightarrow> goerr option \<Rightarrow> op list \<Rightarrow> bool"
  for edit ns n where
  unread: "status_round edit ns n (Some (EApi e)) [OpGetFI ns n (Inl e)]"
| unchanged: "edit (fiStatus fi) = None \<Longrightarrow> status_round edit ns n None [OpGetFI ns n (Inr fi)]"
| written: "edit (fiStatus fi) = Some st \<Longrightarrow>
    status_round edit ns n (map_option EApi x) [OpGetFI ns n (Inr fi), OpStatusUpdateFI (fi\<lparr>fiStatus := st\<rparr>) x]"

inductive status_rounds ::
  "(faultInjectionStatus \<Rightarrow> faultInjectionStatus option) \<Rightarrow> string \<Rightarrow> string \<Rightarrow> nat \<Rightarrow> goerr option \<Rightarrow> op list \<Rightarrow> bool"
  for edit ns n where
  last: "status_round edit ns n e ops \<Longrightarrow> e \<noteq> Some (EApi Conflict) \<or> k = 0 \<Longrightarrow> status_rounds edit ns n k e ops"
| again: "status_round edit ns n (Some (EApi Conflict)) ops \<Longrightarrow> status_rounds edit ns n k e ops' \<Longrightarrow>
    status_rounds edit ns n (Suc k) e (ops @ ops')"

lemma runs_status_rounds:
  fixes f :: "'b \<Rightarrow> ('w, goerr option \<times> 'b) eff"
  assumes "\<And>b. runs (f b) (\<lambda>x ops. status_round edit ns n (fst x) ops)"
  shows "runs (retry_on_conflict k f b) (\<lambda>x ops. status_rounds edit ns n k (fst x) ops)"
proof (induction k arbitrary: b)
  case 0
  show ?case by (simp, rule runs_conseq [OF assms]) (rule status_rounds.last, simp_all)
next
  case (Suc k)
  have "runs (case x of (e, b') \<Rightarrow>
      if e = Some (EApi Conflict) then retry_on_conflict k f b' else State_Monad.return (e, b'))
      (\<lambda>y o2. status_rounds edit ns n (Suc k) (fst y) (o1 @ o2))" if "status_round edit ns n (fst x) o1"
    for x :: "goerr option \<times> 'b" and o1
    using that by (cases x)
      (auto intro!: runs_conseq [OF Suc.IH] runs_return intro: status_rounds.intros)
  then show ?case
    by (auto intro!: runs_bind runs_conseq [OF assms])
qed

lemma runs_edit_round: "runs (edit_status r ns n edit u) (\<lambda>x ops. status_round edit ns n (fst x) ops)"
  unfolding edit_status_def by (intro runs_intro) (auto intro: status_round.intros)

lemma runs_update_rounds:
  "runs (update_status r ns n edit) (\<lambda>e ops. status_rounds edit ns n (rcRetries r) e ops)"
  unfolding update_status_def
  by (rule runs_bind, rule runs_conseq [OF runs_status_rounds [OF runs_edit_round]],
      rule runs_case_prod, rule runs_return) simp

text \<open>So there are at most two requests for each retry and for the first attempt.\<close>

lemma rounds_length: "status_rounds edit ns n k e ops \<Longrightarrow> length ops \<le> 2 * (k + 1)"
proof (induction rule: status_rounds.induct)
  case (last e ops k)
  then show ?case by (auto elim: status_round.cases)
next
  case (again ops k e ops')
  then show ?case by (auto elim: status_round.cases)
qed

end
