(* ===== verification/Mesh.thy ===== *)
theory Mesh
  imports Effects
begin

text \<open>
  The pure part of \<open>src/internal/controller/mesh_fault.go\<close>: the HTTP rule of an action, the
  desired rules grouped by VirtualService, and the edits of a VirtualService object in memory.
  A function that changes its argument in place returns the changed object.
\<close>

abbreviation (input) INBOUNDDirection :: string where "INBOUNDDirection \<equiv> ''INBOUND''"
abbreviation (input) OUTBOUNDDirection :: string where "OUTBOUNDDirection \<equiv> ''OUTBOUND''"
abbreviation (input) HTTPLatency :: string where "HTTPLatency \<equiv> ''HTTP_LATENCY''"
abbreviation (input) HTTPAbort :: string where "HTTPAbort \<equiv> ''HTTP_ABORT''"

record vsDesired =
  dsRules :: "jobj list"
  dsHosts :: "string list"
  dsManaged :: bool

section \<open>The rule of an action\<close>

definition build_match :: "meshFaultAction \<Rightarrow> hTTPMatch \<Rightarrow> jobj" where
  "build_match a m =
     (let match0 =
            (if TrimSpace (hmURIPrefix m) \<noteq> [] then [(''uri'', JMap [(''prefix'', JStr (hmURIPrefix m))])]
             else if TrimSpace (hmURIExact m) \<noteq> [] then [(''uri'', JMap [(''exact'', JStr (hmURIExact m))])]
             else []);
          match1 =
            (if hmHeaders m \<noteq> []
             then mput ''headers'' (JMap (map (\<lambda>(k, v). (k, JMap [(''exact'', JStr v)])) (hmHeaders m))) match0
             else match0)
      in case hfSourceSelector (maHTTP a) of
           Some sel \<Rightarrow>
             if maDirection a = OUTBOUNDDirection \<and> lsMatchLabels sel \<noteq> []
             then mput ''sourceLabels'' (string_map (lsMatchLabels sel)) match1
             else match1
         | None \<Rightarrow> match1)"

text \<open>
  The \<open>fault\<close> field. Reading the delay of a latency action that has none, or the status of an
  abort action that has none, dereferences nil: the value \<open>None\<close>.
\<close>

definition build_fault :: "meshFaultAction \<Rightarrow> jobj option" where
  "build_fault a =
     (if maType a = HTTPLatency then
        map_option (\<lambda>d. [(''delay'', JMap
          [(''fixedDelay'', JStr (show_int (dcFixedDelaySeconds d) @ ''s'')),
           (''percentage'', JMap [(''value'', JInt (maPercent a))])])]) (hfDelay (maHTTP a))
      else if maType a = HTTPAbort then
        map_option (\<lambda>b. [(''abort'', JMap
          [(''httpStatus'', JInt (acHTTPStatus b)),
           (''percentage'', JMap [(''value'', JInt (maPercent a))])])]) (hfAbort (maHTTP a))
      else Some [])"

definition buildInjectedHTTPRule :: "faultInjection \<Rightarrow> meshFaultAction \<Rightarrow> jobj option" where
  "buildInjectedHTTPRule fi a =
     (let ruleName = injectedRuleName fi a;
          matches = map (\<lambda>rt. JMap (build_match a (rtMatch rt))) (hfRoutes (maHTTP a))
      in case build_fault a of
           None \<Rightarrow> None
         | Some fault \<Rightarrow>
             (let rule = [(''name'', JStr ruleName), (''match'', JList matches), (''fault'', JMap fault)]
              in Some (case hfTimeout (maHTTP a) of
                   Some t \<Rightarrow>
                     if tcTimeoutSeconds t > 0
                     then mput ''timeout'' (JStr (show_int (tcTimeoutSeconds t) @ ''s'')) rule
                     else rule
                 | None \<Rightarrow> rule)))"

section \<open>The desired state\<close>

definition zero_desired :: vsDesired where
  "zero_desired = \<lparr>dsRules = [], dsHosts = [], dsManaged = False\<rparr>"

definition desired_at :: "string \<Rightarrow> vsDesired gomap \<Rightarrow> vsDesired" where
  "desired_at k m = (case mget k m of None \<Rightarrow> zero_desired | Some d \<Rightarrow> d)"

text \<open>
  The body of the loop over the actions, on the desired map and the set of keys of managed
  VirtualServices. A nil \<open>virtualServiceRef\<close> of an INBOUND action is a nil dereference.
\<close>

definition desired_step ::
  "faultInjection \<Rightarrow> meshFaultAction \<Rightarrow> vsDesired gomap \<Rightarrow> string list \<Rightarrow>
   (vsDesired gomap \<times> string list) option" where
  "desired_step fi a byTarget managed =
     (if maDirection a = INBOUNDDirection then
        (case hfVirtualServiceRef (maHTTP a) of
           None \<Rightarrow> None
         | Some ref \<Rightarrow>
             (case buildInjectedHTTPRule fi a of
                None \<Rightarrow> None
              | Some rule \<Rightarrow>
                  (let key = joinKey (fiNamespace fi) (vrName ref);
                       d = desired_at key byTarget;
                       d = d\<lparr>dsRules := dsRules d @ [rule]\<rparr>
                   in Some (mput key d byTarget, managed))))
      else if maDirection a = OUTBOUNDDirection then
        (case buildInjectedHTTPRule fi a of
           None \<Rightarrow> None
         | Some rule \<Rightarrow>
             (let key = joinKey (fiNamespace fi) (managedOutboundVSName fi a);
                  d = desired_at key byTarget;
                  d = d\<lparr>dsManaged := True,
                        dsHosts := uniqueAppend (dsHosts d) (hfDestinationHosts (maHTTP a)),
                        dsRules := dsRules d @ [rule]\<rparr>
              in Some (mput key d byTarget, List.insert key managed)))
      else Some (byTarget, managed))"

fun desired_loop ::
  "faultInjection \<Rightarrow> meshFaultAction list \<Rightarrow> vsDesired gomap \<Rightarrow> string list \<Rightarrow>
   (vsDesired gomap \<times> string list) option" where
  "desired_loop fi [] byTarget managed = Some (byTarget, managed)"
| "desired_loop fi (a # as) byTarget managed =
     (case desired_step fi a byTarget managed of
        None \<Rightarrow> None
      | Some (byTarget', managed') \<Rightarrow> desired_loop fi as byTarget' managed')"

definition rule_name :: "jobj \<Rightarrow> string" where
  "rule_name rule = getString rule ''name''"

definition sort_desired :: "vsDesired \<Rightarrow> vsDesired" where
  "sort_desired d = d\<lparr>dsRules := sort_key rule_name (dsRules d)\<rparr>"

definition buildDesiredByVSTarget ::
  "faultInjection \<Rightarrow> (vsDesired gomap \<times> string list) option" where
  "buildDesiredByVSTarget fi =
     map_option (\<lambda>(byTarget, managed). (map (\<lambda>(k, d). (k, sort_desired d)) byTarget, managed))
       (desired_loop fi (meshFaults fi) [] [])"

section \<open>Edits of a VirtualService\<close>

text \<open>\<open>vs.Object["spec"]\<close> as a map, an empty one when it is missing or something else.\<close>

definition spec_of :: "vsObj \<Rightarrow> jobj" where
  "spec_of vs = (case as_map (vsSpec vs) of None \<Rightarrow> [] | Some m \<Rightarrow> m)"

text \<open>\<open>spec["http"]\<close> as a list, empty when it is missing or something else.\<close>

definition http_of :: "vsObj \<Rightarrow> jval list" where
  "http_of vs = (case as_list (mget ''http'' (spec_of vs)) of None \<Rightarrow> [] | Some l \<Rightarrow> l)"

definition set_http :: "vsObj \<Rightarrow> jval list \<Rightarrow> vsObj" where
  "set_http vs http = vs\<lparr>vsSpec := Some (JMap (mput ''http'' (JList http) (spec_of vs)))\<rparr>"

text \<open>Whether an element of the list is a rule whose name has the prefix.\<close>

fun injected :: "string \<Rightarrow> jval \<Rightarrow> bool" where
  "injected prefix (JMap rule) = HasPrefix (rule_name rule) prefix"
| "injected prefix _ = False"

definition patchVirtualServiceHTTP :: "vsObj \<Rightarrow> string \<Rightarrow> jobj list \<Rightarrow> vsObj \<times> bool" where
  "patchVirtualServiceHTTP vs injectedPrefix desiredRules =
     (let existing = http_of vs;
          filtered = filter (\<lambda>item. \<not> injected injectedPrefix item) existing;
          newHTTP = map JMap desiredRules @ filtered;
          changed = (\<not> deepEqualHTTP existing newHTTP)
      in (set_http vs newHTTP, changed))"

fun find_route :: "jval list \<Rightarrow> jval list option" where
  "find_route [] = None"
| "find_route (JMap rule # items) =
     (case as_list (mget ''route'' rule) of
        Some rt \<Rightarrow> if rt \<noteq> [] then Some (cloneAnySlice rt) else find_route items
      | None \<Rightarrow> find_route items)"
| "find_route (_ # items) = find_route items"

definition findAnyExistingRoute :: "vsObj \<Rightarrow> jval list option" where
  "findAnyExistingRoute vs =
     (case as_map (vsSpec vs) of
        None \<Rightarrow> None
      | Some spec \<Rightarrow>
          (case as_list (mget ''http'' spec) of
             None \<Rightarrow> None
           | Some httpList \<Rightarrow> find_route httpList))"

definition routable :: "jobj \<Rightarrow> bool" where
  "routable rule \<longleftrightarrow> mget ''route'' rule \<noteq> None \<or> mget ''redirect'' rule \<noteq> None
     \<or> mget ''direct_response'' rule \<noteq> None"

definition ensureHTTPRuleHasRoute :: "jobj \<Rightarrow> jval list \<Rightarrow> jobj" where
  "ensureHTTPRuleHasRoute rule baseRoute =
     (if mget ''route'' rule \<noteq> None then rule
      else if mget ''redirect'' rule \<noteq> None then rule
      else if mget ''direct_response'' rule \<noteq> None then rule
      else mput ''route'' (JList (cloneAnySlice baseRoute)) rule)"

definition buildManagedOutboundDefaultRoute :: "string list \<Rightarrow> jval list" where
  "buildManagedOutboundDefaultRoute hosts =
     (let dstHost = (case hosts of [] \<Rightarrow> [] | h # _ \<Rightarrow> h)
      in [JMap [(''destination'', JMap [(''host'', JStr dstHost)])]])"

definition match_all :: jval where
  "match_all = JList [JMap [(''uri'', JMap [(''prefix'', JStr ''/'')])]]"

definition ensureVSHasAtLeastOneDefaultRouteRule :: "vsObj \<Rightarrow> string list \<Rightarrow> vsObj" where
  "ensureVSHasAtLeastOneDefaultRouteRule vs hosts =
     (if http_of vs \<noteq> [] then vs
      else set_http vs
        [JMap [(''name'', JStr ''default''), (''match'', match_all),
               (''route'', JList (buildManagedOutboundDefaultRoute hosts))]])"

definition ensureManagedOutboundVSGatewaysMesh :: "vsObj \<Rightarrow> bool \<Rightarrow> vsObj \<times> bool" where
  "ensureManagedOutboundVSGatewaysMesh vs managed =
     (if \<not> managed then (vs, False)
      else
        (let spec = spec_of vs in
         case as_list (mget ''gateways'' spec) of
           Some arr \<Rightarrow>
             if JStr ''mesh'' \<in> set arr then (vs, False)
             else (vs\<lparr>vsSpec := Some (JMap (mput ''gateways'' (JList [JStr ''mesh'']) spec))\<rparr>, True)
         | None \<Rightarrow> (vs\<lparr>vsSpec := Some (JMap (mput ''gateways'' (JList [JStr ''mesh'']) spec))\<rparr>, True)))"

text \<open>The VirtualService \<open>getOrCreateVirtualService\<close> creates, before its owner reference is set.\<close>

definition new_managed_vs :: "faultInjection \<Rightarrow> string \<Rightarrow> string \<Rightarrow> vsDesired \<Rightarrow> vsObj" where
  "new_managed_vs fi vsNS vsName desired =
     \<lparr>vsMeta = new_meta vsNS vsName
        [(''managed-by'', ''fi-operator''), (''chaos.sghaida.io/fi'', fiName fi)] [],
      vsSpec = Some (JMap
        [(''hosts'', JList (toAnySlice (dsHosts desired))),
         (''gateways'', JList [JStr ''mesh'']),
         (''http'', JList [JMap
            [(''name'', JStr (''default-'' @ fiName fi)),
             (''match'', match_all),
             (''route'', JList (buildManagedOutboundDefaultRoute (dsHosts desired)))]])])\<rparr>"

section \<open>The ownership of rules as an interface\<close>

text \<open>
  An object that holds a list, read and written as a whole: writing is observed by reading, and
  the last write wins.
\<close>

locale rule_lens =
  fixes get :: "'v \<Rightarrow> 'r list" and put :: "'v \<Rightarrow> 'r list \<Rightarrow> 'v"
  assumes get_put [simp]: "get (put v a) = a"
    and put_put [simp]: "put (put v a) b = put v b"

text \<open>
  What cleanup and repeated reconciles rely on: a patch replaces the rules this owner put into
  the object by new ones in front, and leaves every other rule alone.
\<close>

locale owned_rules = rule_lens get put
  for get :: "'v \<Rightarrow> 'r list" and put :: "'v \<Rightarrow> 'r list \<Rightarrow> 'v" +
  fixes owned :: "'r \<Rightarrow> bool" and rule :: "'d \<Rightarrow> 'r" and patch :: "'v \<Rightarrow> 'd list \<Rightarrow> 'v"
  assumes patch_eq: "patch v ds = put v (map rule ds @ filter (\<lambda>x. \<not> owned x) (get v))"
begin

lemma get_patch: "get (patch v ds) = map rule ds @ filter (\<lambda>x. \<not> owned x) (get v)"
  by (simp add: patch_eq)

lemma others_kept:
  "\<forall>d \<in> set ds. owned (rule d) \<Longrightarrow>
   filter (\<lambda>x. \<not> owned x) (get (patch v ds)) = filter (\<lambda>x. \<not> owned x) (get v)"
  by (induction ds) (auto simp: get_patch)

lemma patch_patch: "\<forall>d \<in> set ds. owned (rule d) \<Longrightarrow> patch (patch v ds) es = patch v es"
  using others_kept [of ds v] by (simp add: patch_eq [of "patch v ds"]) (simp add: patch_eq)

lemma patch_clean: "x \<in> set (get (patch v [])) \<Longrightarrow> \<not> owned x"
  by (simp add: get_patch)

lemma patch_undo:
  "\<forall>d \<in> set ds. owned (rule d) \<Longrightarrow> \<forall>x \<in> set (get v). \<not> owned x \<Longrightarrow>
   get (patch (patch v ds) []) = get v"
  by (simp add: patch_patch get_patch)

end

lemma http_of_set_http [simp]: "http_of (set_http vs l) = l"
  by (simp add: http_of_def set_http_def spec_of_def)

lemma spec_of_set_http: "spec_of (set_http vs l) = mput ''http'' (JList l) (spec_of vs)"
  by (simp add: set_http_def spec_of_def)

lemma set_http_twice [simp]: "set_http (set_http vs a) b = set_http vs b"
  by (simp add: set_http_def spec_of_def)

lemma vsMeta_set_http [simp]: "vsMeta (set_http vs l) = vsMeta vs"
  by (simp add: set_http_def)

interpretation http: owned_rules http_of set_http "injected p" JMap
    "\<lambda>vs ds. fst (patchVirtualServiceHTTP vs p ds)" for p
  by unfold_locales (simp_all add: patchVirtualServiceHTTP_def Let_def)

lemma patch_changed:
  "snd (patchVirtualServiceHTTP vs p ds) \<longleftrightarrow>
     \<not> deepEqualHTTP (http_of vs) (http_of (fst (patchVirtualServiceHTTP vs p ds)))"
  by (simp add: patchVirtualServiceHTTP_def Let_def)

lemma patch_frame:
  "k \<noteq> ''http'' \<Longrightarrow> mget k (spec_of (fst (patchVirtualServiceHTTP vs p ds))) = mget k (spec_of vs)"
  by (simp add: patchVirtualServiceHTTP_def Let_def spec_of_set_http)

lemma vsMeta_patch [simp]: "vsMeta (fst (patchVirtualServiceHTTP vs p ds)) = vsMeta vs"
  by (simp add: patchVirtualServiceHTTP_def Let_def)

lemma injected_JMap [simp]: "injected p (JMap d) \<longleftrightarrow> HasPrefix (rule_name d) p"
  by simp

section \<open>The rule of an action\<close>

text \<open>The share of traffic a rule affects: \<open>fault.delay.percentage.value\<close> or \<open>fault.abort...\<close>.\<close>

definition fault_percent :: "jobj \<Rightarrow> string \<Rightarrow> int option" where
  "fault_percent fault kind =
     (case as_map (mget kind fault) of
        Some d \<Rightarrow> (case as_map (mget ''percentage'' d) of
            Some p \<Rightarrow> (case mget ''value'' p of Some (JInt i) \<Rightarrow> Some i | _ \<Rightarrow> None)
          | None \<Rightarrow> None)
      | None \<Rightarrow> None)"

definition rule_percent :: "jobj \<Rightarrow> int option" where
  "rule_percent rule =
     (case as_map (mget ''fault'' rule) of
        Some f \<Rightarrow> (case fault_percent f ''delay'' of
            Some i \<Rightarrow> Some i
          | None \<Rightarrow> fault_percent f ''abort'')
      | None \<Rightarrow> None)"

lemma build_fault_Some:
  "(maType a = HTTPLatency \<Longrightarrow> hfDelay (maHTTP a) \<noteq> None) \<Longrightarrow>
   (maType a = HTTPAbort \<Longrightarrow> hfAbort (maHTTP a) \<noteq> None) \<Longrightarrow> \<exists>f. build_fault a = Some f"
  by (auto simp: build_fault_def)

lemma buildInjectedHTTPRule_fields:
  assumes "buildInjectedHTTPRule fi a = Some r"
  shows "mget ''name'' r = Some (JStr (injectedRuleName fi a))"
    and "mget ''match'' r = Some (JList (map (\<lambda>rt. JMap (build_match a (rtMatch rt))) (hfRoutes (maHTTP a))))"
    and "\<exists>f. build_fault a = Some f \<and> mget ''fault'' r = Some (JMap f)"
    and "set (mkeys r) \<subseteq> {''name'', ''match'', ''fault'', ''timeout''}"
    and "distinct (mkeys r)"
  using assms
  by (auto simp: buildInjectedHTTPRule_def Let_def mkeys_def split: option.splits if_splits)

lemma rule_name_built: "buildInjectedHTTPRule fi a = Some r \<Longrightarrow> rule_name r = injectedRuleName fi a"
  using buildInjectedHTTPRule_fields(1) by (simp add: rule_name_def getString_JStr)

lemma rule_built_prefix:
  "buildInjectedHTTPRule fi a = Some r \<Longrightarrow> HasPrefix (rule_name r) (fiRuleNamePrefix fi)"
  by (simp add: rule_name_built)

lemma rule_built_not_routable: "buildInjectedHTTPRule fi a = Some r \<Longrightarrow> \<not> routable r"
  using buildInjectedHTTPRule_fields(4) [of fi a r] by (auto simp: routable_def mget_None_iff)

lemma rule_percent_built:
  assumes "buildInjectedHTTPRule fi a = Some r" "maType a \<in> {HTTPLatency, HTTPAbort}"
  shows "rule_percent r = Some (maPercent a)"
proof -
  obtain f where f: "build_fault a = Some f" "mget ''fault'' r = Some (JMap f)"
    using buildInjectedHTTPRule_fields(3) [OF assms(1)] by blast
  then show ?thesis using assms(2)
    by (auto simp: rule_percent_def fault_percent_def build_fault_def split: if_splits)
qed

section \<open>Routes\<close>

lemma ensure_route_routable: "routable (ensureHTTPRuleHasRoute r base)"
  by (auto simp: ensureHTTPRuleHasRoute_def routable_def)

lemma ensure_route_other:
  "k \<noteq> ''route'' \<Longrightarrow> mget k (ensureHTTPRuleHasRoute r base) = mget k r"
  by (auto simp: ensureHTTPRuleHasRoute_def)

lemma ensure_route_name [simp]: "rule_name (ensureHTTPRuleHasRoute r base) = rule_name r"
  by (simp add: rule_name_def getString_def ensure_route_other)

lemma ensure_route_percent [simp]: "rule_percent (ensureHTTPRuleHasRoute r base) = rule_percent r"
  by (simp add: rule_percent_def ensure_route_other)

lemma ensure_route_new:
  "\<not> routable r \<Longrightarrow> mget ''route'' (ensureHTTPRuleHasRoute r base) = Some (JList base)"
  by (auto simp: ensureHTTPRuleHasRoute_def routable_def)

lemma find_route_sound:
  "find_route l = Some rt \<Longrightarrow> rt \<noteq> [] \<and> (\<exists>r. JMap r \<in> set l \<and> mget ''route'' r = Some (JList rt))"
proof (induction l rule: find_route.induct)
  case (2 rule items)
  then show ?case
    by (cases "mget ''route'' rule" rule: as_list.cases) (auto split: if_splits)
qed auto

lemma find_route_complete:
  "JMap r \<in> set l \<Longrightarrow> mget ''route'' r = Some (JList rt) \<Longrightarrow> rt \<noteq> [] \<Longrightarrow> find_route l \<noteq> None"
  by (induction l rule: find_route.induct) (auto split: option.splits)

definition has_route :: "jval \<Rightarrow> bool" where
  "has_route x \<longleftrightarrow>
     (case x of JMap rule \<Rightarrow> (case mget ''route'' rule of Some (JList (_ # _)) \<Rightarrow> True | _ \<Rightarrow> False)
      | _ \<Rightarrow> False)"

lemma find_route_None: "find_route l = None \<longleftrightarrow> \<not> list_ex has_route l"
proof (induction l rule: find_route.induct)
  case (2 rule items)
  then show ?case
    by (cases "mget ''route'' rule" rule: as_list.cases)
      (auto simp: has_route_def neq_Nil_conv split: list.splits)
qed (auto simp: has_route_def)

lemma findAnyExistingRoute_http: "findAnyExistingRoute vs = find_route (http_of vs)"
  by (auto simp: findAnyExistingRoute_def http_of_def spec_of_def split: option.splits)

section \<open>The desired state\<close>

text \<open>The key of the VirtualService an action is rendered into.\<close>

definition action_target :: "faultInjection \<Rightarrow> meshFaultAction \<Rightarrow> string option" where
  "action_target fi a =
     (if maDirection a = INBOUNDDirection
      then map_option (\<lambda>ref. joinKey (fiNamespace fi) (vrName ref)) (hfVirtualServiceRef (maHTTP a))
      else if maDirection a = OUTBOUNDDirection
      then Some (joinKey (fiNamespace fi) (managedOutboundVSName fi a))
      else None)"

text \<open>The desired state of one target, read off the list of actions.\<close>

definition desired_spec :: "faultInjection \<Rightarrow> string \<Rightarrow> vsDesired \<Rightarrow> meshFaultAction list \<Rightarrow> vsDesired" where
  "desired_spec fi k d as =
     (let mine = filter (\<lambda>a. action_target fi a = Some k) as;
          out = filter (\<lambda>a. maDirection a = OUTBOUNDDirection) mine
      in \<lparr>dsRules = dsRules d @ map (\<lambda>a. the (buildInjectedHTTPRule fi a)) mine,
          dsHosts = foldl (\<lambda>h a. uniqueAppend h (hfDestinationHosts (maHTTP a))) (dsHosts d) out,
          dsManaged = (dsManaged d \<or> out \<noteq> [])\<rparr>)"

lemma desired_at_mput [simp]: "desired_at k (mput j d m) = (if k = j then d else desired_at k m)"
  by (simp add: desired_at_def)

lemma desired_spec_Cons:
  "desired_spec fi k d (a # as) = desired_spec fi k (desired_spec fi k d [a]) as"
  by (simp add: desired_spec_def Let_def)

lemma desired_step_spec:
  "desired_step fi a m mg = Some (m', mg') \<Longrightarrow> desired_at k m' = desired_spec fi k (desired_at k m) [a]"
  by (cases "desired_at k m")
    (auto simp: desired_step_def desired_spec_def action_target_def Let_def
      split: if_splits option.splits)

lemma desired_step_keys:
  "desired_step fi a m mg = Some (m', mg') \<Longrightarrow>
   set (mkeys m') = set (mkeys m) \<union> {k. action_target fi a = Some k}"
  by (auto simp: desired_step_def action_target_def Let_def split: if_splits option.splits)

lemma desired_step_managed:
  "desired_step fi a m mg = Some (m', mg') \<Longrightarrow>
   set mg' = set mg \<union> {k. maDirection a = OUTBOUNDDirection \<and> action_target fi a = Some k}"
  by (auto simp: desired_step_def action_target_def Let_def split: if_splits option.splits)

lemma desired_step_built:
  "desired_step fi a m mg = Some x \<Longrightarrow> action_target fi a \<noteq> None \<Longrightarrow>
   \<exists>r. buildInjectedHTTPRule fi a = Some r"
  by (auto simp: desired_step_def action_target_def split: if_splits option.splits)

lemma desired_step_distinct:
  "desired_step fi a m mg = Some (m', mg') \<Longrightarrow> distinct (mkeys m) \<Longrightarrow> distinct (mkeys m')"
  by (auto simp: desired_step_def Let_def mkeys_def split: if_splits option.splits)

lemma desired_loop_spec:
  "desired_loop fi as m mg = Some (m', mg') \<Longrightarrow> desired_at k m' = desired_spec fi k (desired_at k m) as"
proof (induction as arbitrary: m mg)
  case (Cons a as)
  then obtain m1 mg1 where "desired_step fi a m mg = Some (m1, mg1)"
    and "desired_loop fi as m1 mg1 = Some (m', mg')"
    by (auto split: option.splits)
  then show ?case
    using Cons.IH [of m1 mg1] desired_step_spec [of fi a m mg m1 mg1 k] by (simp add: desired_spec_Cons [of _ _ _ a as])
qed (simp add: desired_spec_def)

lemma desired_loop_keys:
  "desired_loop fi as m mg = Some (m', mg') \<Longrightarrow>
   set (mkeys m') = set (mkeys m) \<union> {k. \<exists>a \<in> set as. action_target fi a = Some k}"
proof (induction as arbitrary: m mg)
  case (Cons a as)
  then obtain m1 mg1 where "desired_step fi a m mg = Some (m1, mg1)"
    and "desired_loop fi as m1 mg1 = Some (m', mg')"
    by (auto split: option.splits)
  then show ?case using Cons.IH [of m1 mg1] desired_step_keys [of fi a m mg m1 mg1] by auto
qed simp

lemma desired_loop_managed:
  "desired_loop fi as m mg = Some (m', mg') \<Longrightarrow>
   set mg' = set mg \<union> {k. \<exists>a \<in> set as. maDirection a = OUTBOUNDDirection \<and> action_target fi a = Some k}"
proof (induction as arbitrary: m mg)
  case (Cons a as)
  then obtain m1 mg1 where "desired_step fi a m mg = Some (m1, mg1)"
    and "desired_loop fi as m1 mg1 = Some (m', mg')"
    by (auto split: option.splits)
  then show ?case using Cons.IH [of m1 mg1] desired_step_managed [of fi a m mg m1 mg1] by auto
qed simp

lemma desired_loop_built:
  "desired_loop fi as m mg = Some (m', mg') \<Longrightarrow> a \<in> set as \<Longrightarrow> action_target fi a \<noteq> None \<Longrightarrow>
   \<exists>r. buildInjectedHTTPRule fi a = Some r"
proof (induction as arbitrary: m mg)
  case (Cons b as)
  then show ?case using desired_step_built [of fi b m mg] by (auto split: option.splits)
qed simp

lemma desired_loop_distinct:
  "desired_loop fi as m mg = Some (m', mg') \<Longrightarrow> distinct (mkeys m) \<Longrightarrow> distinct (mkeys m')"
proof (induction as arbitrary: m mg)
  case (Cons b as)
  then show ?case using desired_step_distinct [of fi b m mg] by (auto split: option.splits)
qed simp

text \<open>An action the loop can render: the pointers it reads are not nil.\<close>

definition renderable :: "meshFaultAction \<Rightarrow> bool" where
  "renderable a \<longleftrightarrow>
     (maDirection a = INBOUNDDirection \<longrightarrow> hfVirtualServiceRef (maHTTP a) \<noteq> None)
     \<and> (maType a = HTTPLatency \<longrightarrow> hfDelay (maHTTP a) \<noteq> None)
     \<and> (maType a = HTTPAbort \<longrightarrow> hfAbort (maHTTP a) \<noteq> None)"

lemma renderable_rule: "renderable a \<Longrightarrow> \<exists>r. buildInjectedHTTPRule fi a = Some r"
  using build_fault_Some [of a]
  by (auto simp: renderable_def buildInjectedHTTPRule_def Let_def split: option.splits)

lemma desired_step_total: "renderable a \<Longrightarrow> \<exists>m' mg'. desired_step fi a m mg = Some (m', mg')"
  using renderable_rule [of a fi]
  by (auto simp: renderable_def desired_step_def Let_def split: option.splits)

lemma desired_loop_total:
  "\<forall>a \<in> set as. renderable a \<Longrightarrow> \<exists>x. desired_loop fi as m mg = Some x"
proof (induction as arbitrary: m mg)
  case (Cons a as)
  then obtain m1 mg1 where "desired_step fi a m mg = Some (m1, mg1)"
    using desired_step_total by fastforce
  then show ?case using Cons by simp
qed simp

lemma mget_map_val: "mget k (map (\<lambda>(k, d). (k, f d)) m) = map_option f (mget k m)"
  by (induction m) auto

lemma mkeys_map_val [simp]: "mkeys (map (\<lambda>(k, d). (k, f d)) m) = mkeys m"
  by (auto simp: mkeys_def)

text \<open>
  Every rule in the desired map is the rule of one of the actions, rendered into that target.
\<close>

lemma desired_rule_action:
  assumes "buildDesiredByVSTarget fi = Some (m, mg)" "mget k m = Some d" "r \<in> set (dsRules d)"
  shows "\<exists>a \<in> set (meshFaults fi). action_target fi a = Some k \<and> buildInjectedHTTPRule fi a = Some r"
proof -
  obtain m0 where loop: "desired_loop fi (meshFaults fi) [] [] = Some (m0, mg)"
    and m: "m = map (\<lambda>(k, d). (k, sort_desired d)) m0"
    using assms(1) by (auto simp: buildDesiredByVSTarget_def)
  obtain d0 where d0: "mget k m0 = Some d0" and d: "d = sort_desired d0"
    using assms(2) m by (auto simp: mget_map_val)
  have "d0 = desired_spec fi k zero_desired (meshFaults fi)"
    using desired_loop_spec [OF loop, of k] d0 by (simp add: desired_at_def)
  then have "r \<in> set (map (\<lambda>a. the (buildInjectedHTTPRule fi a))
      (filter (\<lambda>a. action_target fi a = Some k) (meshFaults fi)))"
    using assms(3) d by (simp add: sort_desired_def desired_spec_def zero_desired_def Let_def)
  then show ?thesis using desired_loop_built [OF loop] by fastforce
qed

section \<open>The whole desired state\<close>

text \<open>
  The desired state of every target, sorted by rule name; it is not computed (a nil dereference)
  exactly when an action lacks a pointer its direction or type needs.
\<close>

lemma desired_step_None:
  "desired_step fi a m mg = None \<longleftrightarrow>
     (maDirection a = INBOUNDDirection \<or> maDirection a = OUTBOUNDDirection) \<and> \<not> renderable a"
proof -
  have "build_fault a = None \<longleftrightarrow> maType a = HTTPLatency \<and> hfDelay (maHTTP a) = None
      \<or> maType a = HTTPAbort \<and> hfAbort (maHTTP a) = None"
    by (auto simp: build_fault_def)
  moreover have "buildInjectedHTTPRule fi a = None \<longleftrightarrow> build_fault a = None"
    by (simp add: buildInjectedHTTPRule_def Let_def split: option.split)
  ultimately show ?thesis
    unfolding desired_step_def Let_def renderable_def
    by (auto split: option.split)
qed

lemma desired_loop_None:
  "desired_loop fi as m mg = None \<longleftrightarrow>
     (\<exists>a \<in> set as. (maDirection a = INBOUNDDirection \<or> maDirection a = OUTBOUNDDirection) \<and> \<not> renderable a)"
proof (induction as arbitrary: m mg)
  case (Cons a as)
  show ?case
  proof (cases "desired_step fi a m mg")
    case None
    then show ?thesis using desired_step_None [of fi a m mg] by simp
  next
    case (Some x)
    then have "\<not> ((maDirection a = INBOUNDDirection \<or> maDirection a = OUTBOUNDDirection) \<and> \<not> renderable a)"
      using desired_step_None [of fi a m mg] by simp
    then show ?thesis using Some Cons.IH by (cases x) auto
  qed
qed simp

lemma desired_at_sorted: "desired_at k (map (\<lambda>(k, d). (k, sort_desired d)) m) = sort_desired (desired_at k m)"
proof -
  have "sort_desired zero_desired = zero_desired" by (simp add: sort_desired_def zero_desired_def)
  then show ?thesis by (simp add: desired_at_def mget_map_val split: option.split)
qed

lemma buildDesired_spec:
  "map_option (\<lambda>(m, mg). desired_at k m) (buildDesiredByVSTarget fi) =
     (if \<exists>a \<in> set (meshFaults fi). (maDirection a = INBOUNDDirection \<or> maDirection a = OUTBOUNDDirection) \<and> \<not> renderable a
      then None else Some (sort_desired (desired_spec fi k zero_desired (meshFaults fi))))"
proof (cases "desired_loop fi (meshFaults fi) [] []")
  case None
  then show ?thesis using desired_loop_None [of fi "meshFaults fi" "[]" "[]"]
    by (simp add: buildDesiredByVSTarget_def)
next
  case (Some x)
  obtain m mg where x: "x = (m, mg)" by fastforce
  have "desired_at k m = desired_spec fi k zero_desired (meshFaults fi)"
    using desired_loop_spec [OF Some [unfolded x], of k] by (simp add: desired_at_def)
  moreover have "\<not> (\<exists>a \<in> set (meshFaults fi). (maDirection a = INBOUNDDirection \<or> maDirection a = OUTBOUNDDirection) \<and> \<not> renderable a)"
    using Some desired_loop_None [of fi "meshFaults fi" "[]" "[]"] by simp
  ultimately show ?thesis using Some x by (simp add: buildDesiredByVSTarget_def desired_at_sorted)
qed

end
