(* ===== verification/Validate.thy ===== *)
theory Validate
  imports PodOps Mesh
begin

text \<open>
  The guardrails: \<open>validateSpec\<close> of \<open>src/internal/controller/faultinjection_controller.go\<close> and
  \<open>validatePodFaults\<close> of \<open>pod_fault.go\<close>, which return the first violation they meet and count
  pods through the API server, and the declarative specification they are proved equivalent to.
\<close>

section \<open>Mesh actions\<close>

fun route_error :: "string \<Rightarrow> nat \<Rightarrow> hTTPRouteTarget list \<Rightarrow> goerr option" where
  "route_error name i [] = None"
| "route_error name i (rt # rts) =
     (if TrimSpace (hmURIPrefix (rtMatch rt)) = [] \<and> TrimSpace (hmURIExact (rtMatch rt)) = []
      then Some (ERoute name i) else route_error name (Suc i) rts)"

definition type_error :: "meshFaultAction \<Rightarrow> goerr option" where
  "type_error a =
     (if maType a = HTTPLatency then
        (case hfDelay (maHTTP a) of
           None \<Rightarrow> Some (ENoDelay (maName a))
         | Some d \<Rightarrow> if dcFixedDelaySeconds d \<le> 0 then Some (ENoDelay (maName a)) else None)
      else if maType a = HTTPAbort then
        (case hfAbort (maHTTP a) of
           None \<Rightarrow> Some (ENoAbort (maName a))
         | Some b \<Rightarrow> if acHTTPStatus b < 100 then Some (ENoAbort (maName a)) else None)
      else Some (EType (maName a) (maType a)))"

definition direction_error :: "meshFaultAction \<Rightarrow> goerr option" where
  "direction_error a =
     (if maDirection a = INBOUNDDirection then
        (case hfVirtualServiceRef (maHTTP a) of
           None \<Rightarrow> Some (ENoVSRef (maName a))
         | Some ref \<Rightarrow> if TrimSpace (vrName ref) = [] then Some (ENoVSRef (maName a)) else None)
      else if maDirection a = OUTBOUNDDirection then
        (if hfDestinationHosts (maHTTP a) = [] then Some (ENoHosts (maName a)) else None)
      else Some (EDirection (maName a) (maDirection a)))"

text \<open>The checks of one action before the pods are counted.\<close>

definition mesh_action_error :: "blastRadiusSpec \<Rightarrow> meshFaultAction \<Rightarrow> goerr option" where
  "mesh_action_error br a =
     (if maPercent a > brMaxTrafficPercent br
      then Some (ETraffic (maName a) (maPercent a) (brMaxTrafficPercent br))
      else case type_error a of
        Some e \<Rightarrow> Some e
      | None \<Rightarrow> (case route_error (maName a) 0 (hfRoutes (maHTTP a)) of
            Some e \<Rightarrow> Some e
          | None \<Rightarrow> direction_error a))"

definition source_labels :: "meshFaultAction \<Rightarrow> string gomap" where
  "source_labels a =
     (case hfSourceSelector (maHTTP a) of Some sel \<Rightarrow> lsMatchLabels sel | None \<Rightarrow> [])"

definition validate_mesh_action ::
  "'w reconciler \<Rightarrow> faultInjection \<Rightarrow> meshFaultAction \<Rightarrow> ('w, goerr option) eff" where
  "validate_mesh_action r fi a =
     (let br = spBlastRadius (fiSpec fi) in
      case mesh_action_error br a of
        Some e \<Rightarrow> State_Monad.return (Some e)
      | None \<Rightarrow>
          if brMaxPodsAffected br > 0 then
            (if source_labels a = []
             then State_Monad.return (Some (ENoSourceLabels (brMaxPodsAffected br) (maName a)))
             else do {
               c \<leftarrow> countPods r (fiNamespace fi) (source_labels a);
               State_Monad.return (case c of
                 Inl e \<Rightarrow> Some (ECountPods (maName a) e)
               | Inr n \<Rightarrow>
                   if n > brMaxPodsAffected br
                   then Some (EPodsExceeded (maName a) n (brMaxPodsAffected br)) else None)
             })
          else State_Monad.return None)"

text \<open>A loop that returns the first error of its body.\<close>

fun each_until_error :: "('b \<Rightarrow> ('w, goerr option) eff) \<Rightarrow> 'b list \<Rightarrow> ('w, goerr option) eff" where
  "each_until_error f [] = State_Monad.return None"
| "each_until_error f (a # as) = do {
     e \<leftarrow> f a;
     (case e of Some err \<Rightarrow> State_Monad.return (Some err) | None \<Rightarrow> each_until_error f as)
   }"

section \<open>Pod actions\<close>

definition window_error :: "podFaultAction \<Rightarrow> goerr option" where
  "window_error a =
     (if resolvePodFaultMode a = ExecutionModeWindowed then
        (case paWindow a of
           None \<Rightarrow> Some (EPFWindowMissing (paName a))
         | Some w \<Rightarrow>
             if pwIntervalSeconds w < 1 then Some (EPFInterval (paName a))
             else if pwMaxTotalPodsAffected w < 1 then Some (EPFMaxTotal (paName a))
             else None)
      else if paWindow a \<noteq> None then Some (EPFWindowForbidden (paName a))
      else None)"

definition selection_error :: "podFaultAction \<Rightarrow> goerr option" where
  "selection_error a =
     (if psMode (paSelection a) = PodSelectionModeCount then
        (case psCount (paSelection a) of
           None \<Rightarrow> Some (EPFCount (paName a))
         | Some c \<Rightarrow> if c < 1 then Some (EPFCount (paName a)) else None)
      else if psMode (paSelection a) = PodSelectionModePercent then
        (case psPercent (paSelection a) of
           None \<Rightarrow> Some (EPFPercent (paName a))
         | Some p \<Rightarrow> if p < 1 \<or> p > 100 then Some (EPFPercent (paName a)) else None)
      else Some (EPFMode (paName a) (psMode (paSelection a))))"

definition pod_action_error :: "faultInjection \<Rightarrow> podFaultAction \<Rightarrow> goerr option" where
  "pod_action_error fi a =
     (let targetNS = TrimSpace (ptNamespace (paTarget a)) in
      if targetNS \<noteq> [] \<and> targetNS \<noteq> fiNamespace fi
      then Some (EPFNamespace (paName a) (ptNamespace (paTarget a)) (fiNamespace fi))
      else case window_error a of
        Some e \<Rightarrow> Some e
      | None \<Rightarrow> (case selection_error a of
          Some e \<Rightarrow> Some e
        | None \<Rightarrow>
            if trMode (paTermination a) = PodTerminationModeForceful
               \<and> trGracePeriodSeconds (paTermination a) \<noteq> 0 then Some (EPFForceful (paName a))
            else if trMode (paTermination a) = PodTerminationModeGraceful
               \<and> trGracePeriodSeconds (paTermination a) \<le> 0 then Some (EPFGraceful (paName a))
            else if pgRefuseIfPodsLessThan (paGuardrails a) < 1 then Some (EPFRefuse (paName a))
            else None))"

definition validate_pod_action ::
  "'w reconciler \<Rightarrow> faultInjection \<Rightarrow> podFaultAction \<Rightarrow> ('w, goerr option) eff" where
  "validate_pod_action r fi a =
     (case pod_action_error fi a of
        Some e \<Rightarrow> State_Monad.return (Some e)
      | None \<Rightarrow>
          let targetNS = resolvePodFaultTargetNS fi a in do {
            c \<leftarrow> countPods r targetNS (lsMatchLabels (ptSelector (paTarget a)));
            State_Monad.return (case c of
              Inl e \<Rightarrow> Some (EPFCountPods (paName a) e)
            | Inr n \<Rightarrow>
                if to_i32 n < pgRefuseIfPodsLessThan (paGuardrails a)
                then Some (EPFTooFew (paName a) (pgRefuseIfPodsLessThan (paGuardrails a)) n targetNS)
                else None)
          })"

definition validatePodFaults :: "'w reconciler \<Rightarrow> faultInjection \<Rightarrow> ('w, goerr option) eff" where
  "validatePodFaults r fi = each_until_error (validate_pod_action r fi) (podFaults fi)"

definition validateSpec :: "'w reconciler \<Rightarrow> faultInjection \<Rightarrow> ('w, goerr option) eff" where
  "validateSpec r fi =
     (if brDurationSeconds (spBlastRadius (fiSpec fi)) \<le> 0 then State_Monad.return (Some EDuration)
      else do {
        e \<leftarrow> each_until_error (validate_mesh_action r fi) (meshFaults fi);
        (case e of
           Some err \<Rightarrow> State_Monad.return (Some err)
         | None \<Rightarrow> validatePodFaults r fi)
      })"

section \<open>The declarative specification\<close>

definition mesh_action_ok :: "blastRadiusSpec \<Rightarrow> meshFaultAction \<Rightarrow> bool" where
  "mesh_action_ok br a \<longleftrightarrow>
     maPercent a \<le> brMaxTrafficPercent br
     \<and> (maType a = HTTPLatency \<and> (\<exists>d. hfDelay (maHTTP a) = Some d \<and> dcFixedDelaySeconds d > 0)
        \<or> maType a = HTTPAbort \<and> (\<exists>b. hfAbort (maHTTP a) = Some b \<and> acHTTPStatus b \<ge> 100))
     \<and> (\<forall>rt \<in> set (hfRoutes (maHTTP a)).
          TrimSpace (hmURIPrefix (rtMatch rt)) \<noteq> [] \<or> TrimSpace (hmURIExact (rtMatch rt)) \<noteq> [])
     \<and> (maDirection a = INBOUNDDirection
          \<and> (\<exists>ref. hfVirtualServiceRef (maHTTP a) = Some ref \<and> TrimSpace (vrName ref) \<noteq> [])
        \<or> maDirection a = OUTBOUNDDirection \<and> hfDestinationHosts (maHTTP a) \<noteq> [])
     \<and> (brMaxPodsAffected br > 0 \<longrightarrow> source_labels a \<noteq> [])"

definition pod_action_ok :: "faultInjection \<Rightarrow> podFaultAction \<Rightarrow> bool" where
  "pod_action_ok fi a \<longleftrightarrow>
     resolvePodFaultTargetNS fi a = fiNamespace fi
     \<and> (if resolvePodFaultMode a = ExecutionModeWindowed
        then \<exists>w. paWindow a = Some w \<and> pwIntervalSeconds w \<ge> 1 \<and> pwMaxTotalPodsAffected w \<ge> 1
        else paWindow a = None)
     \<and> (psMode (paSelection a) = PodSelectionModeCount \<and> (\<exists>c. psCount (paSelection a) = Some c \<and> c \<ge> 1)
        \<or> psMode (paSelection a) = PodSelectionModePercent
          \<and> (\<exists>p. psPercent (paSelection a) = Some p \<and> 1 \<le> p \<and> p \<le> 100))
     \<and> (trMode (paTermination a) = PodTerminationModeForceful \<longrightarrow> trGracePeriodSeconds (paTermination a) = 0)
     \<and> (trMode (paTermination a) = PodTerminationModeGraceful \<longrightarrow> trGracePeriodSeconds (paTermination a) > 0)
     \<and> pgRefuseIfPodsLessThan (paGuardrails a) \<ge> 1"

definition spec_ok :: "faultInjection \<Rightarrow> bool" where
  "spec_ok fi \<longleftrightarrow> brDurationSeconds (spBlastRadius (fiSpec fi)) \<ge> 1
     \<and> list_all (mesh_action_ok (spBlastRadius (fiSpec fi))) (meshFaults fi)
     \<and> list_all (pod_action_ok fi) (podFaults fi)"

text \<open>The counts the validation asks the server for, in order, with the bound each must meet.\<close>

definition mesh_counts :: "faultInjection \<Rightarrow> meshFaultAction \<Rightarrow> (string \<times> string gomap \<times> (int \<Rightarrow> bool)) list" where
  "mesh_counts fi a =
     (let m = brMaxPodsAffected (spBlastRadius (fiSpec fi))
      in if m > 0 then [(fiNamespace fi, source_labels a, \<lambda>n. n \<le> m)] else [])"

definition pod_counts :: "faultInjection \<Rightarrow> podFaultAction \<Rightarrow> (string \<times> string gomap \<times> (int \<Rightarrow> bool)) list" where
  "pod_counts fi a =
     [(fiNamespace fi, lsMatchLabels (ptSelector (paTarget a)),
       \<lambda>n. to_i32 n \<ge> pgRefuseIfPodsLessThan (paGuardrails a))]"

definition count_met :: "string \<times> string gomap \<times> (int \<Rightarrow> bool) \<Rightarrow> op \<Rightarrow> bool" where
  "count_met c x = (case c of (ns, ls, ok) \<Rightarrow>
     (\<exists>pods. x = OpListPods ns ls (Inr pods) \<and> ok (int (length pods))))"

definition counts_met :: "faultInjection \<Rightarrow> op list \<Rightarrow> bool" where
  "counts_met fi ops \<longleftrightarrow>
     list_all2 count_met
       (concat (map (mesh_counts fi) (meshFaults fi)) @ concat (map (pod_counts fi) (podFaults fi))) ops"

section \<open>The two agree\<close>

lemma route_error_None:
  "route_error name i rts = None \<longleftrightarrow>
     (\<forall>rt \<in> set rts. TrimSpace (hmURIPrefix (rtMatch rt)) \<noteq> [] \<or> TrimSpace (hmURIExact (rtMatch rt)) \<noteq> [])"
  by (induction rts arbitrary: i) auto

lemma type_error_None:
  "type_error a = None \<longleftrightarrow>
     (maType a = HTTPLatency \<and> (\<exists>d. hfDelay (maHTTP a) = Some d \<and> dcFixedDelaySeconds d > 0)
      \<or> maType a = HTTPAbort \<and> (\<exists>b. hfAbort (maHTTP a) = Some b \<and> acHTTPStatus b \<ge> 100))"
  by (auto simp: type_error_def split: option.splits)

lemma direction_error_None:
  "direction_error a = None \<longleftrightarrow>
     (maDirection a = INBOUNDDirection
        \<and> (\<exists>ref. hfVirtualServiceRef (maHTTP a) = Some ref \<and> TrimSpace (vrName ref) \<noteq> [])
      \<or> maDirection a = OUTBOUNDDirection \<and> hfDestinationHosts (maHTTP a) \<noteq> [])"
  by (auto simp: direction_error_def split: option.splits)

lemma mesh_action_ok_iff:
  "mesh_action_ok br a \<longleftrightarrow>
     mesh_action_error br a = None \<and> (brMaxPodsAffected br > 0 \<longrightarrow> source_labels a \<noteq> [])"
  unfolding mesh_action_ok_def mesh_action_error_def
  by (simp only: route_error_None [of "maName a" 0, symmetric] type_error_None [symmetric] direction_error_None [symmetric])
    (auto split: option.splits)

lemma selection_error_None:
  "selection_error a = None \<longleftrightarrow>
     (psMode (paSelection a) = PodSelectionModeCount \<and> (\<exists>c. psCount (paSelection a) = Some c \<and> c \<ge> 1)
      \<or> psMode (paSelection a) = PodSelectionModePercent
        \<and> (\<exists>p. psPercent (paSelection a) = Some p \<and> 1 \<le> p \<and> p \<le> 100))"
  by (auto simp: selection_error_def split: option.splits)

lemma window_error_None:
  "window_error a = None \<longleftrightarrow>
     (if resolvePodFaultMode a = ExecutionModeWindowed
      then \<exists>w. paWindow a = Some w \<and> pwIntervalSeconds w \<ge> 1 \<and> pwMaxTotalPodsAffected w \<ge> 1
      else paWindow a = None)"
  by (auto simp: window_error_def split: option.splits)

lemma pod_action_ok_iff: "pod_action_ok fi a \<longleftrightarrow> pod_action_error fi a = None"
  unfolding pod_action_ok_def pod_action_error_def resolvePodFaultTargetNS_def Let_def
  by (simp only: selection_error_None [symmetric] window_error_None [symmetric])
    (auto split: option.splits)

text \<open>Validation of a list, where each element asks for its own counts.\<close>

definition decides ::
  "(string \<times> string gomap \<times> (int \<Rightarrow> bool)) list \<Rightarrow> bool \<Rightarrow> goerr option \<Rightarrow> op list \<Rightarrow> bool" where
  "decides cs ok e ops \<longleftrightarrow>
     (e = None \<longleftrightarrow> ok \<and> list_all2 count_met cs ops) \<and> length ops \<le> length cs"

lemma decides_stop: "decides cs ok (Some e) ops \<Longrightarrow> decides (cs @ cs') (ok \<and> ok') (Some e) ops"
  unfolding decides_def by (auto simp: list_all2_append1 dest: list_all2_lengthD)

lemma decides_step: "decides cs ok None a \<Longrightarrow> decides cs' ok' e b \<Longrightarrow> decides (cs @ cs') (ok \<and> ok') e (a @ b)"
  unfolding decides_def by (auto simp: list_all2_append list_all2_appendI dest: list_all2_lengthD)

lemma runs_decides_bind:
  assumes "runs m (decides cs ok)" "runs n (decides cs' ok')"
  shows "runs (do { e \<leftarrow> m; (case e of Some err \<Rightarrow> State_Monad.return (Some err) | None \<Rightarrow> n) })
     (decides (cs @ cs') (ok \<and> ok'))"
proof (rule runs_bind, rule runs_conseq [OF assms(1)], rule runs_case_option)
  fix e ops assume d: "decides cs ok e ops" "e = None"
  show "runs n (\<lambda>b o2. decides (cs @ cs') (ok \<and> ok') b (ops @ o2))"
    using d by (intro runs_conseq [OF assms(2)]) (simp add: decides_step)
next
  fix e ops v assume "decides cs ok e ops" "e = Some v"
  then show "runs (State_Monad.return (Some v)) (\<lambda>b o2. decides (cs @ cs') (ok \<and> ok') b (ops @ o2))"
    by (intro runs_return) (simp add: decides_stop)
qed

lemma runs_each_until_error:
  "(\<And>a. a \<in> set as \<Longrightarrow> runs (f a) (decides (cs a) (ok a))) \<Longrightarrow>
   runs (each_until_error f as) (decides (concat (map cs as)) (list_all ok as))"
proof (induction as)
  case Nil
  then show ?case by (simp add: runs_return decides_def)
next
  case (Cons a as)
  then show ?case using runs_decides_bind [of "f a" "cs a" "ok a"] by simp
qed

lemma runs_mesh_action:
  "runs (validate_mesh_action r fi a)
     (decides (mesh_counts fi a) (mesh_action_ok (spBlastRadius (fiSpec fi)) a))"
  unfolding validate_mesh_action_def countPods_def
  by (intro runs_intro)
    (auto simp: decides_def mesh_action_ok_iff mesh_counts_def count_met_def Let_def
      list_all2_Cons1 split: sum.splits)

lemma runs_pod_action:
  "runs (validate_pod_action r fi a) (decides (pod_counts fi a) (pod_action_ok fi a))"
proof (cases "pod_action_error fi a")
  case None
  then have "resolvePodFaultTargetNS fi a = fiNamespace fi"
    using pod_action_ok_iff [of fi a] by (simp add: pod_action_ok_def)
  then show ?thesis
    unfolding validate_pod_action_def countPods_def using None
    by (simp, intro runs_intro)
      (auto simp: decides_def pod_action_ok_iff pod_counts_def count_met_def list_all2_Cons1
        split: sum.splits)
next
  case (Some e)
  then show ?thesis
    by (simp add: validate_pod_action_def runs_return decides_def pod_action_ok_iff)
qed

lemma runs_validateSpec:
  "runs (validateSpec r fi) (\<lambda>e ops. e = None \<longleftrightarrow> spec_ok fi \<and> counts_met fi ops)"
proof -
  have "runs (do {
        e \<leftarrow> each_until_error (validate_mesh_action r fi) (meshFaults fi);
        (case e of
           Some err \<Rightarrow> State_Monad.return (Some err)
         | None \<Rightarrow> validatePodFaults r fi) })
     (decides (concat (map (mesh_counts fi) (meshFaults fi)) @ concat (map (pod_counts fi) (podFaults fi)))
       (list_all (mesh_action_ok (spBlastRadius (fiSpec fi))) (meshFaults fi)
        \<and> list_all (pod_action_ok fi) (podFaults fi)))"
    unfolding validatePodFaults_def
    by (intro runs_decides_bind runs_each_until_error runs_mesh_action runs_pod_action)
  note checks = runs_conseq [OF this]
  show ?thesis
    unfolding validateSpec_def
    by (rule runs_if, rule runs_return, simp add: spec_ok_def, rule checks)
      (auto simp: spec_ok_def decides_def counts_met_def)
qed

text \<open>Validation reads pods and does nothing else.\<close>

fun list_pods_op :: "op \<Rightarrow> bool" where
  "list_pods_op (OpListPods _ _ _) = True"
| "list_pods_op _ = False"

lemma emits_each_until_error: "(\<And>a. emits A (f a)) \<Longrightarrow> emits A (each_until_error f as)"
  by (induction as) (auto intro!: always_intro)

lemma emits_validateSpec: "emits list_pods_op (validateSpec r fi)"
  unfolding validateSpec_def validatePodFaults_def validate_mesh_action_def validate_pod_action_def
    countPods_def listPods_def
  by (intro always_intro emits_each_until_error always_call) simp_all

text \<open>A valid spec can be rendered: no nil pointer is dereferenced.\<close>

lemma spec_ok_renderable: "spec_ok fi \<Longrightarrow> a \<in> set (meshFaults fi) \<Longrightarrow> renderable a"
  by (auto simp: spec_ok_def list_all_iff mesh_action_ok_def renderable_def)

lemma spec_ok_desired: "spec_ok fi \<Longrightarrow> \<exists>m mg. buildDesiredByVSTarget fi = Some (m, mg)"
  using desired_loop_total [of "meshFaults fi" fi "[]" "[]"] spec_ok_renderable
  by (fastforce simp: buildDesiredByVSTarget_def)

text \<open>A valid pod action is planned: only the names can fail.\<close>

lemma spec_ok_selection: "pod_action_ok fi a \<Longrightarrow> validatePodFaultSelection a = None"
  by (auto simp: pod_action_ok_def validatePodFaultSelection_def)

end
