(* ===== verification/Admission.thy ===== *)
theory Admission
  imports Validate
begin

text \<open>
  What the CRD schema admits: the kubebuilder markers and the \<open>XValidation\<close> rules on the types of
  \<open>src/api/v1alpha1\<close>, which the API server checks before the operator sees an object. A field with
  \<open>omitempty\<close> is absent when it has its zero value, and its bounds are then not checked; a field
  with a default has it. Lengths count characters. The lemmas compare what is admitted with the
  operator's own validation.
\<close>

section \<open>Fields\<close>

definition characters :: "string \<Rightarrow> nat" where
  "characters s = length (runes s)"

definition omitted_or_min :: "int \<Rightarrow> int \<Rightarrow> bool" where
  "omitted_or_min k x \<longleftrightarrow> x = 0 \<or> k \<le> x"

definition given :: "('a \<Rightarrow> bool) \<Rightarrow> 'a option \<Rightarrow> bool" where
  "given P x \<longleftrightarrow> (case x of None \<Rightarrow> True | Some v \<Rightarrow> P v)"

lemma given_simps [simp]: "given P None" "given P (Some v) \<longleftrightarrow> P v"
  by (simp_all add: given_def)

section \<open>Mesh actions\<close>

definition admits_labelSelector :: "labelSelector \<Rightarrow> bool" where
  "admits_labelSelector sel \<longleftrightarrow> lsMatchLabels sel \<noteq> []"

definition admits_delay :: "delayConfig \<Rightarrow> bool" where
  "admits_delay d \<longleftrightarrow> 1 \<le> dcFixedDelaySeconds d"

definition admits_timeout :: "timeoutConfig \<Rightarrow> bool" where
  "admits_timeout t \<longleftrightarrow> 1 \<le> tcTimeoutSeconds t"

definition admits_abort :: "abortConfig \<Rightarrow> bool" where
  "admits_abort b \<longleftrightarrow> 100 \<le> acHTTPStatus b \<and> acHTTPStatus b \<le> 599"

definition admits_ref :: "virtualServiceRef \<Rightarrow> bool" where
  "admits_ref ref \<longleftrightarrow> 1 \<le> characters (vrName ref)"

definition admits_http :: "hTTPFaultSpec \<Rightarrow> bool" where
  "admits_http h \<longleftrightarrow>
     given admits_ref (hfVirtualServiceRef h)
     \<and> length (hfDestinationHosts h) \<le> 32
     \<and> given admits_labelSelector (hfSourceSelector h)
     \<and> 1 \<le> length (hfRoutes h)
     \<and> given admits_delay (hfDelay h)
     \<and> given admits_abort (hfAbort h)
     \<and> given admits_timeout (hfTimeout h)"

definition admits_mesh :: "meshFaultAction \<Rightarrow> bool" where
  "admits_mesh a \<longleftrightarrow>
     1 \<le> characters (maName a) \<and> characters (maName a) \<le> 63
     \<and> maDirection a \<in> {INBOUNDDirection, OUTBOUNDDirection}
     \<and> maType a \<in> {HTTPLatency, HTTPAbort}
     \<and> 0 \<le> maPercent a \<and> maPercent a \<le> 100
     \<and> admits_http (maHTTP a)"

section \<open>Pod actions\<close>

definition admits_policy :: "podFaultPolicy \<Rightarrow> bool" where
  "admits_policy pol \<longleftrightarrow> ppExecutionMode pol \<in> {ExecutionModeOneShot, ExecutionModeWindowed}"

definition admits_window :: "podWindowSpec \<Rightarrow> bool" where
  "admits_window w \<longleftrightarrow> 1 \<le> pwIntervalSeconds w \<and> in_i32 (pwIntervalSeconds w) \<and> 1 \<le> pwMaxTotalPodsAffected w"

definition admits_selection :: "podSelectionSpec \<Rightarrow> bool" where
  "admits_selection s \<longleftrightarrow>
     psMode s \<in> {PodSelectionModeCount, PodSelectionModePercent}
     \<and> given (\<lambda>c. 1 \<le> c) (psCount s)
     \<and> given (\<lambda>p. 1 \<le> p \<and> p \<le> 100) (psPercent s)
     \<and> given (\<lambda>m. 1 \<le> m) (psMaxPodsAffected s)
     \<and> (psMode s = PodSelectionModeCount \<and> psCount s \<noteq> None \<and> psPercent s = None
        \<or> psMode s = PodSelectionModePercent \<and> psPercent s \<noteq> None \<and> psCount s = None)"

definition admits_termination :: "podTerminationSpec \<Rightarrow> bool" where
  "admits_termination t \<longleftrightarrow>
     trMode t \<in> {PodTerminationModeGraceful, PodTerminationModeForceful} \<and> 0 \<le> trGracePeriodSeconds t"

definition admits_guardrails :: "podGuardrailsSpec \<Rightarrow> bool" where
  "admits_guardrails g \<longleftrightarrow> 1 \<le> pgRefuseIfPodsLessThan g"

text \<open>The two rules on the whole action.\<close>

definition termination_rule :: "podTerminationSpec \<Rightarrow> bool" where
  "termination_rule t \<longleftrightarrow>
     trMode t = PodTerminationModeForceful \<and> trGracePeriodSeconds t = 0
     \<or> trMode t = PodTerminationModeGraceful \<and> trGracePeriodSeconds t > 0"

definition window_rule :: "podFaultAction \<Rightarrow> bool" where
  "window_rule a \<longleftrightarrow>
     ((case paPolicy a of Some pol \<Rightarrow> ppExecutionMode pol = ExecutionModeWindowed | None \<Rightarrow> False)
        \<and> paWindow a \<noteq> None)
     \<or> ((case paPolicy a of Some pol \<Rightarrow> ppExecutionMode pol = ExecutionModeOneShot | None \<Rightarrow> True)
        \<and> paWindow a = None)"

definition admits_pod :: "podFaultAction \<Rightarrow> bool" where
  "admits_pod a \<longleftrightarrow>
     1 \<le> characters (paName a)
     \<and> paType a = ''POD_DELETE''
     \<and> admits_labelSelector (ptSelector (paTarget a))
     \<and> admits_selection (paSelection a)
     \<and> admits_termination (paTermination a)
     \<and> given admits_policy (paPolicy a)
     \<and> given admits_window (paWindow a)
     \<and> admits_guardrails (paGuardrails a)
     \<and> termination_rule (paTermination a)
     \<and> window_rule a"

section \<open>Stop conditions\<close>

definition admits_structured :: "structuredQuery \<Rightarrow> bool" where
  "admits_structured q \<longleftrightarrow>
     1 \<le> characters (mrName (sqMetric q))
     \<and> mrType (sqMetric q) \<in> {''counter'', ''histogram'', ''summary''}
     \<and> mqKind (sqQuery q) \<in> {''rate'', ''count'', ''quantile''}
     \<and> mqAggregation (sqQuery q) \<in> {[], ''sum'', ''avg'', ''max'', ''min''}
     \<and> given (\<lambda>x. 0 \<le> x \<and> x \<le> 1) (mqQuantile (sqQuery q))"

definition admits_compare :: "metricCompare \<Rightarrow> bool" where
  "admits_compare c \<longleftrightarrow> mcOp c \<in> {''GT'', ''GTE'', ''LT'', ''LTE'', ''EQ'', ''NEQ''}"

definition admits_rule :: "stopRule \<Rightarrow> bool" where
  "admits_rule u \<longleftrightarrow>
     1 \<le> characters (srName u) \<and> characters (srName u) \<le> 63
     \<and> omitted_or_min 1 (srIntervalSeconds u)
     \<and> omitted_or_min 10 (srWindowSeconds u)
     \<and> omitted_or_min 1 (srConsecutiveBreaches u)
     \<and> given admits_structured (srStructured u)
     \<and> admits_compare (srCompare u)"

definition admits_defaults :: "stopDefaults \<Rightarrow> bool" where
  "admits_defaults d \<longleftrightarrow>
     omitted_or_min 1 (sdIntervalSeconds d)
     \<and> omitted_or_min 10 (sdWindowSeconds d)
     \<and> omitted_or_min 1 (sdConsecutiveBreaches d)"

definition admits_stop :: "stopConditionsSpec \<Rightarrow> bool" where
  "admits_stop sc \<longleftrightarrow>
     given (\<lambda>n. 1 \<le> n) (scOverallBreachesCount sc)
     \<and> given admits_defaults (scDefaults sc)
     \<and> 1 \<le> length (scRules sc)
     \<and> list_all admits_rule (scRules sc)"

section \<open>The spec\<close>

definition admits_blastRadius :: "blastRadiusSpec \<Rightarrow> bool" where
  "admits_blastRadius br \<longleftrightarrow>
     1 \<le> brDurationSeconds br
     \<and> 0 \<le> brMaxTrafficPercent br \<and> brMaxTrafficPercent br \<le> 100
     \<and> brScope br \<in> {[], ''namespace''}
     \<and> 0 \<le> brMaxPodsAffected br"

definition admits_actions :: "actionsSpec \<Rightarrow> bool" where
  "admits_actions ac \<longleftrightarrow>
     (asMeshFaults ac \<noteq> [] \<or> asPodFaults ac \<noteq> [])
     \<and> list_all admits_mesh (asMeshFaults ac)
     \<and> list_all admits_pod (asPodFaults ac)"

definition admits_spec :: "faultInjectionSpec \<Rightarrow> bool" where
  "admits_spec sp \<longleftrightarrow>
     admits_blastRadius (spBlastRadius sp)
     \<and> admits_actions (spActions sp)
     \<and> given admits_stop (spStopConditions sp)"

section \<open>What is left for the operator to check\<close>

text \<open>
  Of an admitted mesh action: the traffic bound, the part of the spec its type and its direction
  need, a URI in each match, and a source selector where pods are bounded.
\<close>

definition mesh_open :: "blastRadiusSpec \<Rightarrow> meshFaultAction \<Rightarrow> bool" where
  "mesh_open br a \<longleftrightarrow>
     maPercent a \<le> brMaxTrafficPercent br
     \<and> (if maType a = HTTPLatency then hfDelay (maHTTP a) \<noteq> None else hfAbort (maHTTP a) \<noteq> None)
     \<and> list_all (\<lambda>rt. TrimSpace (hmURIPrefix (rtMatch rt)) \<noteq> [] \<or> TrimSpace (hmURIExact (rtMatch rt)) \<noteq> [])
         (hfRoutes (maHTTP a))
     \<and> (if maDirection a = INBOUNDDirection
        then (case hfVirtualServiceRef (maHTTP a) of Some ref \<Rightarrow> TrimSpace (vrName ref) \<noteq> [] | None \<Rightarrow> False)
        else hfDestinationHosts (maHTTP a) \<noteq> [])
     \<and> (brMaxPodsAffected br = 0 \<or> hfSourceSelector (maHTTP a) \<noteq> None)"

lemma admitted_mesh:
  assumes "admits_blastRadius br" "admits_mesh a"
  shows "mesh_action_ok br a \<longleftrightarrow> mesh_open br a"
proof -
  have "hfDelay (maHTTP a) = Some d \<Longrightarrow> dcFixedDelaySeconds d > 0" for d
    using assms(2) by (auto simp: admits_mesh_def admits_http_def admits_delay_def)
  moreover have "hfAbort (maHTTP a) = Some b \<Longrightarrow> acHTTPStatus b \<ge> 100" for b
    using assms(2) by (auto simp: admits_mesh_def admits_http_def admits_abort_def)
  moreover have "source_labels a \<noteq> [] \<longleftrightarrow> hfSourceSelector (maHTTP a) \<noteq> None"
    using assms(2)
    by (auto simp: admits_mesh_def admits_http_def admits_labelSelector_def source_labels_def split: option.split)
  moreover have "brMaxPodsAffected br > 0 \<longleftrightarrow> brMaxPodsAffected br \<noteq> 0"
    using assms(1) by (auto simp: admits_blastRadius_def)
  moreover have "maType a = HTTPLatency \<or> maType a = HTTPAbort"
    "maDirection a = INBOUNDDirection \<or> maDirection a = OUTBOUNDDirection"
    using assms(2) by (auto simp: admits_mesh_def)
  ultimately show ?thesis
    unfolding mesh_action_ok_def mesh_open_def list_all_iff
    by (auto split: option.split)
qed

text \<open>Of an admitted pod action: the namespace.\<close>

lemma admitted_pod:
  assumes "admits_pod a"
  shows "pod_action_ok fi a \<longleftrightarrow> resolvePodFaultTargetNS fi a = fiNamespace fi"
proof -
  have "resolvePodFaultMode a = (case paPolicy a of Some pol \<Rightarrow> ppExecutionMode pol | None \<Rightarrow> ExecutionModeOneShot)"
    using assms
    by (auto simp: admits_pod_def admits_policy_def resolvePodFaultMode_def split: option.split)
  then show ?thesis using assms
    unfolding pod_action_ok_def admits_pod_def admits_selection_def window_rule_def termination_rule_def
      admits_guardrails_def admits_window_def
    by (auto split: option.splits)
qed

lemma admitted_spec:
  assumes "admits_spec (fiSpec fi)"
  shows "spec_ok fi \<longleftrightarrow>
    list_all (mesh_open (spBlastRadius (fiSpec fi))) (meshFaults fi)
    \<and> list_all (\<lambda>a. resolvePodFaultTargetNS fi a = fiNamespace fi) (podFaults fi)"
proof -
  have "admits_blastRadius (spBlastRadius (fiSpec fi))" "\<forall>a \<in> set (meshFaults fi). admits_mesh a"
    "\<forall>a \<in> set (podFaults fi). admits_pod a" "brDurationSeconds (spBlastRadius (fiSpec fi)) \<ge> 1"
    using assms by (auto simp: admits_spec_def admits_actions_def admits_blastRadius_def list_all_iff)
  then show ?thesis by (simp add: spec_ok_def list_all_iff admitted_mesh admitted_pod)
qed

section \<open>Plans of an admitted spec\<close>

text \<open>The checks that planning repeats never fail; only the names can.\<close>

lemma admitted_tick:
  assumes "admits_pod a" "resolvePodFaultMode a = ExecutionModeWindowed"
  shows "\<exists>x. computeWindowedTick a now startedAt = Inr x"
proof -
  obtain w where w: "paWindow a = Some w" "1 \<le> pwIntervalSeconds w" "in_i32 (pwIntervalSeconds w)"
    using assms by (auto simp: admits_pod_def window_rule_def admits_window_def resolvePodFaultMode_def
        split: option.splits if_splits)
  then have "to_i64 (pwIntervalSeconds w * second) = pwIntervalSeconds w * second"
    by (intro to_i64_id) (auto simp: in_i32_def in_i64_def second_def)
  moreover have "pwIntervalSeconds w * second > 0" using w(2) by (simp add: second_def)
  ultimately show ?thesis using w(1) by (auto simp: computeWindowedTick_def Let_def)
qed

lemma admitted_plan_step:
  assumes "admits_pod a" "plan_step fi now startedAt a due = Inl (e, due')"
  shows "e = EPanic \<and> (\<exists>t. podFaultNames fi (paName a) t = None)"
proof -
  have "validatePodFaultSelection a = None"
    using assms(1) by (auto simp: admits_pod_def admits_selection_def validatePodFaultSelection_def)
  moreover obtain t d b n where "resolvePodFaultMode a = ExecutionModeWindowed \<Longrightarrow>
      computeWindowedTick a now startedAt = Inr (t, d, b, n)"
    using admitted_tick [OF assms(1)] by (metis prod_cases4)
  ultimately show ?thesis using assms(2)
    by (auto simp: plan_step_def plan_for_def Let_def split: if_splits option.splits)
qed

lemma admitted_plan_loop:
  "\<forall>a \<in> set as. admits_pod a \<Longrightarrow> plan_loop fi now startedAt as ps due = (qs, due', Some e) \<Longrightarrow>
   e = EPanic \<and> (\<exists>a \<in> set as. \<exists>t. podFaultNames fi (paName a) t = None)"
proof (induction as arbitrary: ps due)
  case (Cons a as)
  show ?case
  proof (cases "plan_step fi now startedAt a due")
    case (Inl x)
    then show ?thesis
      using Cons.prems admitted_plan_step [of a fi now startedAt due e due'] by (cases x) auto
  next
    case (Inr x)
    then obtain new d where "plan_step fi now startedAt a due = Inr (new, d)" by (cases x) auto
    then show ?thesis using Cons.prems Cons.IH [of "ps @ new" d] by auto
  qed
qed simp

lemma admitted_plans:
  assumes "admits_spec (fiSpec fi)"
  shows "case snd (snd (buildPodFaultPlans fi now startedAt)) of
      None \<Rightarrow> True
    | Some e \<Rightarrow> e = EPanic \<and> list_ex (\<lambda>a. \<exists>t. podFaultNames fi (paName a) t = None) (podFaults fi)"
proof -
  obtain qs d err where b: "buildPodFaultPlans fi now startedAt = (qs, d, err)" using prod_cases3 by blast
  have "\<forall>a \<in> set (podFaults fi). admits_pod a"
    using assms by (auto simp: admits_spec_def admits_actions_def list_all_iff)
  from admitted_plan_loop [OF this] show ?thesis
    using b by (cases err) (auto simp: buildPodFaultPlans_def list_ex_iff)
qed

end
