(* ===== verification/MeshOps.thy ===== *)
theory MeshOps
  imports Mesh
begin

text \<open>
  The effectful part of the mesh faults: \<open>getOrCreateVirtualService\<close> and
  \<open>cleanupOrphanedManagedVS\<close> of \<open>src/internal/controller/mesh_fault.go\<close> and
  \<open>applyDesiredTargets\<close> of \<open>faultinjection_controller.go\<close>, with what they can do to a
  VirtualService, whatever the API server answers.
\<close>

definition getOrCreateVirtualService ::
  "'w reconciler \<Rightarrow> faultInjection \<Rightarrow> string \<Rightarrow> string \<Rightarrow> vsDesired \<Rightarrow>
   ('w, goerr + vsObj \<times> bool) eff" where
  "getOrCreateVirtualService r fi vsNS vsName desired = do {
     g \<leftarrow> getVS r vsNS vsName;
     (case g of
        Inr vs \<Rightarrow> State_Monad.return (Inr (vs, False))
      | Inl e \<Rightarrow>
          if e \<noteq> NotFound then State_Monad.return (Inl (EApi e))
          else if \<not> dsManaged desired then State_Monad.return (Inl (EVSNotFound vsNS vsName))
          else
            let newVS = new_managed_vs fi vsNS vsName desired in
            (case rcSetControllerReference r (fiMeta fi) (vsMeta newVS) of
               Inl e \<Rightarrow> State_Monad.return (Inl (EApi e))
             | Inr m \<Rightarrow> do {
                 c \<leftarrow> createVS r (newVS\<lparr>vsMeta := m\<rparr>);
                 (case c of
                    Inl e \<Rightarrow> State_Monad.return (Inl (EApi e))
                  | Inr vs \<Rightarrow> State_Monad.return (Inr (vs, True)))
               }))
   }"

definition set_error :: "faultInjection \<Rightarrow> message \<Rightarrow> faultInjection" where
  "set_error fi msg = fi\<lparr>fiStatus := (fiStatus fi)\<lparr>stPhase := ErrorPhase, stMessage := msg\<rparr>\<rparr>"

text \<open>The end of the loop body: attach routes, patch, update when something changed.\<close>

definition patch_target ::
  "'w reconciler \<Rightarrow> faultInjection \<Rightarrow> vsDesired \<Rightarrow> vsObj \<Rightarrow> bool \<Rightarrow> bool \<Rightarrow> jval list \<Rightarrow>
   ('w, goerr + bool) eff" where
  "patch_target r fi desired vs created meshGatewayChanged baseRoute =
     (let desiredRules = map (\<lambda>rule. ensureHTTPRuleHasRoute (cloneMap rule) baseRoute) (dsRules desired);
          (vs', changed) = patchVirtualServiceHTTP vs (fiRuleNamePrefix fi) desiredRules
      in if created \<or> changed \<or> meshGatewayChanged then do {
           u \<leftarrow> updateVS r vs';
           (case u of
              Some e \<Rightarrow> do {
                eventf r ''Warning'' ''VirtualServiceUpdateFailed'' ''vs-update'';
                State_Monad.return (Inl (EApi e))
              }
            | None \<Rightarrow> do {
                (if created then eventf r ''Normal'' ''VirtualServiceCreated'' ''vs-create''
                 else eventf r ''Normal'' ''VirtualServicePatched'' ''vs-patch'');
                State_Monad.return (Inr False)
              })
         }
         else State_Monad.return (Inr False))"

text \<open>
  The loop body from the VirtualService on. The result \<open>Inr True\<close> is the early return
  \<open>(true, nil)\<close> for an unsafe target.
\<close>

definition inject_target ::
  "'w reconciler \<Rightarrow> faultInjection \<Rightarrow> string \<Rightarrow> string \<Rightarrow> vsDesired \<Rightarrow> vsObj \<Rightarrow> bool \<Rightarrow>
   ('w, goerr + bool) eff" where
  "inject_target r fi vsNS vsName desired vs created =
     (let (vs1, meshGatewayChanged) = ensureManagedOutboundVSGatewaysMesh vs (dsManaged desired) in
      case findAnyExistingRoute vs1 of
        Some baseRoute \<Rightarrow> patch_target r fi desired vs1 created meshGatewayChanged baseRoute
      | None \<Rightarrow>
          if dsManaged desired then do {
            eventf r ''Normal'' ''DefaultRouteEnsured'' ''vs-default-route'';
            patch_target r fi desired
              (ensureVSHasAtLeastOneDefaultRouteRule vs1 (dsHosts desired))
              created meshGatewayChanged (buildManagedOutboundDefaultRoute (dsHosts desired))
          }
          else do {
            eventf r ''Warning'' ''UnsafeTarget'' ''vs-unsafe-target'';
            _ \<leftarrow> statusUpdateFI r (set_error fi (MsgUnsafe vsNS vsName));
            State_Monad.return (Inr True)
          })"

text \<open>The body of the loop over the targets.\<close>

definition apply_target ::
  "'w reconciler \<Rightarrow> faultInjection \<Rightarrow> string \<Rightarrow> vsDesired \<Rightarrow> ('w, goerr + bool) eff" where
  "apply_target r fi targetKey desired =
     (let (vsNS, vsName) = splitKey targetKey in do {
       g \<leftarrow> getOrCreateVirtualService r fi vsNS vsName desired;
       (case g of
          Inl err \<Rightarrow> do {
            eventf r ''Warning'' ''VirtualServiceGetOrCreateFailed'' ''vs-get-or-create'';
            _ \<leftarrow> statusUpdateFI r (set_error fi (MsgVSFailed vsNS vsName err));
            State_Monad.return (Inl err)
          }
        | Inr (vs, created) \<Rightarrow> inject_target r fi vsNS vsName desired vs created)
     })"

fun apply_loop ::
  "'w reconciler \<Rightarrow> faultInjection \<Rightarrow> vsDesired gomap \<Rightarrow> string list \<Rightarrow> ('w, goerr + bool) eff" where
  "apply_loop r fi m [] = State_Monad.return (Inr False)"
| "apply_loop r fi m (k # ks) = do {
     x \<leftarrow> apply_target r fi k (desired_at k m);
     (case x of
        Inl e \<Rightarrow> State_Monad.return (Inl e)
      | Inr stop \<Rightarrow> if stop then State_Monad.return (Inr True) else apply_loop r fi m ks)
   }"

definition applyDesiredTargets ::
  "'w reconciler \<Rightarrow> faultInjection \<Rightarrow> vsDesired gomap \<Rightarrow> ('w, goerr + bool) eff" where
  "applyDesiredTargets r fi m = apply_loop r fi m (range_keys r (mkeys m))"

fun orphan_loop ::
  "'w reconciler \<Rightarrow> string list \<Rightarrow> vsObj list \<Rightarrow> ('w, goerr option) eff" where
  "orphan_loop r stillWanted [] = State_Monad.return None"
| "orphan_loop r stillWanted (vs # vss) =
     (if joinKey (oNamespace (vsMeta vs)) (oName (vsMeta vs)) \<in> set stillWanted
      then orphan_loop r stillWanted vss
      else do {
        d \<leftarrow> deleteVS r vs;
        (case d of
           Some e \<Rightarrow>
             if e \<noteq> NotFound then State_Monad.return (Some (EApi e))
             else do {
               eventf r ''Normal'' ''OrphanVirtualServiceDeleted'' ''cleanup-orphans'';
               orphan_loop r stillWanted vss
             }
         | None \<Rightarrow> do {
             eventf r ''Normal'' ''OrphanVirtualServiceDeleted'' ''cleanup-orphans'';
             orphan_loop r stillWanted vss
           })
      })"

definition cleanupOrphanedManagedVS ::
  "'w reconciler \<Rightarrow> faultInjection \<Rightarrow> string list \<Rightarrow> ('w, goerr option) eff" where
  "cleanupOrphanedManagedVS r fi stillWanted = do {
     l \<leftarrow> listVS r (fiNamespace fi)
       [(''managed-by'', ''fi-operator''), (''chaos.sghaida.io/fi'', fiName fi)];
     (case l of
        Inl e \<Rightarrow> State_Monad.return (Some (EApi e))
      | Inr vss \<Rightarrow> orphan_loop r stillWanted vss)
   }"

section \<open>What an update may change\<close>

text \<open>The rules of a VirtualService that this FaultInjection did not inject.\<close>

definition user_rules :: "faultInjection \<Rightarrow> vsObj \<Rightarrow> jval list" where
  "user_rules fi vs = filter (\<lambda>x. \<not> injected (fiRuleNamePrefix fi) x) (http_of vs)"

text \<open>A rule injected for one of the actions: rendered from it and given a route, with its name and share of traffic.\<close>

definition injected_for :: "faultInjection \<Rightarrow> jobj \<Rightarrow> bool" where
  "injected_for fi rule \<longleftrightarrow> routable rule \<and>
     (\<exists>a \<in> set (meshFaults fi). rule_name rule = injectedRuleName fi a
        \<and> (maType a \<in> {HTTPLatency, HTTPAbort} \<longrightarrow> rule_percent rule = Some (maPercent a))
        \<and> (\<exists>built base. buildInjectedHTTPRule fi a = Some built \<and> rule = ensureHTTPRuleHasRoute built base))"

text \<open>
  The update of \<open>vs\<close> to \<open>vs'\<close>: same metadata; rules injected for the actions of the spec in
  front; behind them the rules others own, unchanged and in order, or the one default rule when
  the object had no rules at all.
\<close>

definition inject_update :: "faultInjection \<Rightarrow> vsObj \<Rightarrow> vsObj \<Rightarrow> bool" where
  "inject_update fi vs vs' \<longleftrightarrow>
     vsMeta vs' = vsMeta vs
     \<and> (\<exists>rules. http_of vs' = map JMap rules @ user_rules fi vs' \<and> list_all (injected_for fi) rules)
     \<and> (user_rules fi vs' = user_rules fi vs \<or> http_of vs = [] \<and> length (user_rules fi vs') = 1)
     \<and> (\<forall>k. k \<noteq> ''http'' \<longrightarrow> k \<noteq> ''gateways'' \<longrightarrow> mget k (spec_of vs') = mget k (spec_of vs))"

lemma ensure_gateways_facts:
  "vsMeta (fst (ensureManagedOutboundVSGatewaysMesh vs b)) = vsMeta vs"
  "http_of (fst (ensureManagedOutboundVSGatewaysMesh vs b)) = http_of vs"
  "k \<noteq> ''gateways'' \<Longrightarrow>
     mget k (spec_of (fst (ensureManagedOutboundVSGatewaysMesh vs b))) = mget k (spec_of vs)"
  by (auto simp: ensureManagedOutboundVSGatewaysMesh_def http_of_def spec_of_def Let_def
      split: option.splits)

lemma ensure_default_facts:
  "vsMeta (ensureVSHasAtLeastOneDefaultRouteRule vs hs) = vsMeta vs"
  "http_of vs \<noteq> [] \<Longrightarrow> ensureVSHasAtLeastOneDefaultRouteRule vs hs = vs"
  "http_of vs = [] \<Longrightarrow> user_rules fi (ensureVSHasAtLeastOneDefaultRouteRule vs hs) =
     http_of (ensureVSHasAtLeastOneDefaultRouteRule vs hs)"
  "http_of vs = [] \<Longrightarrow> length (http_of (ensureVSHasAtLeastOneDefaultRouteRule vs hs)) = 1"
  "k \<noteq> ''http'' \<Longrightarrow> mget k (spec_of (ensureVSHasAtLeastOneDefaultRouteRule vs hs)) = mget k (spec_of vs)"
  by (auto simp: ensureVSHasAtLeastOneDefaultRouteRule_def user_rules_def spec_of_set_http
      rule_name_def getString_def HasPrefix_def fiRuleNamePrefix_def)

section \<open>What applyDesiredTargets writes\<close>

text \<open>The rules of a desired target are rendered from actions of the spec.\<close>

definition rules_of_spec :: "faultInjection \<Rightarrow> vsDesired \<Rightarrow> bool" where
  "rules_of_spec fi d \<longleftrightarrow>
     (\<forall>rule \<in> set (dsRules d). \<exists>a \<in> set (meshFaults fi). buildInjectedHTTPRule fi a = Some rule)"

lemma injected_for_routed:
  assumes "a \<in> set (meshFaults fi)" "buildInjectedHTTPRule fi a = Some rule"
  shows "injected_for fi (ensureHTTPRuleHasRoute (cloneMap rule) base)"
    and "HasPrefix (rule_name (ensureHTTPRuleHasRoute (cloneMap rule) base)) (fiRuleNamePrefix fi)"
proof -
  have c: "cloneMap rule = rule"
    using buildInjectedHTTPRule_fields(5) [OF assms(2)] by (rule cloneMap_eq)
  show "injected_for fi (ensureHTTPRuleHasRoute (cloneMap rule) base)"
    unfolding injected_for_def c using assms ensure_route_routable
    by (auto simp: rule_name_built rule_percent_built intro!: bexI [of _ a])
  show "HasPrefix (rule_name (ensureHTTPRuleHasRoute (cloneMap rule) base)) (fiRuleNamePrefix fi)"
    unfolding c using rule_built_prefix [OF assms(2)] by simp
qed

definition routed_rules :: "vsDesired \<Rightarrow> jval list \<Rightarrow> jobj list" where
  "routed_rules d base = map (\<lambda>rule. ensureHTTPRuleHasRoute (cloneMap rule) base) (dsRules d)"

lemma routed_rules_injected:
  assumes "rules_of_spec fi d"
  shows "list_all (injected_for fi) (routed_rules d base)"
    and "\<forall>x \<in> set (routed_rules d base). injected (fiRuleNamePrefix fi) (JMap x)"
  using assms injected_for_routed unfolding routed_rules_def rules_of_spec_def list_all_iff
  by (auto simp only: set_map image_iff injected_JMap)

text \<open>A VirtualService between the read and the patch: gateways and a default rule may be new.\<close>

definition prepared :: "vsObj \<Rightarrow> vsObj \<Rightarrow> bool" where
  "prepared vs vs1 \<longleftrightarrow> vsMeta vs1 = vsMeta vs
     \<and> (http_of vs1 = http_of vs \<or> http_of vs = [] \<and> length (http_of vs1) = 1
          \<and> (\<forall>fi. user_rules fi vs1 = http_of vs1))
     \<and> (\<forall>k. k \<noteq> ''http'' \<longrightarrow> k \<noteq> ''gateways'' \<longrightarrow> mget k (spec_of vs1) = mget k (spec_of vs))"

lemma prepared_gateways: "prepared vs (fst (ensureManagedOutboundVSGatewaysMesh vs b))"
  by (simp add: prepared_def ensure_gateways_facts)

lemma prepared_default:
  "prepared vs vs1 \<Longrightarrow> prepared vs (ensureVSHasAtLeastOneDefaultRouteRule vs1 hs)"
  by (cases "http_of vs1 = []") (auto simp: prepared_def ensure_default_facts)

lemma inject_update_patch:
  assumes p: "prepared vs vs1" and d: "rules_of_spec fi d"
  shows "inject_update fi vs (fst (patchVirtualServiceHTTP vs1 (fiRuleNamePrefix fi) (routed_rules d base)))"
    (is "inject_update fi vs ?vs'")
proof -
  note inj = routed_rules_injected [OF d, of base]
  have user: "user_rules fi ?vs' = user_rules fi vs1"
    unfolding user_rules_def using inj(2) by (rule http.others_kept)
  have http: "http_of ?vs' = map JMap (routed_rules d base) @ user_rules fi ?vs'"
    unfolding user unfolding user_rules_def by (rule http.get_patch)
  have kept: "user_rules fi ?vs' = user_rules fi vs \<or> http_of vs = [] \<and> length (user_rules fi ?vs') = 1"
    unfolding user using p unfolding prepared_def user_rules_def by metis
  have meta: "vsMeta ?vs' = vsMeta vs" using p unfolding prepared_def vsMeta_patch by blast
  have frame: "\<forall>k. k \<noteq> ''http'' \<longrightarrow> k \<noteq> ''gateways'' \<longrightarrow> mget k (spec_of ?vs') = mget k (spec_of vs)"
    using p unfolding prepared_def by (metis patch_frame)
  show ?thesis
    unfolding inject_update_def using http inj(1) kept meta frame by blast
qed

lemma runs_patch_target:
  assumes "prepared vs vs1" "rules_of_spec fi d" "vs \<in> set (concat (map obtained pre))"
  shows "runs (patch_target r fi d vs1 created gw base)
     (\<lambda>_ ops. after (update_from (inject_update fi)) pre ops)"
proof -
  note upd = inject_update_patch [OF assms(1,2), of base]
  show ?thesis
    unfolding patch_target_def routed_rules_def [symmetric] Let_def
    using upd assms(3)
    by (intro runs_intro) (auto simp: update_from_def)
qed

lemma runs_getOrCreate:
  "runs (getOrCreateVirtualService r fi ns n d)
     (\<lambda>res ops. after (update_from R) pre ops
        \<and> (\<forall>vs c. res = Inr (vs, c) \<longrightarrow> vs \<in> set (concat (map obtained ops))))"
  unfolding getOrCreateVirtualService_def
  by (intro runs_intro) (auto simp: update_from_def)

lemma update_from_fi: "after (update_from R) pre [OpStatusUpdateFI f e]"
  by (simp add: update_from_def)

lemma update_from_free: "\<not> (\<exists>vs e. x = OpUpdateVS vs e) \<Longrightarrow> update_from R pre x"
  by (auto simp: update_from_def)

lemma runs_no_update:
  "emits (\<lambda>x. \<not> (\<exists>vs e. x = OpUpdateVS vs e)) m \<Longrightarrow> runs m (\<lambda>_ ops. after (update_from R) pre ops)"
  by (drule always_runs, erule runs_conseq, rule after_free) (auto simp: list_all_iff update_from_free)

lemma emits_error_step:
  "emits (\<lambda>x. \<not> (\<exists>vs e. x = OpUpdateVS vs e))
     (do { eventf r t x a; _ \<leftarrow> statusUpdateFI r f; State_Monad.return v })"
  unfolding statusUpdateFI_def by (intro always_intro always_call each.always_eventf) simp_all

lemma after_update_events: "list_all event_op ops \<Longrightarrow> after (update_from R) pre ops"
  by (rule after_free) (auto simp: list_all_iff intro!: update_from_free)

lemma runs_inject_target:
  assumes "rules_of_spec fi d" "vs \<in> set (concat (map obtained pre))"
  shows "runs (inject_target r fi ns n d vs c) (\<lambda>_ ops. after (update_from (inject_update fi)) pre ops)"
proof -
  obtain vs1 gw where g: "ensureManagedOutboundVSGatewaysMesh vs (dsManaged d) = (vs1, gw)" by fastforce
  then have p: "prepared vs vs1" using prepared_gateways [of vs "dsManaged d"] by simp
  have patch: "runs (patch_target r fi d v c gw base) (\<lambda>_ ops. after (update_from (inject_update fi)) (pre @ u) ops)"
    if "prepared vs v" for v base u
    using that assms by (intro runs_patch_target [where vs = vs]) auto
  show ?thesis
    unfolding inject_target_def Let_def g prod.case
    apply (rule runs_case_option, rule runs_if)
      apply (rule runs_bind, rule runs_events)
      apply (rule runs_conseq [OF patch [OF prepared_default [OF p]]])
      apply (simp add: after_append after_update_events)
     apply (rule runs_no_update [OF emits_error_step])
    using patch [OF p, of _ "[]"] apply simp
    done
qed

lemma runs_apply_target:
  assumes "rules_of_spec fi d"
  shows "runs (apply_target r fi k d) (\<lambda>_ ops. after (update_from (inject_update fi)) pre ops)"
proof -
  obtain ns n where k: "splitKey k = (ns, n)" by fastforce
  show ?thesis
    unfolding apply_target_def Let_def k prod.case
    apply (rule runs_bind_after [OF runs_getOrCreate])
    apply (intro runs_case_sum runs_case_prod)
     apply (rule runs_no_update [OF emits_error_step])
    apply (rule runs_inject_target [OF assms], simp)
    done
qed

lemma always_apply_target:
  "rules_of_spec fi d \<Longrightarrow> always (preceded (update_from (inject_update fi))) (apply_target r fi k d)"
  unfolding always_def by (rule runs_conseq [OF runs_apply_target]) (auto intro: after_preceded)

lemma desired_rules_of_spec:
  "buildDesiredByVSTarget fi = Some (m, mg) \<Longrightarrow> rules_of_spec fi (desired_at k m)"
  using desired_rule_action [of fi m mg k]
  by (auto simp: rules_of_spec_def desired_at_def zero_desired_def split: option.splits)

lemma always_apply_loop:
  "(\<And>k. rules_of_spec fi (desired_at k m)) \<Longrightarrow>
   always (preceded (update_from (inject_update fi))) (apply_loop r fi m ks)"
  by (induction ks) (auto intro!: always_intro always_apply_target)

lemma always_applyDesiredTargets:
  "buildDesiredByVSTarget fi = Some (m, mg) \<Longrightarrow>
   always (preceded (update_from (inject_update fi))) (applyDesiredTargets r fi m)"
  unfolding applyDesiredTargets_def by (intro always_apply_loop desired_rules_of_spec)

section \<open>What the orphan cleanup deletes\<close>

definition orphan_delete :: "faultInjection \<Rightarrow> string list \<Rightarrow> op list \<Rightarrow> op \<Rightarrow> bool" where
  "orphan_delete fi wanted before x =
     (case x of
        OpDeleteVS vs _ \<Rightarrow>
          (\<exists>l. OpListVS (fiNamespace fi)
               [(''managed-by'', ''fi-operator''), (''chaos.sghaida.io/fi'', fiName fi)] (Inr l) \<in> set before
             \<and> vs \<in> set l)
          \<and> joinKey (oNamespace (vsMeta vs)) (oName (vsMeta vs)) \<notin> set wanted
      | OpListVS _ _ _ \<Rightarrow> True
      | OpEvent _ _ _ \<Rightarrow> True
      | _ \<Rightarrow> False)"

lemma runs_orphan_loop:
  "OpListVS (fiNamespace fi)
      [(''managed-by'', ''fi-operator''), (''chaos.sghaida.io/fi'', fiName fi)] (Inr l) \<in> set pre \<Longrightarrow>
   set vss \<subseteq> set l \<Longrightarrow>
   runs (orphan_loop r wanted vss) (\<lambda>_ ops. after (orphan_delete fi wanted) pre ops)"
proof (induction vss arbitrary: pre)
  case Nil
  then show ?case by (simp add: runs_return)
next
  case (Cons vs vss)
  have del: "orphan_delete fi wanted pre (OpDeleteVS vs e)"
    if "joinKey (oNamespace (vsMeta vs)) (oName (vsMeta vs)) \<notin> set wanted" for e
    using that Cons.prems by (auto simp: orphan_delete_def)
  have ev: "after (orphan_delete fi wanted) p ops" if "list_all event_op ops" for p ops
    using that by (intro after_free) (auto simp: list_all_iff orphan_delete_def elim!: event_op.elims)
  have rest: "runs (orphan_loop r wanted vss) (\<lambda>_ ops. after (orphan_delete fi wanted) (pre @ u) ops)" for u
    using Cons.prems by (intro Cons.IH) auto
  have next_one: "runs (do { eventf r t x a; orphan_loop r wanted vss })
      (\<lambda>_ ops. after (orphan_delete fi wanted) (pre @ u) ops)" for t x a u
    using rest by (intro runs_bind runs_events) (auto simp: after_append ev)
  show ?case
    unfolding orphan_loop.simps
    apply (rule runs_if)
     apply (rule runs_conseq [OF rest [of "[]"]], simp)
    apply (rule runs_bind, rule runs_deleteVS, rule runs_case_option)
     apply (rule runs_conseq [OF next_one], simp add: del)
    apply (rule runs_if, rule runs_return, simp add: del)
    apply (rule runs_conseq [OF next_one], simp add: del)
    done
qed

lemma runs_cleanupOrphaned:
  "runs (cleanupOrphanedManagedVS r fi wanted) (\<lambda>_ ops. after (orphan_delete fi wanted) [] ops)"
  unfolding cleanupOrphanedManagedVS_def
  apply (rule runs_bind, rule runs_listVS, rule runs_case_sum)
   apply (rule runs_return, simp add: orphan_delete_def)
  apply (rule runs_conseq [OF runs_orphan_loop [where pre = "[OpListVS a b c]" for a b c]])
    apply simp
   apply (rule subset_refl)
  apply (simp add: orphan_delete_def)
  done

end
