(* ===== verification/Controller.thy ===== *)
theory Controller
  imports Validate MeshOps
begin

text \<open>
  The reconcile loop: \<open>Reconcile\<close>, the lifecycle, the three ends of an experiment, \<open>markRunning\<close>
  and the cleanup of \<open>src/internal/controller/faultinjection_controller.go\<close>. Log lines and the
  notes of events are left out. A handler returns the result of the reconcile and its error; a
  panic is the error \<open>EPanic\<close>, as controller-runtime makes it.
\<close>

record ctrlResult =
  crRequeue :: bool
  crRequeueAfter :: int

definition no_requeue :: ctrlResult where
  "no_requeue = \<lparr>crRequeue = False, crRequeueAfter = 0\<rparr>"

definition ignoreNotFound :: "apiError \<Rightarrow> goerr option" where
  "ignoreNotFound e = (if e = NotFound then None else Some (EApi e))"

section \<open>Lifecycle\<close>

text \<open>\<open>start.Add(time.Duration(durSeconds) * time.Second)\<close>; the product wraps.\<close>

definition expiry_of :: "faultInjection \<Rightarrow> time \<Rightarrow> time" where
  "expiry_of fi start = start + to_i64 (brDurationSeconds (spBlastRadius (fiSpec fi)) * second)"

definition set_started :: "faultInjection \<Rightarrow> time \<Rightarrow> faultInjection" where
  "set_started fi t = fi\<lparr>fiStatus := (fiStatus fi)\<lparr>stStartedAt := Some t\<rparr>\<rparr>"

definition set_expires :: "faultInjection \<Rightarrow> time \<Rightarrow> faultInjection" where
  "set_expires fi t = fi\<lparr>fiStatus := (fiStatus fi)\<lparr>stExpiresAt := Some t\<rparr>\<rparr>"

definition refresh_expiry ::
  "'w reconciler \<Rightarrow> faultInjection \<Rightarrow> time \<Rightarrow> bool \<Rightarrow> ('w, faultInjection \<times> bool) eff" where
  "refresh_expiry r fi start changed =
     (if stExpiresAt (fiStatus fi) \<noteq> Some (expiry_of fi start) then do {
        eventf r ''Normal'' ''LifecycleUpdated'' ''lifecycle-update'';
        State_Monad.return (set_expires fi (expiry_of fi start), True)
      }
      else State_Monad.return (fi, changed))"

definition ensureLifecycle ::
  "'w reconciler \<Rightarrow> faultInjection \<Rightarrow> ('w, faultInjection \<times> bool) eff" where
  "ensureLifecycle r fi = do {
     now \<leftarrow> time_now r;
     (if brDurationSeconds (spBlastRadius (fiSpec fi)) \<le> 0 then do {
        eventf r ''Warning'' ''InvalidSpec'' ''validate'';
        State_Monad.return (fi, False)
      }
      else (case stStartedAt (fiStatus fi) of
          Some start \<Rightarrow> refresh_expiry r fi start False
        | None \<Rightarrow> do {
            eventf r ''Normal'' ''Started'' ''lifecycle-init'';
            refresh_expiry r (set_started fi now) now True
          }))
   }"

section \<open>Cleanup\<close>

text \<open>The set of targets, as a list without duplicates.\<close>

definition spec_targets :: "faultInjection \<Rightarrow> string list" where
  "spec_targets fi =
     foldl (\<lambda>ts a.
       let ts1 = (case hfVirtualServiceRef (maHTTP a) of
                    Some ref \<Rightarrow>
                      if maDirection a = INBOUNDDirection
                      then List.insert (joinKey (fiNamespace fi) (vrName ref)) ts else ts
                  | None \<Rightarrow> ts)
       in if maDirection a = OUTBOUNDDirection
          then List.insert (joinKey (fiNamespace fi) (managedOutboundVSName fi a)) ts1 else ts1)
       [] (meshFaults fi)"

definition cleanup_targets :: "faultInjection \<Rightarrow> vsObj list \<Rightarrow> string list" where
  "cleanup_targets fi items =
     foldl (\<lambda>ts vs. List.insert (joinKey (oNamespace (vsMeta vs)) (oName (vsMeta vs))) ts)
       (spec_targets fi) items"

definition managed_by_fi :: "faultInjection \<Rightarrow> vsObj \<Rightarrow> bool" where
  "managed_by_fi fi vs \<longleftrightarrow>
     vsLabel vs ''managed-by'' = Some ''fi-operator'' \<and> vsLabel vs ''chaos.sghaida.io/fi'' = Some (fiName fi)"

text \<open>The loop body: nothing, or the error the cleanup returns with.\<close>

definition cleanup_target :: "'w reconciler \<Rightarrow> faultInjection \<Rightarrow> string \<Rightarrow> ('w, goerr option) eff" where
  "cleanup_target r fi k =
     (let (ns, name) = splitKey k in do {
        g \<leftarrow> getVS r ns name;
        (case g of
           Inl e \<Rightarrow> State_Monad.return (ignoreNotFound e)
         | Inr vs0 \<Rightarrow>
             let (vs, changed) = patchVirtualServiceHTTP vs0 (fiRuleNamePrefix fi) [] in
             if managed_by_fi fi vs then do {
               d \<leftarrow> deleteVS r vs;
               (if delete_failed d then eventf r ''Warning'' ''VirtualServiceDeleteFailed'' ''vs-delete''
                else eventf r ''Normal'' ''VirtualServiceDeleted'' ''vs-delete'');
               State_Monad.return None
             }
             else if changed then do {
               u \<leftarrow> updateVS r vs;
               (case u of
                  Some e \<Rightarrow> do {
                    eventf r ''Warning'' ''CleanupUpdateFailed'' ''vs-update'';
                    State_Monad.return (Some (EApi e))
                  }
                | None \<Rightarrow> do {
                    eventf r ''Normal'' ''RulesRemoved'' ''cleanup'';
                    State_Monad.return None
                  })
             }
             else State_Monad.return None)
      })"

definition owned_by_fi :: "faultInjection \<Rightarrow> deploymentObj \<Rightarrow> bool" where
  "owned_by_fi fi dep \<longleftrightarrow>
     (\<exists>ow \<in> set (oOwners (dpMeta dep)).
        orKind ow = ''FaultInjection'' \<and> orName ow = fiName fi
        \<and> (fiUID fi = [] \<or> orUID ow = [] \<or> orUID ow = fiUID fi))"

fun deployments_loop ::
  "'w reconciler \<Rightarrow> faultInjection \<Rightarrow> deploymentObj list \<Rightarrow> ('w, unit) eff" where
  "deployments_loop r fi [] = State_Monad.return ()"
| "deployments_loop r fi (dep # deps) =
     (if \<not> owned_by_fi fi dep then deployments_loop r fi deps
      else do {
        d \<leftarrow> deleteDeployment r dep;
        (if delete_failed d then eventf r ''Warning'' ''DeploymentDeleteFailed'' ''dep-delete''
         else eventf r ''Normal'' ''DeploymentDeleted'' ''dep-delete'');
        deployments_loop r fi deps
      })"

definition cleanupFIManagedDeployments :: "'w reconciler \<Rightarrow> faultInjection \<Rightarrow> ('w, goerr option) eff" where
  "cleanupFIManagedDeployments r fi = do {
     l \<leftarrow> listDeployments r (fiNamespace fi);
     (case l of
        Inl e \<Rightarrow> do {
          eventf r ''Warning'' ''DeploymentListFailed'' ''dep-list'';
          State_Monad.return (Some (EApi e))
        }
      | Inr deps \<Rightarrow> do {
          deployments_loop r fi deps;
          State_Monad.return None
        })
   }"

definition cleanupAll :: "'w reconciler \<Rightarrow> faultInjection \<Rightarrow> ('w, goerr option) eff" where
  "cleanupAll r fi = do {
     l \<leftarrow> listVS r (fiNamespace fi) [(''chaos.sghaida.io/fi'', fiName fi)];
     (case l of
        Inl e \<Rightarrow> do {
          eventf r ''Warning'' ''CleanupListFailed'' ''cleanup'';
          State_Monad.return (Some (EApi e))
        }
      | Inr items \<Rightarrow> do {
          e \<leftarrow> each_until_error (cleanup_target r fi) (range_keys r (cleanup_targets fi items));
          (case e of
             Some err \<Rightarrow> State_Monad.return (Some err)
           | None \<Rightarrow> do {
               _ \<leftarrow> cleanupPodFaultArtifacts r fi;
               _ \<leftarrow> cleanupFIManagedDeployments r fi;
               State_Monad.return None
             })
        })
   }"

section \<open>The ends of an experiment\<close>

definition cancelled_status :: "time \<Rightarrow> faultInjectionStatus \<Rightarrow> faultInjectionStatus" where
  "cancelled_status now st = st\<lparr>
     stPhase := CancelledPhase,
     stMessage := Msg ''Cancelled: cleaned up injected rules'',
     stCancelledAt := (case stCancelledAt st of None \<Rightarrow> Some now | Some t \<Rightarrow> Some t),
     stStopReason := (if stStopReason st = [] then ''external: spec.cancel=true'' else stStopReason st)\<rparr>"

definition handleCancellation ::
  "'w reconciler \<Rightarrow> string \<Rightarrow> string \<Rightarrow> faultInjection \<Rightarrow> time \<Rightarrow> ('w, ctrlResult \<times> goerr option) eff" where
  "handleCancellation r reqNS reqName fi now =
     (if stPhase (fiStatus fi) = CancelledPhase \<or> stPhase (fiStatus fi) = CompletedPhase
      then State_Monad.return (no_requeue, None)
      else do {
        (if stCancelledAt (fiStatus fi) = None then eventf r ''Normal'' ''CancelRequested'' ''cancel''
         else State_Monad.return ());
        eventf r ''Normal'' ''CleanupStarted'' ''cleanup'';
        c \<leftarrow> cleanupAll r fi;
        (case c of
           Some e \<Rightarrow> do {
             eventf r ''Warning'' ''CleanupFailed'' ''cleanup'';
             State_Monad.return (no_requeue, Some e)
           }
         | None \<Rightarrow> do {
             u \<leftarrow> update_status r reqNS reqName (\<lambda>st. Some (cancelled_status now st));
             (case u of
                Some e \<Rightarrow> do {
                  eventf r ''Warning'' ''StatusUpdateFailed'' ''status-update'';
                  State_Monad.return (no_requeue, Some e)
                }
              | None \<Rightarrow> do {
                  eventf r ''Normal'' ''Cancelled'' ''cancel'';
                  State_Monad.return (no_requeue, None)
                })
           })
      })"

definition completed_status :: "faultInjectionStatus \<Rightarrow> faultInjectionStatus" where
  "completed_status st = st\<lparr>
     stPhase := CompletedPhase,
     stMessage := Msg ''Expired: cleaned up injected rules'',
     stStopReason := (if stStopReason st = [] then ''expired: blastRadius duration reached''
                      else stStopReason st)\<rparr>"

definition handleExpiry ::
  "'w reconciler \<Rightarrow> faultInjection \<Rightarrow> ('w, ctrlResult \<times> goerr option) eff" where
  "handleExpiry r fi = do {
     eventf r ''Normal'' ''CleanupStarted'' ''cleanup'';
     c \<leftarrow> cleanupAll r fi;
     (case c of
        Some e \<Rightarrow> do {
          eventf r ''Warning'' ''CleanupFailed'' ''cleanup'';
          State_Monad.return (no_requeue, Some e)
        }
      | None \<Rightarrow> do {
          u \<leftarrow> update_status r (fiNamespace fi) (fiName fi) (\<lambda>st. Some (completed_status st));
          (case u of
             Some e \<Rightarrow> do {
               eventf r ''Warning'' ''StatusUpdateFailed'' ''status-update'';
               State_Monad.return (no_requeue, Some e)
             }
           | None \<Rightarrow> do {
               eventf r ''Normal'' ''Expired'' ''expiry'';
               State_Monad.return (no_requeue, None)
             })
        })
   }"

definition handleValidationError ::
  "'w reconciler \<Rightarrow> faultInjection \<Rightarrow> goerr \<Rightarrow> ('w, ctrlResult \<times> goerr option) eff" where
  "handleValidationError r fi verr = do {
     eventf r ''Warning'' ''ValidationFailed'' ''validate'';
     eventf r ''Normal'' ''CleanupStarted'' ''cleanup'';
     c \<leftarrow> cleanupAll r fi;
     (if c \<noteq> None then eventf r ''Warning'' ''CleanupFailed'' ''cleanup'' else State_Monad.return ());
     u \<leftarrow> statusUpdateFI r (set_error fi (MsgErr verr));
     (case u of
        Some e \<Rightarrow> do {
          eventf r ''Warning'' ''StatusUpdateFailed'' ''status-update'';
          State_Monad.return (no_requeue, Some (EApi e))
        }
      | None \<Rightarrow> State_Monad.return (no_requeue, None))
   }"

section \<open>Running\<close>

definition running_status :: "faultInjectionStatus \<Rightarrow> faultInjectionStatus" where
  "running_status st = st\<lparr>stPhase := RunningPhase, stMessage := Msg ''Active: injected rules are applied''\<rparr>"

text \<open>The closure, with the variable \<open>emitActiveEvent\<close> it sets.\<close>

definition running_attempt ::
  "'w reconciler \<Rightarrow> faultInjection \<Rightarrow> bool \<Rightarrow> ('w, goerr option \<times> bool) eff" where
  "running_attempt r fi emitActiveEvent = do {
     g \<leftarrow> getFI r (fiNamespace fi) (fiName fi);
     (case g of
        Inl e \<Rightarrow> State_Monad.return (Some (EApi e), emitActiveEvent)
      | Inr latest \<Rightarrow>
          if stPhase (fiStatus latest) = RunningPhase then State_Monad.return (None, emitActiveEvent)
          else do {
            u \<leftarrow> statusUpdateFI r (latest\<lparr>fiStatus := running_status (fiStatus latest)\<rparr>);
            State_Monad.return (map_option EApi u, True)
          })
   }"

definition markRunning :: "'w reconciler \<Rightarrow> faultInjection \<Rightarrow> ('w, goerr option) eff" where
  "markRunning r fi =
     (if stPhase (fiStatus fi) = RunningPhase then State_Monad.return None
      else do {
        (e, emitActiveEvent) \<leftarrow> retry_on_conflict (rcRetries r) (running_attempt r fi) False;
        (case e of
           Some err \<Rightarrow> do {
             eventf r ''Warning'' ''StatusUpdateFailed'' ''status-update'';
             State_Monad.return (Some err)
           }
         | None \<Rightarrow> do {
             (if emitActiveEvent then eventf r ''Normal'' ''Active'' ''mark-running''
              else State_Monad.return ());
             State_Monad.return None
           })
      })"

section \<open>Reconcile\<close>

definition time_until :: "'w reconciler \<Rightarrow> time \<Rightarrow> ('w, int) eff" where
  "time_until r t = do { now \<leftarrow> time_now r; State_Monad.return (time_sub t now) }"

text \<open>The end: when to come back. A nil \<open>expiresAt\<close> of the object read last is a nil dereference.\<close>

definition requeue_step ::
  "'w reconciler \<Rightarrow> faultInjection \<Rightarrow> time option \<Rightarrow> ('w, ctrlResult \<times> goerr option) eff" where
  "requeue_step r fi nextDue =
     (case stExpiresAt (fiStatus fi) of
        None \<Rightarrow> State_Monad.return (no_requeue, Some EPanic)
      | Some expiresAt \<Rightarrow> do {
          requeueAfter \<leftarrow> time_until r expiresAt;
          (case nextDue of
             None \<Rightarrow> State_Monad.return (\<lparr>crRequeue = False, crRequeueAfter = requeueAfter\<rparr>, None)
           | Some due \<Rightarrow> do {
               d1 \<leftarrow> time_until r due;
               let after1 = (if d1 > 0 \<and> d1 < requeueAfter then d1 else requeueAfter);
               d2 \<leftarrow> time_until r due;
               let after2 = (if d2 \<le> 0 then second else after1);
               State_Monad.return (\<lparr>crRequeue = False, crRequeueAfter = after2\<rparr>, None)
             })
        })"

text \<open>From \<open>markRunning\<close> on.\<close>

definition run_step ::
  "'w reconciler \<Rightarrow> string \<Rightarrow> string \<Rightarrow> faultInjection \<Rightarrow> time \<Rightarrow> ('w, ctrlResult \<times> goerr option) eff" where
  "run_step r reqNS reqName fi now = do {
     m \<leftarrow> markRunning r fi;
     (case m of
        Some e \<Rightarrow> State_Monad.return (no_requeue, Some e)
      | None \<Rightarrow> do {
          g \<leftarrow> getFI r reqNS reqName;
          (case g of
             Inl e \<Rightarrow> State_Monad.return (no_requeue, ignoreNotFound e)
           | Inr fi' \<Rightarrow> do {
               (podStop, nextDue, perr) \<leftarrow> applyPodFaults r fi' now;
               (case perr of
                  Some e \<Rightarrow> State_Monad.return (no_requeue, Some e)
                | None \<Rightarrow>
                    if podStop then State_Monad.return (no_requeue, None)
                    else requeue_step r fi' nextDue)
             })
        })
   }"

text \<open>From \<open>buildDesiredByVSTarget\<close> on: the spec is valid.\<close>

definition apply_step ::
  "'w reconciler \<Rightarrow> string \<Rightarrow> string \<Rightarrow> faultInjection \<Rightarrow> time \<Rightarrow> ('w, ctrlResult \<times> goerr option) eff" where
  "apply_step r reqNS reqName fi now =
     (case buildDesiredByVSTarget fi of
        None \<Rightarrow> State_Monad.return (no_requeue, Some EPanic)
      | Some (desiredByVSTarget, managedVSNames) \<Rightarrow> do {
          a \<leftarrow> applyDesiredTargets r fi desiredByVSTarget;
          (case a of
             Inl e \<Rightarrow> State_Monad.return (no_requeue, Some e)
           | Inr stop \<Rightarrow>
               if stop then State_Monad.return (no_requeue, None)
               else do {
                 c \<leftarrow> cleanupOrphanedManagedVS r fi managedVSNames;
                 (if c \<noteq> None then eventf r ''Warning'' ''OrphanCleanupFailed'' ''cleanup-orphans''
                  else State_Monad.return ());
                 run_step r reqNS reqName fi now
               })
        })"

text \<open>From the test of \<open>spec.cancel\<close> on.\<close>

definition reconcile_loaded ::
  "'w reconciler \<Rightarrow> string \<Rightarrow> string \<Rightarrow> faultInjection \<Rightarrow> time \<Rightarrow> ('w, ctrlResult \<times> goerr option) eff" where
  "reconcile_loaded r reqNS reqName fi now =
     (if spCancel (fiSpec fi) then handleCancellation r reqNS reqName fi now
      else if stExpiresAt (fiStatus fi) = None \<or> stStartedAt (fiStatus fi) = None then do {
        (_, changed) \<leftarrow> ensureLifecycle r fi;
        State_Monad.return
          (if changed then (\<lparr>crRequeue = True, crRequeueAfter = 0\<rparr>, None) else (no_requeue, None))
      }
      else if (case stExpiresAt (fiStatus fi) of Some t \<Rightarrow> now > t | None \<Rightarrow> False) then handleExpiry r fi
      else do {
        v \<leftarrow> validateSpec r fi;
        (case v of
           Some e \<Rightarrow> handleValidationError r fi e
         | None \<Rightarrow> apply_step r reqNS reqName fi now)
      })"

definition lifecycle_status :: "faultInjection \<Rightarrow> faultInjectionStatus \<Rightarrow> faultInjectionStatus" where
  "lifecycle_status fi st =
     st\<lparr>stStartedAt := stStartedAt (fiStatus fi), stExpiresAt := stExpiresAt (fiStatus fi)\<rparr>"

definition Reconcile ::
  "'w reconciler \<Rightarrow> string \<Rightarrow> string \<Rightarrow> ('w, ctrlResult \<times> goerr option) eff" where
  "Reconcile r reqNS reqName = do {
     g \<leftarrow> getFI r reqNS reqName;
     (case g of
        Inl e \<Rightarrow> State_Monad.return (no_requeue, ignoreNotFound e)
      | Inr fi0 \<Rightarrow> do {
          now \<leftarrow> time_now r;
          (fi1, lifecycleChanged) \<leftarrow> ensureLifecycle r fi0;
          (if lifecycleChanged then do {
             u \<leftarrow> update_status r reqNS reqName (\<lambda>st. Some (lifecycle_status fi1 st));
             (case u of
                Some e \<Rightarrow> do {
                  eventf r ''Warning'' ''StatusUpdateFailed'' ''status-update'';
                  State_Monad.return (no_requeue, Some e)
                }
              | None \<Rightarrow> do {
                  g2 \<leftarrow> getFI r reqNS reqName;
                  (case g2 of
                     Inl e \<Rightarrow> State_Monad.return (no_requeue, ignoreNotFound e)
                   | Inr fi2 \<Rightarrow> reconcile_loaded r reqNS reqName fi2 now)
                })
           }
           else reconcile_loaded r reqNS reqName fi1 now)
        })
   }"

section \<open>Set-up\<close>

text \<open>What \<open>SetupWithManager\<close> changes in the reconciler: a recorder, and a holder if there is none.\<close>

definition SetupWithManager :: "'w reconciler \<Rightarrow> 'w reconciler" where
  "SetupWithManager r = r\<lparr>rcRecorder := True,
     rcHolderIdentity := (if TrimSpace (rcHolderIdentity r) = [] then ''fi-operator''
                          else rcHolderIdentity r)\<rparr>"

section \<open>What the lifecycle does\<close>

text \<open>
  The lifecycle as a function of the clock: an object with a valid duration gets the start it has
  or the time now, and the expiry that belongs to it; the flag says whether that changed it.
\<close>

definition lifecycle_spec :: "time \<Rightarrow> faultInjection \<Rightarrow> faultInjection \<times> bool" where
  "lifecycle_spec now fi =
     (if brDurationSeconds (spBlastRadius (fiSpec fi)) \<le> 0 then (fi, False)
      else
        let start = (case stStartedAt (fiStatus fi) of Some t \<Rightarrow> t | None \<Rightarrow> now);
            fi' = fi\<lparr>fiStatus := (fiStatus fi)\<lparr>stStartedAt := Some start,
                     stExpiresAt := Some (expiry_of fi start)\<rparr>\<rparr>
        in (fi', fi' \<noteq> fi))"

lemma refresh_result:
  "result_of (refresh_expiry r fi start b) s =
     (set_expires fi (expiry_of fi start), b \<or> stExpiresAt (fiStatus fi) \<noteq> Some (expiry_of fi start))"
  by (auto simp: refresh_expiry_def result_of_def eventf_def emit_def set_expires_def)

lemma result_bind: "result_of (State_Monad.bind m f) s = result_of (f (result_of m s)) (snd (run_state m s))"
  by (simp add: result_of_def split: prod.split)

lemma result_time: "result_of (time_now r) s = fst (rcNow r (world s))"
  by (simp add: result_of_def time_now_def split: prod.split)

lemma ensureLifecycle_result:
  "result_of (ensureLifecycle r fi) s = lifecycle_spec (fst (rcNow r (world s))) fi"
proof -
  have ret: "result_of (State_Monad.return v) s = v" for v :: "faultInjection \<times> bool" and s :: "'a sys"
    by (simp add: result_of_def)
  have e: "expiry_of (set_started fi t) u = expiry_of fi u" for t u
    by (simp add: expiry_of_def set_started_def)
  show ?thesis
  proof (cases "brDurationSeconds (spBlastRadius (fiSpec fi)) \<le> 0")
    case True
    then show ?thesis
      by (simp add: ensureLifecycle_def result_bind result_time ret lifecycle_spec_def)
  next
    case False
    show ?thesis
    proof (cases "stStartedAt (fiStatus fi)")
      case None
      have "fi\<lparr>fiStatus := fiStatus fi\<lparr>stStartedAt := Some t, stExpiresAt := Some u\<rparr>\<rparr> \<noteq> fi" for t u
        using None by (cases fi; cases "fiStatus fi") auto
      moreover have "set_expires (set_started fi t) u
          = fi\<lparr>fiStatus := fiStatus fi\<lparr>stStartedAt := Some t, stExpiresAt := Some u\<rparr>\<rparr>" for t u
        by (simp add: set_expires_def set_started_def)
      ultimately show ?thesis using False None
        by (simp add: ensureLifecycle_def result_bind result_time refresh_result lifecycle_spec_def
            e Let_def)
    next
      case (Some t)
      have "(fi\<lparr>fiStatus := fiStatus fi\<lparr>stStartedAt := Some t, stExpiresAt := Some u\<rparr>\<rparr> = fi)
          \<longleftrightarrow> stExpiresAt (fiStatus fi) = Some u" for u
        using Some by (cases fi; cases "fiStatus fi") auto
      moreover have "fi\<lparr>fiStatus := fiStatus fi\<lparr>stExpiresAt := Some u\<rparr>\<rparr>
          = fi\<lparr>fiStatus := fiStatus fi\<lparr>stStartedAt := Some t, stExpiresAt := Some u\<rparr>\<rparr>" for u
        using Some by (cases fi; cases "fiStatus fi") auto
      ultimately show ?thesis using False Some
        by (simp add: ensureLifecycle_def result_bind result_time refresh_result lifecycle_spec_def
            set_expires_def Let_def)
    qed
  qed
qed

lemma lifecycle_idem: "lifecycle_spec t (fst (lifecycle_spec t' fi)) = (fst (lifecycle_spec t' fi), False)"
  by (cases "brDurationSeconds (spBlastRadius (fiSpec fi)) \<le> 0")
    (auto simp: lifecycle_spec_def Let_def expiry_of_def split: option.splits)

lemma expiry_exact:
  "0 < brDurationSeconds (spBlastRadius (fiSpec fi)) \<Longrightarrow>
   brDurationSeconds (spBlastRadius (fiSpec fi)) \<le> 9223372036 \<Longrightarrow>
   expiry_of fi start = start + brDurationSeconds (spBlastRadius (fiSpec fi)) * second"
  by (simp add: expiry_of_def to_i64_id in_i64_def second_def)

lemma expiry_wraps:
  "brDurationSeconds (spBlastRadius (fiSpec fi)) = 9223372037 \<Longrightarrow> expiry_of fi start < start"
proof -
  have "to_i64 (9223372037 * second) = - 9223372036709551616" by code_simp
  then show "brDurationSeconds (spBlastRadius (fiSpec fi)) = 9223372037 \<Longrightarrow> expiry_of fi start < start"
    by (simp add: expiry_of_def)
qed

text \<open>A dated object: with a start and the expiry that belongs to it, so that the lifecycle keeps it.\<close>

definition dated :: "faultInjection \<Rightarrow> bool" where
  "dated fi \<longleftrightarrow> (case stStartedAt (fiStatus fi) of
     Some t \<Rightarrow> stExpiresAt (fiStatus fi) = Some (expiry_of fi t) | None \<Rightarrow> False)"

lemma lifecycle_dated: "dated fi \<Longrightarrow> lifecycle_spec now fi = (fi, False)"
proof -
  assume "dated fi"
  then obtain t where t: "stStartedAt (fiStatus fi) = Some t" "stExpiresAt (fiStatus fi) = Some (expiry_of fi t)"
    by (auto simp: dated_def split: option.splits)
  have "fi\<lparr>fiStatus := fiStatus fi\<lparr>stStartedAt := Some t, stExpiresAt := Some (expiry_of fi t)\<rparr>\<rparr> = fi"
    using t by (cases fi; cases "fiStatus fi") auto
  then show ?thesis using t by (simp add: lifecycle_spec_def Let_def)
qed

lemma result_bind_run:
  "run_state (State_Monad.bind m f) s = run_state (f (result_of m s)) (snd (run_state m s))"
  by (simp add: result_of_def split: prod.split)

lemma runs_grows: "runs m Q \<Longrightarrow> \<exists>ops. trace (snd (run_state m s)) = trace s @ ops"
  unfolding runs_def by blast

lemma Reconcile_dated:
  assumes "fst (rcGetFI r ns n (world s)) = Inr fi" "dated fi"
  shows "\<exists>s' ops. trace s' = trace s @ ops \<and> run_state (Reconcile r ns n) s
    = run_state (reconcile_loaded r ns n fi (fst (rcNow r (snd (rcGetFI r ns n (world s)))))) s'"
proof -
  let ?s1 = "snd (run_state (getFI r ns n) s)"
  let ?s2 = "snd (run_state (time_now r) ?s1)"
  have runs: "runs (getFI r ns n) (\<lambda>_ _. True)" "runs (time_now r) (\<lambda>_ _. True)" "runs (ensureLifecycle r fi) (\<lambda>_ _. True)"
    unfolding ensureLifecycle_def refresh_expiry_def by (intro runs_intro; simp)+
  obtain a b c where "trace ?s1 = trace s @ a" "trace ?s2 = trace ?s1 @ b"
      "trace (snd (run_state (ensureLifecycle r fi) ?s2)) = trace ?s2 @ c"
    using runs_grows [OF runs(1), of s] runs_grows [OF runs(2), of ?s1] runs_grows [OF runs(3), of ?s2] by blast
  then have grows: "\<exists>ops. trace (snd (run_state (ensureLifecycle r fi) ?s2)) = trace s @ ops" by simp
  have g: "result_of (getFI r ns n) s = Inr fi" "world (snd (run_state (getFI r ns n) s)) = snd (rcGetFI r ns n (world s))"
    using assms(1) by (auto simp: getFI_def call_def result_of_def split: prod.split)
  have "run_state (Reconcile r ns n) s
    = run_state (reconcile_loaded r ns n fi (fst (rcNow r (snd (rcGetFI r ns n (world s))))))
        (snd (run_state (ensureLifecycle r fi) ?s2))"
    by (simp only: Reconcile_def result_bind_run g sum.case result_time ensureLifecycle_result
        lifecycle_dated [OF assms(2)] prod.case if_False)
  then show ?thesis using grows by blast
qed

section \<open>When to come back\<close>

definition requeue_after :: "time \<Rightarrow> time \<Rightarrow> time \<Rightarrow> time \<Rightarrow> time option \<Rightarrow> int" where
  "requeue_after t1 t2 t3 expiresAt nextDue =
     (case nextDue of
        None \<Rightarrow> time_sub expiresAt t1
      | Some due \<Rightarrow>
          if time_sub due t3 \<le> 0 then second
          else if 0 < time_sub due t2 then min (time_sub due t2) (time_sub expiresAt t1)
          else time_sub expiresAt t1)"

lemma requeue_step_result:
  assumes "stExpiresAt (fiStatus fi) = Some e" "rcNow r (world s) = (t1, w1)" "rcNow r w1 = (t2, w2)"
    and "rcNow r w2 = (t3, w3)"
  shows "result_of (requeue_step r fi due) s
    = (\<lparr>crRequeue = False, crRequeueAfter = requeue_after t1 t2 t3 e due\<rparr>, None)"
  using assms
  by (auto simp: requeue_step_def time_until_def time_now_def result_of_def requeue_after_def Let_def
      min_def split: option.split prod.split)

lemma requeue_after_pos:
  "0 < requeue_after t1 t2 t3 e due
    \<longleftrightarrow> t1 < e \<or> (case due of Some d \<Rightarrow> d \<le> t3 | None \<Rightarrow> False)"
  by (auto simp: requeue_after_def time_sub_def second_def split: option.split)

end
