(* ===== verification/Status.thy ===== *)
theory Status
  imports Controller
begin

text \<open>
  The status of a FaultInjection as a state machine: the edits the operator makes, each named
  after the code that makes it, the statuses that a history of such edits can reach, and what
  holds of all of them. The law of \<open>Laws.thy\<close> shows that every status the operator writes is one
  step of this machine away from a status it read.
\<close>

section \<open>Steps\<close>

inductive status_step :: "faultInjectionStatus \<Rightarrow> faultInjectionStatus \<Rightarrow> bool" where
  lifecycle: "status_step st (st\<lparr>stStartedAt := Some t, stExpiresAt := Some e\<rparr>)"
| running: "stPhase st \<noteq> RunningPhase \<Longrightarrow> status_step st (running_status st)"
| cancelled: "status_step st (cancelled_status now st)"
| completed: "status_step st (completed_status st)"
| failed: "status_step st (st\<lparr>stPhase := ErrorPhase, stMessage := msg\<rparr>)"
| planned: "planned_status p now st = Some st' \<Longrightarrow> status_step st st'"
| executed: "status_step st (executed_status p now b msg' st)"

inductive_cases status_stepE: "status_step st st'"

text \<open>A status before the operator has written it.\<close>

definition fresh_status :: "faultInjectionStatus \<Rightarrow> bool" where
  "fresh_status st \<longleftrightarrow> stPhase st = [] \<and> stCancelledAt st = None \<and> stPodFaults st = []"

inductive reachable :: "faultInjectionStatus \<Rightarrow> bool" where
  start: "fresh_status st \<Longrightarrow> reachable st"
| step: "reachable st \<Longrightarrow> status_step st st' \<Longrightarrow> reachable st'"

lemma reachable_later: "reachable st \<Longrightarrow> status_step\<^sup>*\<^sup>* st st' \<Longrightarrow> reachable st'"
  by (rotate_tac, induction rule: rtranclp_induct) (auto intro: reachable.step)

section \<open>Invariants\<close>

text \<open>
  An invariant of the machine: true of a fresh status and kept by every step. A relation that
  every step keeps: between a status and all later ones.
\<close>

locale status_invariant =
  fixes I :: "faultInjectionStatus \<Rightarrow> bool"
  assumes fresh: "fresh_status st \<Longrightarrow> I st"
    and step_keeps: "I st \<Longrightarrow> status_step st st' \<Longrightarrow> I st'"
begin

lemma holds: "reachable st \<Longrightarrow> I st"
  by (induction rule: reachable.induct) (auto intro: fresh step_keeps)

end

locale status_order =
  fixes R :: "faultInjectionStatus \<Rightarrow> faultInjectionStatus \<Rightarrow> bool"
  assumes order_refl: "R st st"
    and order_trans: "R a b \<Longrightarrow> R b c \<Longrightarrow> R a c"
    and step_below: "status_step st st' \<Longrightarrow> R st st'"
begin

lemma history: "status_step\<^sup>*\<^sup>* st st' \<Longrightarrow> R st st'"
  by (induction rule: rtranclp_induct) (auto intro: order_refl order_trans step_below)

end

lemmas phase_edits = running_status_def cancelled_status_def completed_status_def

text \<open>An entry that \<open>applyPodFaults\<close> skips: its state is Succeeded or Failed.\<close>

definition terminal_tick :: "podFaultTickStatus \<Rightarrow> bool" where
  "terminal_tick e \<longleftrightarrow> isTerminalTickState (tkState e)"

lemma terminal_finished: "terminal_tick e \<Longrightarrow> tick_finished e"
  by (simp add: terminal_tick_def tick_finished_def isTerminalTickState_def)

lemma terminal_finish [simp]: "terminal_tick (finish_tick p now b msg e)"
  by (cases b) (simp_all add: terminal_tick_def finish_tick_def isTerminalTickState_def)

text \<open>The entry of a tick after an outcome of it was recorded.\<close>

definition recorded_over :: "string \<times> string \<Rightarrow> podFaultTickStatus \<Rightarrow> podFaultTickStatus \<Rightarrow> bool" where
  "recorded_over k e e' \<longleftrightarrow> (\<exists>p now b msg. plan_key p = k \<and> e' = finish_tick p now b msg e)"

lemma step_ticks:
  assumes "status_step st st'"
  shows "stPodFaults st' = stPodFaults st
    \<or> (\<exists>p f. keeps_key f \<and> stPodFaults st' = change_tick (stPodFaults st) (plan_key p) f
        \<and> (\<forall>e. find_tick (stPodFaults st) (plan_key p) = Some e \<and> tick_finished e \<longrightarrow>
              terminal_tick (f e) \<and> recorded_over (plan_key p) e (f e)))"
  using assms
proof cases
  case (planned p now)
  then show ?thesis
    by (auto simp: planned_status_eq split: if_splits intro!: exI [of _ p] exI [of _ "plan_tick p now"])
next
  case (executed p now b msg')
  then show ?thesis
    by (auto simp: executed_status_eq
        intro!: exI [of _ p] exI [of _ "finish_tick p now b msg'"] simp: recorded_over_def)
qed (auto simp: phase_edits)

text \<open>One entry per action and tick.\<close>

interpretation distinct_ticks: status_invariant "\<lambda>st. ticks_distinct (stPodFaults st)"
proof unfold_locales
  show "fresh_status st \<Longrightarrow> ticks_distinct (stPodFaults st)" for st
    by (simp add: fresh_status_def ticks_distinct_def)
  show "ticks_distinct (stPodFaults st')" if "ticks_distinct (stPodFaults st)" "status_step st st'" for st st'
    using step_ticks [OF that(2)] that(1) by (auto intro: ticks.wf_change)
qed

text \<open>
  The outcome of a tick: an entry that has one keeps it, as it is, but for outcomes recorded over it;
  it is never removed and never planned again.
\<close>

definition entry_kept ::
  "(podFaultTickStatus \<Rightarrow> bool) \<Rightarrow> faultInjectionStatus \<Rightarrow> faultInjectionStatus \<Rightarrow> bool" where
  "entry_kept T st st' \<longleftrightarrow>
     (\<forall>k e. find_tick (stPodFaults st) k = Some e \<and> T e \<longrightarrow>
        (\<exists>e'. find_tick (stPodFaults st') k = Some e' \<and> T e' \<and> (recorded_over k)\<^sup>*\<^sup>* e e'))"

definition finished_kept :: "faultInjectionStatus \<Rightarrow> faultInjectionStatus \<Rightarrow> bool" where
  "finished_kept = entry_kept tick_finished"

definition terminal_kept :: "faultInjectionStatus \<Rightarrow> faultInjectionStatus \<Rightarrow> bool" where
  "terminal_kept = entry_kept terminal_tick"

lemma step_entry_kept:
  assumes "\<And>e. terminal_tick e \<Longrightarrow> T e" "\<And>e. T e \<Longrightarrow> tick_finished e" "status_step st st'"
  shows "entry_kept T st st'"
  unfolding entry_kept_def
proof (intro allI impI)
  fix k e assume e: "find_tick (stPodFaults st) k = Some e \<and> T e"
  show "\<exists>e'. find_tick (stPodFaults st') k = Some e' \<and> T e' \<and> (recorded_over k)\<^sup>*\<^sup>* e e'"
    using step_ticks [OF assms(3)]
  proof
    assume "\<exists>p f. keeps_key f \<and> stPodFaults st' = change_tick (stPodFaults st) (plan_key p) f
      \<and> (\<forall>e. find_tick (stPodFaults st) (plan_key p) = Some e \<and> tick_finished e \<longrightarrow>
            terminal_tick (f e) \<and> recorded_over (plan_key p) e (f e))"
    then obtain p f where f: "keeps_key f" "stPodFaults st' = change_tick (stPodFaults st) (plan_key p) f"
      "\<forall>e. find_tick (stPodFaults st) (plan_key p) = Some e \<and> tick_finished e \<longrightarrow>
         terminal_tick (f e) \<and> recorded_over (plan_key p) e (f e)"
      by blast
    then show ?thesis
      using e assms(1,2) ticks.find_change [OF f(1), of "stPodFaults st" "plan_key p" k]
      by (cases "k = plan_key p") auto
  qed (use e in auto)
qed

lemma entry_kept_order: "entry_kept T st st" "entry_kept T a b \<Longrightarrow> entry_kept T b c \<Longrightarrow> entry_kept T a c"
  unfolding entry_kept_def by (blast, meson rtranclp_trans)

interpretation outcomes: status_order finished_kept
  unfolding finished_kept_def
  by unfold_locales (auto intro: entry_kept_order step_entry_kept terminal_finished)

interpretation terminals: status_order terminal_kept
  unfolding terminal_kept_def
  by unfold_locales (auto intro: entry_kept_order step_entry_kept terminal_finished)

text \<open>The time of a cancellation is set once, the reason of the stop as well.\<close>

definition stop_kept :: "faultInjectionStatus \<Rightarrow> faultInjectionStatus \<Rightarrow> bool" where
  "stop_kept st st' \<longleftrightarrow>
     (stCancelledAt st \<noteq> None \<longrightarrow> stCancelledAt st' = stCancelledAt st)
     \<and> (stStopReason st \<noteq> [] \<longrightarrow> stStopReason st' = stStopReason st)"

lemma step_others:
  assumes "status_step st st'"
  shows "stop_kept st st'" "stRules st' = stRules st"
  using assms
  by (cases; auto simp: stop_kept_def phase_edits executed_status_eq planned_status_eq
      split: if_splits option.splits)+

interpretation stops: status_order stop_kept
  by unfold_locales (auto simp: stop_kept_def dest: step_others)

text \<open>The phase is one of the four the operator writes; Cancelled comes with its time.\<close>

definition phase_ok :: "faultInjectionStatus \<Rightarrow> bool" where
  "phase_ok st \<longleftrightarrow>
     stPhase st \<in> {[], RunningPhase, CancelledPhase, CompletedPhase, ErrorPhase}
     \<and> (stPhase st = CancelledPhase \<longrightarrow> stCancelledAt st \<noteq> None \<and> stStopReason st \<noteq> [])
     \<and> (stPhase st = CompletedPhase \<longrightarrow> stStopReason st \<noteq> [])"

interpretation phases: status_invariant phase_ok
proof unfold_locales
  show "phase_ok st'" if "phase_ok st" "status_step st st'" for st st'
    using that(2,1)
    by cases (auto simp: phase_ok_def phase_edits executed_status_eq planned_status_eq
        split: if_splits option.splits)
qed (auto simp: phase_ok_def fresh_status_def)

section \<open>The edits of the code\<close>

text \<open>
  An edit makes steps, and the phase it moves to has its reason in the objects read before:
  Running a valid spec that is not cancelled, Cancelled a cancelled one, Completed an expiry. Dates
  come from an object read before: its start, if it has one, and the expiry that follows from it.
\<close>

definition got :: "op list \<Rightarrow> faultInjection \<Rightarrow> bool" where
  "got before fi \<longleftrightarrow> (\<exists>ns n. OpGetFI ns n (Inr fi) \<in> set before)"

text \<open>A spec that may inject: not cancelled and valid.\<close>

definition may_inject :: "faultInjection \<Rightarrow> bool" where
  "may_inject fi \<longleftrightarrow> \<not> spCancel (fiSpec fi) \<and> spec_ok fi"

definition phase_reason :: "op list \<Rightarrow> string \<Rightarrow> bool" where
  "phase_reason before ph \<longleftrightarrow>
     (ph = RunningPhase \<longrightarrow> (\<exists>fi. got before fi \<and> may_inject fi))
     \<and> (ph = CancelledPhase \<longrightarrow> (\<exists>fi. got before fi \<and> spCancel (fiSpec fi)))
     \<and> (ph = CompletedPhase \<longrightarrow>
         (\<exists>fi. got before fi \<and> \<not> spCancel (fiSpec fi) \<and> stExpiresAt (fiStatus fi) \<noteq> None))"

definition dates_reason :: "op list \<Rightarrow> faultInjectionStatus \<Rightarrow> bool" where
  "dates_reason before st \<longleftrightarrow>
     (\<exists>fi t. got before fi \<and> stStartedAt st = Some t \<and> stExpiresAt st = Some (expiry_of fi t)
        \<and> (case stStartedAt (fiStatus fi) of None \<Rightarrow> True | Some t' \<Rightarrow> t' = t))"

definition same_dates :: "faultInjectionStatus \<Rightarrow> faultInjectionStatus \<Rightarrow> bool" where
  "same_dates st st' \<longleftrightarrow> stStartedAt st' = stStartedAt st \<and> stExpiresAt st' = stExpiresAt st"

definition status_ok :: "op list \<Rightarrow> faultInjectionStatus \<Rightarrow> faultInjectionStatus \<Rightarrow> bool" where
  "status_ok before st st' \<longleftrightarrow>
     status_step st st' \<and> (stPhase st' = stPhase st \<or> phase_reason before (stPhase st'))
     \<and> (same_dates st st' \<or> dates_reason before st')"

definition edit_ok :: "op list \<Rightarrow> (faultInjectionStatus \<Rightarrow> faultInjectionStatus option) \<Rightarrow> bool" where
  "edit_ok before edit \<longleftrightarrow> (\<forall>st st'. edit st = Some st' \<longrightarrow> status_ok before st st')"

lemma got_append [simp]: "got (a @ b) fi \<longleftrightarrow> got a fi \<or> got b fi"
  by (auto simp: got_def)

lemma phase_reason_mono: "phase_reason a ph \<Longrightarrow> set a \<subseteq> set b \<Longrightarrow> phase_reason b ph"
  unfolding phase_reason_def got_def by blast

lemma dates_reason_mono: "dates_reason a st \<Longrightarrow> set a \<subseteq> set b \<Longrightarrow> dates_reason b st"
  unfolding dates_reason_def got_def by blast

lemma status_ok_mono: "status_ok a st st' \<Longrightarrow> set a \<subseteq> set b \<Longrightarrow> status_ok b st st'"
  unfolding status_ok_def using phase_reason_mono dates_reason_mono by blast

text \<open>Every edit but that of the lifecycle keeps the dates.\<close>

lemma same_dates_edits [simp]:
  "same_dates st (cancelled_status now st)" "same_dates st (completed_status st)" "same_dates st (running_status st)"
  "same_dates st (st\<lparr>stPhase := ph, stMessage := msg\<rparr>)" "same_dates st (executed_status p now b txt st)"
  by (simp_all add: same_dates_def phase_edits executed_status_eq)

lemma same_dates_planned: "planned_status p now st = Some st' \<Longrightarrow> same_dates st st'"
  by (auto simp: same_dates_def planned_status_eq split: if_splits)

lemma edit_ok_executed [simp]: "edit_ok pre (\<lambda>st. Some (executed_status p now b msg st))"
  by (auto simp: edit_ok_def status_ok_def intro: status_step.executed) (simp add: executed_status_eq)

lemma edit_ok_planned [simp]: "edit_ok pre (planned_status p now)"
  unfolding edit_ok_def status_ok_def
  by (auto intro: status_step.planned same_dates_planned) (auto simp: planned_status_eq split: if_splits)

lemma edit_ok_failed [simp]: "edit_ok pre (\<lambda>st. Some (st\<lparr>stPhase := ErrorPhase, stMessage := msg\<rparr>))"
  by (auto simp: edit_ok_def status_ok_def phase_reason_def intro: status_step.failed)

lemma phase_of_edits [simp]:
  "stPhase (cancelled_status now st) = CancelledPhase"
  "stPhase (completed_status st) = CompletedPhase"
  "stPhase (running_status st) = RunningPhase"
  by (simp_all add: phase_edits)

lemma edit_ok_cancelled:
  "got pre fi \<Longrightarrow> spCancel (fiSpec fi) \<Longrightarrow> edit_ok pre (\<lambda>st. Some (cancelled_status now st))"
  by (auto simp: edit_ok_def status_ok_def phase_reason_def intro: status_step.cancelled)

lemma edit_ok_completed:
  "got pre fi \<Longrightarrow> \<not> spCancel (fiSpec fi) \<Longrightarrow> stExpiresAt (fiStatus fi) \<noteq> None \<Longrightarrow>
   edit_ok pre (\<lambda>st. Some (completed_status st))"
  by (auto simp: edit_ok_def status_ok_def phase_reason_def intro: status_step.completed)

text \<open>The object that \<open>ensureLifecycle\<close> has dated for one read before.\<close>

definition dated_from :: "faultInjection \<Rightarrow> faultInjection \<Rightarrow> bool" where
  "dated_from fi0 fi \<longleftrightarrow>
     (\<exists>t. stStartedAt (fiStatus fi) = Some t \<and> stExpiresAt (fiStatus fi) = Some (expiry_of fi0 t)
        \<and> (case stStartedAt (fiStatus fi0) of None \<Rightarrow> True | Some t' \<Rightarrow> t' = t))"

lemma edit_ok_lifecycle:
  assumes "got pre fi0" "dated_from fi0 fi"
  shows "edit_ok pre (\<lambda>st. Some (lifecycle_status fi st))"
proof -
  obtain t where t: "stStartedAt (fiStatus fi) = Some t" "stExpiresAt (fiStatus fi) = Some (expiry_of fi0 t)"
      "case stStartedAt (fiStatus fi0) of None \<Rightarrow> True | Some t' \<Rightarrow> t' = t"
    using assms(2) unfolding dated_from_def by blast
  have "dates_reason pre (lifecycle_status fi st)" for st
    unfolding dates_reason_def lifecycle_status_def using assms(1) t by (intro exI [of _ fi0] exI [of _ t]) simp
  then show ?thesis
    using t by (auto simp: edit_ok_def status_ok_def intro: status_step.lifecycle) (auto simp: lifecycle_status_def intro: status_step.lifecycle)
qed

definition running_edit :: "faultInjectionStatus \<Rightarrow> faultInjectionStatus option" where
  "running_edit st = (if stPhase st = RunningPhase then None else Some (running_status st))"

lemma edit_ok_running: "got pre fi \<Longrightarrow> may_inject fi \<Longrightarrow> edit_ok pre running_edit"
  by (auto simp: edit_ok_def status_ok_def running_edit_def phase_reason_def
      intro: status_step.running split: if_splits)

text \<open>The update that marks an experiment as running goes in the same rounds, and may emit an event after them.\<close>

definition marked_running :: "'w reconciler \<Rightarrow> faultInjection \<Rightarrow> goerr option \<Rightarrow> op list \<Rightarrow> bool" where
  "marked_running r fi e ops \<longleftrightarrow>
     (if stPhase (fiStatus fi) = RunningPhase then e = None \<and> ops = []
      else \<exists>a b. ops = a @ b \<and> list_all event_op b
        \<and> status_rounds running_edit (fiNamespace fi) (fiName fi) (rcRetries r) e a)"

lemma runs_running_round:
  "runs (running_attempt r fi b) (\<lambda>x ops. status_round running_edit (fiNamespace fi) (fiName fi) (fst x) ops)"
  unfolding running_attempt_def
  by (intro runs_intro) (auto simp: running_edit_def intro!: status_round.intros)

lemma runs_marked_running: "runs (markRunning r fi) (marked_running r fi)"
proof -
  have ev: "runs (do { (if b then eventf r t x a else State_Monad.return ()); State_Monad.return v })
      (\<lambda>e ops. e = v \<and> list_all event_op ops)"
    "runs (do { eventf r t x a; State_Monad.return v }) (\<lambda>e ops. e = v \<and> list_all event_op ops)"
    for t x a b and v :: "goerr option"
    by (intro runs_intro; simp)+
  show ?thesis
    unfolding markRunning_def
    apply (rule runs_if, rule runs_return, simp add: marked_running_def)
    apply (rule runs_bind, rule runs_conseq [OF runs_status_rounds [OF runs_running_round]], rule runs_case_prod)
    apply (rule runs_case_option; rule runs_conseq [OF ev(1)] runs_conseq [OF ev(2)])
     apply (auto simp: marked_running_def)
    done
qed

end
