(* ===== verification/Laws.thy ===== *)
theory Laws
  imports Status
begin

text \<open>
  What a whole reconcile can do to the cluster, whatever the API server answers: the law every
  request of \<open>Reconcile\<close> obeys, given the requests before it. The lemmas go through the code from
  the steps of a plan to \<open>Reconcile\<close>.
\<close>

section \<open>The law\<close>

text \<open>A VirtualService that the server returned earlier in the run.\<close>

definition got_vs :: "op list \<Rightarrow> vsObj \<Rightarrow> bool" where
  "got_vs before vs \<longleftrightarrow> vs \<in> set (concat (map obtained before))"

text \<open>Cleanup of a VirtualService takes the injected rules out and changes nothing else.\<close>

definition remove_update :: "faultInjection \<Rightarrow> vsObj \<Rightarrow> vsObj \<Rightarrow> bool" where
  "remove_update fi vs vs' \<longleftrightarrow>
     vsMeta vs' = vsMeta vs \<and> http_of vs' = user_rules fi vs
     \<and> (\<forall>k. k \<noteq> ''http'' \<longrightarrow> mget k (spec_of vs') = mget k (spec_of vs))"

text \<open>A VirtualService the controller may delete: one with the labels it gives to its own.\<close>

definition delete_vs_ok :: "faultInjection \<Rightarrow> op list \<Rightarrow> vsObj \<Rightarrow> bool" where
  "delete_vs_ok fi before vs \<longleftrightarrow>
     (\<exists>vs0. got_vs before vs0 \<and> vsMeta vs0 = vsMeta vs \<and> managed_by_fi fi vs)
     \<or> (\<exists>l. OpListVS (fiNamespace fi)
            [(''managed-by'', ''fi-operator''), (''chaos.sghaida.io/fi'', fiName fi)] (Inr l) \<in> set before
          \<and> vs \<in> set l)"

text \<open>Writes and deletions.\<close>

definition write_law :: "op list \<Rightarrow> op \<Rightarrow> bool" where
  "write_law before x =
     (case x of
        OpStatusUpdateFI fi' _ \<Rightarrow>
          (\<exists>fi. got before fi \<and> fiMeta fi' = fiMeta fi \<and> fiSpec fi' = fiSpec fi
             \<and> status_ok before (fiStatus fi) (fiStatus fi'))
      | OpUpdateVS vs' _ \<Rightarrow>
          (\<exists>fi vs. got before fi \<and> got_vs before vs
             \<and> (may_inject fi \<and> inject_update fi vs vs' \<or> remove_update fi vs vs'))
      | OpDeleteVS vs _ \<Rightarrow> (\<exists>fi. got before fi \<and> delete_vs_ok fi before vs)
      | OpDeleteJob j _ \<Rightarrow>
          (\<exists>ns n. OpGetJob ns n (Inr j) \<in> set before \<and> (isJobComplete j \<or> isJobFailed j))
          \<or> (\<exists>fi l. got before fi
               \<and> OpListJobs (fiNamespace fi) (podfault_labels fi) (Inr l) \<in> set before \<and> j \<in> set l)
      | OpDeleteLease v _ \<Rightarrow>
          (\<exists>fi l. got before fi
             \<and> OpListLeases (fiNamespace fi) (podfault_labels fi) (Inr l) \<in> set before \<and> v \<in> set l)
      | OpDeletePod p _ \<Rightarrow>
          (\<exists>fi l. got before fi
             \<and> OpListPods (fiNamespace fi) (podfault_labels fi) (Inr l) \<in> set before \<and> p \<in> set l)
          \<and> (pdPhase p = ''Succeeded'' \<or> pdPhase p = ''Failed'')
      | OpDeleteDeployment d _ \<Rightarrow>
          (\<exists>fi l. got before fi \<and> OpListDeployments (fiNamespace fi) (Inr l) \<in> set before
             \<and> d \<in> set l \<and> owned_by_fi fi d)
      | _ \<Rightarrow> True)"

text \<open>
  An object read under the name of another one, which was read before it: \<open>Reconcile\<close> reads the
  FaultInjection again between its validation and the pod faults.
\<close>

definition reread :: "op list \<Rightarrow> faultInjection \<Rightarrow> faultInjection \<Rightarrow> bool" where
  "reread before fi fi' \<longleftrightarrow>
     (\<exists>ns n a b. before = a @ OpGetFI ns n (Inr fi) # b \<and> OpGetFI ns n (Inr fi') \<in> set b)"

text \<open>
  Injection: only for a FaultInjection that may inject, and jobs only for the plans of one that was
  read again under the name of one that may.
\<close>

definition inject_law :: "'w reconciler \<Rightarrow> op list \<Rightarrow> op \<Rightarrow> bool" where
  "inject_law r before x \<longleftrightarrow>
     (injects x \<longrightarrow> (\<exists>fi. got before fi \<and> may_inject fi))
     \<and> (\<forall>j e. x = OpCreateJob j e \<longrightarrow> 
          (\<exists>fi fi' now. may_inject fi \<and> reread before fi fi' \<and> job_of_spec r fi' now before x))"

definition law :: "'w reconciler \<Rightarrow> op list \<Rightarrow> op \<Rightarrow> bool" where
  "law r before x \<longleftrightarrow> write_law before x \<and> inject_law r before x"

lemma got_vs_append [simp]: "got_vs (a @ b) vs \<longleftrightarrow> got_vs a vs \<or> got_vs b vs"
  by (auto simp: got_vs_def)

lemma rereadI:
  assumes "OpGetFI ns n (Inr fi) \<in> set a" "OpGetFI ns n (Inr fi') \<in> set b"
  shows "reread (a @ b) fi fi'"
proof -
  obtain u v where "a = u @ OpGetFI ns n (Inr fi) # v" using assms(1) by (meson split_list)
  then have "a @ b = u @ OpGetFI ns n (Inr fi) # (v @ b)" "OpGetFI ns n (Inr fi') \<in> set (v @ b)"
    using assms(2) by simp_all
  then show ?thesis unfolding reread_def by blast
qed

lemma reread_got: "reread before fi fi' \<Longrightarrow> got before fi" "reread before fi fi' \<Longrightarrow> got before fi'"
  unfolding reread_def got_def by fastforce+

lemma reread_append: "reread a fi fi' \<Longrightarrow> reread (a @ b) fi fi'"
  unfolding reread_def by (metis Un_iff append.assoc append_Cons set_append)

lemma after_conj: "after J pre ops \<Longrightarrow> after K pre ops \<Longrightarrow> after (\<lambda>d x. J d x \<and> K d x) pre ops"
  by (induction ops arbitrary: pre) auto

lemma law_eq: "law r = (\<lambda>d x. write_law d x \<and> inject_law r d x)"
  by (intro ext) (simp add: law_def)

text \<open>Requests that write nothing but new objects.\<close>

fun plain_op :: "op \<Rightarrow> bool" where
  "plain_op (OpStatusUpdateFI _ _) = False"
| "plain_op (OpUpdateVS _ _) = False"
| "plain_op (OpDeleteVS _ _) = False"
| "plain_op (OpDeleteJob _ _) = False"
| "plain_op (OpDeleteLease _ _) = False"
| "plain_op (OpDeletePod _ _) = False"
| "plain_op (OpDeleteDeployment _ _) = False"
| "plain_op _ = True"

lemma write_law_plain: "plain_op x \<Longrightarrow> write_law before x"
  by (cases x) (simp_all add: write_law_def)

lemma after_plain: "list_all plain_op ops \<Longrightarrow> after write_law before ops"
  by (rule after_free) (auto simp: list_all_iff write_law_plain)

lemma runs_plain: "emits plain_op m \<Longrightarrow> runs m (\<lambda>_ ops. after write_law before ops)"
  by (drule always_runs, erule runs_conseq) (rule after_plain)

lemma emits_plain_event [always_intro]: "emits plain_op (eventf r t x a)"
  by (simp add: each.always_eventf)

lemma inject_law_quiet: "\<not> injects x \<Longrightarrow> inject_law r before x"
  by (auto simp: inject_law_def)

lemma runs_quiet_law:
  "emits (\<lambda>x. \<not> injects x) m \<Longrightarrow> runs m (\<lambda>_ ops. after write_law pre ops) \<Longrightarrow>
   runs m (\<lambda>_ ops. after (law r) pre ops)"
  unfolding law_eq
  by (drule always_runs, drule (1) runs_conj, erule runs_conseq, rule after_conj, blast,
      rule after_free) (auto intro: inject_law_quiet simp: list_all_iff)

text \<open>Sequencing without facts about the result.\<close>

lemma runs_seq:
  "runs m (\<lambda>_ ops. after J pre ops) \<Longrightarrow>
   (\<And>a ops. runs (f a) (\<lambda>_ o2. after J (pre @ ops) o2)) \<Longrightarrow>
   runs (State_Monad.bind m f) (\<lambda>_ ops. after J pre ops)"
  by (rule runs_bind_after [where R = "\<lambda>_ _. True"]) simp_all

section \<open>Status updates\<close>

lemma write_law_status:
  assumes "status_write edit ns n d x" "fi_op x" "edit_ok pre edit"
  shows "write_law (pre @ u @ d) x"
proof (cases x)
  case (OpStatusUpdateFI fi' e)
  then obtain fi st where fi: "OpGetFI ns n (Inr fi) \<in> set d" "edit (fiStatus fi) = Some st"
    "fi' = fi\<lparr>fiStatus := st\<rparr>"
    using assms(1) unfolding status_write_def by blast
  have "status_ok pre (fiStatus fi) st" using fi(2) assms(3) unfolding edit_ok_def by blast
  then have "status_ok (pre @ u @ d) (fiStatus fi) st" by (rule status_ok_mono) simp
  moreover have "got (pre @ u @ d) fi" using fi(1) by (auto simp: got_def)
  ultimately show ?thesis using fi(3) unfolding write_law_def OpStatusUpdateFI op.case
    by (intro exI [of _ fi]) simp
qed (use assms(2) in \<open>simp_all add: write_law_def\<close>)

lemma runs_write_status:
  assumes "edit_ok pre edit"
  shows "runs (update_status r ns n edit) (\<lambda>_ ops. after write_law pre ops)"
proof -
  have "runs (update_status r ns n edit)
      (\<lambda>_ ops. preceded (status_write edit ns n) ops \<and> list_all fi_op ops)"
    by (intro runs_conj always_runs emits_update_status runs_conseq [OF runs_update_status]) blast
  then show ?thesis
  proof (rule runs_conseq)
    fix ops assume "preceded (status_write edit ns n) ops \<and> list_all fi_op ops"
    then have "preceded (\<lambda>d x. status_write edit ns n d x \<and> fi_op x) ops"
      by (fastforce simp: preceded_def)
    then show "after write_law pre ops" by (rule preceded_after) (use assms in \<open>auto intro: write_law_status\<close>)
  qed
qed

section \<open>Pod faults\<close>

lemma runs_write_job_steps:
  assumes "OpGetJob ns n (Inr job) \<in> set pre"
  shows "isJobComplete job \<Longrightarrow> runs (job_complete_step r fi p now job) (\<lambda>_ ops. after write_law pre ops)"
    and "isJobFailed job \<Longrightarrow> runs (job_failed_step r fi p now job) (\<lambda>_ ops. after write_law pre ops)"
proof -
  have ev: "runs (do { eventf r t x a; State_Monad.return v }) (\<lambda>_ ops. after write_law pre' ops)"
    for t x a pre' and v :: pod_step
    by (intro runs_plain always_intro)
  have del: "runs (deleteJob r job) (\<lambda>_ ops. after write_law (pre @ u) ops)"
    if "isJobComplete job \<or> isJobFailed job" for u
    using assms that by (intro runs_deleteJob) (auto simp: write_law_def)
  have tail: "runs (if b then eventf r t x a else State_Monad.return ()) (\<lambda>_ ops. after write_law pre' ops)"
    for b t x a pre'
    by (intro runs_plain always_intro)
  show "isJobComplete job \<Longrightarrow> runs (job_complete_step r fi p now job) (\<lambda>_ ops. after write_law pre ops)"
    unfolding job_complete_step_def recordPodFaultExecuted_def
    by (rule runs_seq [OF runs_write_status], simp, rule runs_case_option, rule runs_seq [OF del], simp,
        rule runs_seq [OF tail], rule ev, rule ev)
  show "isJobFailed job \<Longrightarrow> runs (job_failed_step r fi p now job) (\<lambda>_ ops. after write_law pre ops)"
    unfolding job_failed_step_def recordPodFaultExecuted_def setFIStatusPhaseMessage_def
    by (rule runs_seq [OF runs_write_status], simp, rule runs_case_option, rule runs_seq [OF del], simp,
        rule runs_seq [OF tail], rule runs_seq [OF runs_write_status], simp, rule runs_case_option,
        rule ev, rule runs_return, simp, rule ev)
qed

lemma emits_plain_launch:
  "emits plain_op (tryAcquireOrTakeoverLease r fi p now)" "emits plain_op (start_job r fi p)"
proof -
  have "lease_op x \<Longrightarrow> plain_op x" for x by (cases x) simp_all
  then show "emits plain_op (tryAcquireOrTakeoverLease r fi p now)" by (rule emits_mono [OF emits_lease])
  show "emits plain_op (start_job r fi p)"
    unfolding start_job_def unless_panic_def createPodFaultJobIfNotExists_def call_defs
    by (intro always_intro always_call) simp_all
qed

lemma runs_write_launch: "runs (launch_step r fi p now) (\<lambda>_ ops. after write_law pre ops)"
  unfolding launch_step_def recordPodFaultPlanned_def unless_panic_def
  by (intro runs_seq [OF runs_write_status [OF edit_ok_planned]] runs_plain always_intro emits_plain_launch)

lemma runs_write_select: "runs (select_step r fi p now) (\<lambda>_ ops. after write_law pre ops)"
proof -
  have ev: "runs (eventf r t x a) (\<lambda>_ ops. after write_law pre' ops)" for t x a pre'
    by (intro runs_plain always_intro)
  have ev': "runs (do { eventf r t x a; State_Monad.return v }) (\<lambda>_ ops. after write_law pre' ops)"
    for t x a pre' and v :: pod_step
    by (intro runs_plain always_intro)
  have refuse: "runs (do { eventf r t x a; v \<leftarrow> setFIStatusPhaseMessage r fi ErrorPhase msg; State_Monad.return (f v) })
      (\<lambda>_ ops. after write_law pre' ops)" for t x a msg pre' and f :: "goerr option \<Rightarrow> pod_step"
    unfolding setFIStatusPhaseMessage_def
    by (rule runs_seq [OF ev], rule runs_seq [OF runs_write_status [OF edit_ok_failed]], rule runs_return) simp
  have "runs (select_from r fi p now cs) (\<lambda>_ ops. after write_law pre' ops)" for cs pre'
    unfolding select_from_def
    by (intro runs_if runs_Let runs_case_option refuse ev' runs_write_launch)
  moreover have "runs (listCandidatePods r ns ls) (\<lambda>_ ops. after write_law pre ops)" for ns ls
    unfolding listCandidatePods_def call_defs by (intro runs_plain always_intro always_call) simp_all
  ultimately show ?thesis
    unfolding select_step_def by (intro runs_seq [OF _] runs_case_sum ev') auto
qed

lemma runs_write_plan_body: "runs (plan_body r fi now p) (\<lambda>_ ops. after write_law pre ops)"
proof -
  have get: "runs (getJob r ns n) (\<lambda>g ops. after write_law pre ops \<and>
      (\<forall>job. g = Inr job \<longrightarrow> OpGetJob ns n (Inr job) \<in> set (pre @ ops)))" for ns n
    by (rule runs_getJob) (simp add: write_law_plain)
  have ev: "runs (do { eventf r t x a; State_Monad.return v }) (\<lambda>_ ops. after write_law pre' ops)"
    for t x a pre' and v :: pod_step
    by (intro runs_plain always_intro)
  show ?thesis
    unfolding plan_body_def
    apply (rule runs_if, rule runs_return, simp)
    apply (rule runs_bind_after [OF get], rule runs_case_sum)
     apply (rule runs_if, rule ev, rule runs_write_select)
    apply (rule runs_if, rule runs_write_job_steps(1), blast, assumption)
    apply (rule runs_if, rule runs_write_job_steps(2), blast, assumption)
    apply (rule runs_return, simp)
    done
qed

lemma runs_write_applyPodFaults: "runs (applyPodFaults r fi now) (\<lambda>_ ops. after write_law pre ops)"
proof -
  have "runs (plans_loop r fi now ps b) (\<lambda>_ ops. after write_law pre' ops)" for ps b pre'
  proof (induction ps arbitrary: b pre')
    case (Cons p ps)
    then show ?case
      by (simp, intro runs_seq [OF runs_write_plan_body] runs_case_sum runs_return; simp)
  qed (simp add: runs_return)
  note loop = runs_seq [OF this]
  show ?thesis
    unfolding applyPodFaults_def
    by (intro runs_if runs_case_option runs_Let runs_case_prod runs_return loop) simp_all
qed

lemma job_of_spec_mono: "job_of_spec r fi now d x \<Longrightarrow> job_of_spec r fi now (u @ d) x"
proof -
  have "job_after_lease r fi p d x \<Longrightarrow> job_after_lease r fi p (u @ d) x" for p
    using lease_won_mono [of r fi p d u "[]"] by (auto simp: job_after_lease_def split: op.splits)
  then have "plan_launch r fi p d x \<Longrightarrow> plan_launch r fi p (u @ d) x" for p
    unfolding plan_launch_def by (metis UnCI set_append)
  then show "job_of_spec r fi now d x \<Longrightarrow> job_of_spec r fi now (u @ d) x"
    unfolding job_of_spec_def by blast
qed

lemma runs_law_applyPodFaults:
  assumes "reread pre fi0 fi" "may_inject fi0"
  shows "runs (applyPodFaults r fi now) (\<lambda>_ ops. after (law r) pre ops)"
proof -
  have inj: "after (inject_law r) pre ops" if "preceded (job_of_spec r fi now) ops" for ops
    using that
  proof (rule preceded_after)
    fix u d x assume "job_of_spec r fi now d x"
    then have "job_of_spec r fi now (pre @ u @ d) x"
      using job_of_spec_mono [of r fi now d x "pre @ u"] by simp
    then show "inject_law r (pre @ u @ d) x"
      using assms reread_append [OF assms(1)] reread_got(1) [OF assms(1)]
      unfolding inject_law_def got_append by blast
  qed
  show ?thesis
    unfolding law_eq
    by (rule runs_conseq [OF runs_conj [OF runs_write_applyPodFaults always_runs [OF always_applyPodFaults]]],
        rule after_conj, blast, rule inj, blast)
qed

section \<open>Cleanup\<close>

lemma remove_update_patch:
  "remove_update fi vs (fst (patchVirtualServiceHTTP vs (fiRuleNamePrefix fi) []))"
  using http.get_patch [of vs "fiRuleNamePrefix fi" "[]"]
  by (simp add: remove_update_def user_rules_def patch_frame)

lemma quiet_cleanup_target: "emits (\<lambda>x. \<not> injects x) (cleanup_target r fi k)"
  unfolding cleanup_target_def call_defs by (intro always_intro always_call) simp_all

lemma runs_write_cleanup_target:
  assumes "got pre fi"
  shows "runs (cleanup_target r fi k) (\<lambda>_ ops. after write_law pre ops)"
proof -
  obtain ns n where k: "splitKey k = (ns, n)" by fastforce
  have ev: "runs (do { eventf r t x a; State_Monad.return v }) (\<lambda>_ ops. after write_law pre' ops)"
    and ev2: "runs (do { (if b then eventf r t x a else eventf r t' x' a'); State_Monad.return v })
      (\<lambda>_ ops. after write_law pre' ops)"
    for t x a t' x' a' b pre' and v :: "goerr option"
    by (intro runs_plain always_intro)+
  have get: "runs (getVS r ns n) (\<lambda>g ops. after write_law pre ops
      \<and> (\<forall>vs. g = Inr vs \<longrightarrow> got_vs (pre @ ops) vs))"
    by (rule runs_getVS) (auto simp: write_law_plain got_vs_def)
  have del: "runs (deleteVS r vs) (\<lambda>_ ops. after write_law pre' ops)"
    if "got_vs pre' vs0" "vsMeta vs0 = vsMeta vs" "managed_by_fi fi vs" "got pre' fi" for vs vs0 pre'
    using that by (intro runs_deleteVS) (auto simp: write_law_def delete_vs_ok_def)
  have upd: "runs (updateVS r vs') (\<lambda>_ ops. after write_law pre' ops)"
    if "got_vs pre' vs" "remove_update fi vs vs'" "got pre' fi" for vs vs' pre'
    using that by (intro runs_updateVS) (auto simp: write_law_def)
  show ?thesis
    unfolding cleanup_target_def k Let_def prod.case
  proof (rule runs_bind_after [OF get], rule runs_case_sum, rule runs_return, simp, rule runs_case_prod)
    fix g ops vs0 vs ch
    assume g: "\<forall>vs. g = Inr vs \<longrightarrow> got_vs (pre @ ops) vs" "g = Inr vs0"
      and p: "patchVirtualServiceHTTP vs0 (fiRuleNamePrefix fi) [] = (vs, ch)"
    have m: "vsMeta vs0 = vsMeta vs" "remove_update fi vs0 vs"
      using p remove_update_patch [of fi vs0] vsMeta_patch [of vs0 "fiRuleNamePrefix fi" "[]"] by simp_all
    show "runs (if managed_by_fi fi vs then do {
               d \<leftarrow> deleteVS r vs;
               (if delete_failed d then eventf r ''Warning'' ''VirtualServiceDeleteFailed'' ''vs-delete''
                else eventf r ''Normal'' ''VirtualServiceDeleted'' ''vs-delete'');
               State_Monad.return None
             }
             else if ch then do {
               u \<leftarrow> updateVS r vs;
               (case u of
                  Some e \<Rightarrow> do {
                    eventf r ''Warning'' ''CleanupUpdateFailed'' ''vs-update'';
                    State_Monad.return (Some (EApi e))
                  }
                | None \<Rightarrow> do {
                    eventf r ''Normal'' ''RulesRemoved'' ''cleanup'';
                    State_Monad.return None
                  })
             }
             else State_Monad.return None) (\<lambda>_ ops'. after write_law (pre @ ops) ops')"
      apply (rule runs_if, rule runs_seq [OF del [OF _ m(1)]])
      using g assms apply simp_all [3]
       apply (rule ev2)
      apply (rule runs_if, rule runs_seq [OF upd [OF _ m(2)]])
      using g assms apply simp_all [2]
       apply (rule runs_case_option, rule ev, rule ev)
      apply (rule runs_return, simp)
      done
  qed
qed

lemma runs_each_after:
  "(\<And>a pre. K pre \<Longrightarrow> runs (f a) (\<lambda>_ ops. after J pre ops)) \<Longrightarrow> (\<And>pre u. K pre \<Longrightarrow> K (pre @ u)) \<Longrightarrow> K pre \<Longrightarrow>
   runs (each_until_error f as) (\<lambda>_ ops. after J pre ops)"
proof (induction as arbitrary: pre)
  case (Cons a as)
  then show ?case
    by (simp, intro runs_seq runs_case_option runs_return) simp_all
qed (simp add: runs_return)

lemma write_law_deletes:
  "deletes_listed (fiNamespace fi) (podfault_labels fi) d x \<Longrightarrow> got pre fi \<Longrightarrow> write_law (pre @ d) x"
  by (cases x) (auto simp: deletes_listed_def write_law_def)

lemma runs_write_pod_cleanup:
  assumes "got pre fi"
  shows "runs (cleanupPodFaultArtifacts r fi) (\<lambda>_ ops. after write_law pre ops)"
proof (rule runs_conseq [OF emits_pod_deletes])
  fix ops assume "after (deletes_listed (fiNamespace fi) (podfault_labels fi)) [] ops"
  from after_preceded [OF this] show "after write_law pre ops"
    by (rule preceded_after) (metis write_law_deletes assms got_append append.assoc)
qed

lemma runs_write_deployments:
  assumes "got pre fi" "OpListDeployments (fiNamespace fi) (Inr l) \<in> set pre" "set ds \<subseteq> set l"
  shows "runs (deployments_loop r fi ds) (\<lambda>_ ops. after write_law pre ops)"
  using assms
proof (induction ds arbitrary: pre)
  case (Cons d ds)
  have del: "owned_by_fi fi d \<Longrightarrow> runs (deleteDeployment r d) (\<lambda>_ ops. after write_law pre ops)"
    using Cons.prems by (intro runs_deleteDeployment) (auto simp: write_law_def)
  have rest: "runs (deployments_loop r fi ds) (\<lambda>_ ops. after write_law (pre @ u) ops)" for u
    using Cons.prems by (intro Cons.IH) auto
  have ev: "runs (if b then eventf r t x a else eventf r t' x' a') (\<lambda>_ ops. after write_law pre' ops)"
    for b t x a t' x' a' pre'
    by (intro runs_plain always_intro)
  show ?case
    unfolding deployments_loop.simps
    apply (rule runs_if)
    using rest [of "[]"] apply simp
    apply (rule runs_seq [OF del], simp, rule runs_seq [OF ev])
    using rest apply (metis append.assoc)
    done
qed (simp add: runs_return)

lemma runs_write_deployment_cleanup:
  assumes "got pre fi"
  shows "runs (cleanupFIManagedDeployments r fi) (\<lambda>_ ops. after write_law pre ops)"
proof -
  have list: "runs (listDeployments r ns) (\<lambda>g ops. after write_law pre ops \<and>
      (\<forall>l. g = Inr l \<longrightarrow> OpListDeployments ns (Inr l) \<in> set (pre @ ops)))" for ns
    by (rule runs_listDeployments) (simp add: write_law_plain)
  show ?thesis
    unfolding cleanupFIManagedDeployments_def
    apply (rule runs_bind_after [OF list], rule runs_case_sum)
     apply (intro runs_plain always_intro)
    apply (rule runs_seq, rule runs_write_deployments)
    using assms apply simp
      apply blast
     apply (rule subset_refl)
    apply (rule runs_return, simp)
    done
qed

lemma runs_write_cleanupAll:
  assumes "got pre fi"
  shows "runs (cleanupAll r fi) (\<lambda>_ ops. after write_law pre ops)"
proof -
  have list: "runs (listVS r ns ls) (\<lambda>_ ops. after write_law pre ops)" for ns ls
    unfolding call_defs by (intro runs_plain always_call) simp
  have ev: "runs (do { eventf r t x a; State_Monad.return v }) (\<lambda>_ ops. after write_law pre' ops)"
    for t x a pre' and v :: "goerr option"
    by (intro runs_plain always_intro)
  have each: "runs (each_until_error (cleanup_target r fi) ks) (\<lambda>_ ops. after write_law (pre @ u) ops)" for ks u
    using assms by (intro runs_each_after [where K = "\<lambda>pre. got pre fi"] runs_write_cleanup_target) simp_all
  have pods: "runs (cleanupPodFaultArtifacts r fi) (\<lambda>_ ops. after write_law ((pre @ u) @ v) ops)"
    and deps: "runs (cleanupFIManagedDeployments r fi) (\<lambda>_ ops. after write_law (((pre @ u) @ v) @ w) ops)"
    for u v w
    using assms by (intro runs_write_pod_cleanup runs_write_deployment_cleanup, simp)+
  show ?thesis
    unfolding cleanupAll_def
    apply (rule runs_seq [OF list], rule runs_case_sum, rule ev)
    apply (rule runs_seq [OF each], rule runs_case_option)
     apply (rule runs_seq [OF pods], rule runs_seq [OF deps], rule runs_return, simp)
    apply (rule runs_return, simp)
    done
qed

lemma quiet_each_after: "(\<And>a. emits A (f a)) \<Longrightarrow> emits A (each_until_error f as)"
  by (rule emits_each_until_error)

lemma quiet_delete_each:
  "(\<And>x. emits (\<lambda>x. \<not> injects x) (del x)) \<Longrightarrow> emits (\<lambda>x. \<not> injects x) (delete_each r skip del f d xs)"
  by (induction xs) (auto intro!: always_intro)

lemma quiet_deployments: "emits (\<lambda>x. \<not> injects x) (deployments_loop r fi ds)"
proof (induction ds)
  case (Cons d ds)
  then show ?case
    unfolding deployments_loop.simps deleteDeployment_def
    by (intro always_intro always_call) simp_all
qed (simp add: each.always_return)

lemma quiet_cleanupAll: "emits (\<lambda>x. \<not> injects x) (cleanupAll r fi)"
  unfolding cleanupAll_def cleanupPodFaultArtifacts_def cleanupFIManagedDeployments_def call_defs
  by (intro always_intro always_call emits_each_until_error quiet_cleanup_target quiet_delete_each
      quiet_deployments) simp_all

section \<open>The ends of an experiment\<close>

lemma write_set_error: "got pre fi \<Longrightarrow> write_law pre (OpStatusUpdateFI (set_error fi msg) e)"
  using edit_ok_failed [of pre msg, unfolded edit_ok_def]
  by (auto simp: write_law_def set_error_def intro!: exI [of _ fi])

lemma runs_write_end:
  assumes "got pre fi"
  shows "spCancel (fiSpec fi) \<Longrightarrow> runs (handleCancellation r ns n fi now) (\<lambda>_ ops. after write_law pre ops)"
    and "\<not> spCancel (fiSpec fi) \<Longrightarrow> stExpiresAt (fiStatus fi) \<noteq> None \<Longrightarrow>
      runs (handleExpiry r fi) (\<lambda>_ ops. after write_law pre ops)"
    and "runs (handleValidationError r fi verr) (\<lambda>_ ops. after write_law pre ops)"
proof -
  have ev: "runs (eventf r t x a) (\<lambda>_ ops. after write_law pre' ops)"
    "runs (if b then eventf r t x a else State_Monad.return ()) (\<lambda>_ ops. after write_law pre' ops)"
    for t x a pre' b
    by (intro runs_plain always_intro)+
  have evr: "runs (do { eventf r t x a; State_Monad.return v }) (\<lambda>_ ops. after write_law pre' ops)"
    for t x a pre' and v :: "ctrlResult \<times> goerr option"
    by (intro runs_plain always_intro)
  have clean: "runs (cleanupAll r fi) (\<lambda>_ ops. after write_law (pre @ u) ops)"
    "runs (cleanupAll r fi) (\<lambda>_ ops. after write_law ((pre @ u) @ v) ops)" for u v
    using assms by (intro runs_write_cleanupAll, simp)+
  have err: "runs (statusUpdateFI r (set_error fi msg)) (\<lambda>_ ops. after write_law ((((pre @ u) @ v) @ w) @ z) ops)"
    for msg u v w z
    using assms by (intro runs_statusUpdateFI) (simp add: write_set_error)
  have more: "got (pre @ u) fi" for u using assms by simp
  show "runs (handleCancellation r ns n fi now) (\<lambda>_ ops. after write_law pre ops)" if "spCancel (fiSpec fi)"
    unfolding handleCancellation_def
    by (rule runs_if, rule runs_return, simp, rule runs_seq [OF ev(2)], rule runs_seq [OF ev(1)],
        rule runs_seq [OF clean(2)], rule runs_case_option,
        rule runs_seq [OF runs_write_status [OF edit_ok_cancelled [OF _ that]]], simp add: assms,
        rule runs_case_option, rule evr, rule evr, rule evr)
  show "runs (handleExpiry r fi) (\<lambda>_ ops. after write_law pre ops)"
    if "\<not> spCancel (fiSpec fi)" "stExpiresAt (fiStatus fi) \<noteq> None"
    unfolding handleExpiry_def
    by (rule runs_seq [OF ev(1)],
        rule runs_seq [OF clean(1)], rule runs_case_option,
        rule runs_seq [OF runs_write_status [OF edit_ok_completed [OF _ that]]], simp add: assms,
        rule runs_case_option, rule evr, rule evr, rule evr)
  show "runs (handleValidationError r fi verr) (\<lambda>_ ops. after write_law pre ops)"
    unfolding handleValidationError_def
    by (rule runs_seq [OF ev(1)], rule runs_seq [OF ev(1)], rule runs_seq [OF clean(2)],
        rule runs_seq [OF ev(2)], rule runs_seq [OF err], rule runs_case_option,
        rule runs_return, simp, rule evr)
qed

lemma quiet_ends:
  "emits (\<lambda>x. \<not> injects x) (handleCancellation r ns n fi now)"
  "emits (\<lambda>x. \<not> injects x) (handleExpiry r fi)"
  "emits (\<lambda>x. \<not> injects x) (handleValidationError r fi verr)"
  unfolding handleCancellation_def handleExpiry_def handleValidationError_def statusUpdateFI_def
  by (intro always_intro always_call quiet_cleanupAll; simp)+

section \<open>Mesh faults\<close>

text \<open>What applying the targets does apart from updates: reads, new objects, error states.\<close>

definition mesh_write :: "faultInjection \<Rightarrow> op \<Rightarrow> bool" where
  "mesh_write fi x \<longleftrightarrow>
     (case x of
        OpStatusUpdateFI fi' _ \<Rightarrow> (\<exists>msg. fi' = set_error fi msg)
      | OpUpdateVS _ _ \<Rightarrow> True
      | _ \<Rightarrow> plain_op x \<and> (\<forall>j e. x \<noteq> OpCreateJob j e))"

lemma mesh_write_event: "event_op x \<Longrightarrow> mesh_write fi x"
  by (cases x) (simp_all add: mesh_write_def)

lemma emits_mesh_event [always_intro]: "emits (mesh_write fi) (eventf r t x a)"
  by (rule emits_mono [OF emits_events(1) mesh_write_event])

lemma emits_mesh_target: "emits (mesh_write fi) (apply_target r fi k d)"
  unfolding apply_target_def inject_target_def patch_target_def getOrCreateVirtualService_def call_defs
  by (intro always_intro always_call) (auto simp: mesh_write_def)

lemma emits_mesh_apply: "emits (mesh_write fi) (applyDesiredTargets r fi m)"
proof -
  have "emits (mesh_write fi) (apply_loop r fi m ks)" for ks
    by (induction ks) (auto intro!: always_intro emits_mesh_target)
  then show ?thesis by (simp add: applyDesiredTargets_def)
qed

lemma law_mesh:
  assumes "update_from (inject_update fi) d x" "mesh_write fi x" "got pre fi" "may_inject fi"
  shows "law r (pre @ u @ d) x"
proof (cases x)
  case (OpUpdateVS vs' e)
  then show ?thesis using assms
    by (auto simp: law_def write_law_def inject_law_def update_from_def got_vs_def)
next
  case (OpStatusUpdateFI fi' e)
  then show ?thesis using assms write_set_error [of "pre @ u @ d" fi]
    by (auto simp: law_def inject_law_def mesh_write_def)
qed (use assms in \<open>auto simp: law_def write_law_def inject_law_def mesh_write_def\<close>)

lemma runs_law_mesh:
  assumes "buildDesiredByVSTarget fi = Some (m, mg)" "got pre fi" "may_inject fi"
  shows "runs (applyDesiredTargets r fi m) (\<lambda>_ ops. after (law r) pre ops)"
proof (rule runs_conseq [OF runs_conj [OF always_runs [OF always_applyDesiredTargets [OF assms(1)]]
        always_runs [OF emits_mesh_apply]]])
  fix ops
  assume "preceded (update_from (inject_update fi)) ops \<and> list_all (mesh_write fi) ops"
  then have "preceded (\<lambda>d x. update_from (inject_update fi) d x \<and> mesh_write fi x) ops"
    by (fastforce simp: preceded_def)
  then show "after (law r) pre ops"
    by (rule preceded_after) (use assms in \<open>auto intro: law_mesh\<close>)
qed

lemma law_orphan:
  "orphan_delete fi wanted d x \<Longrightarrow> got pre fi \<Longrightarrow> law r (pre @ u @ d) x"
  by (cases x) (auto simp: law_def write_law_def inject_law_def orphan_delete_def delete_vs_ok_def)

lemma runs_law_orphans:
  assumes "got pre fi"
  shows "runs (cleanupOrphanedManagedVS r fi wanted) (\<lambda>_ ops. after (law r) pre ops)"
proof (rule runs_conseq [OF runs_cleanupOrphaned])
  fix ops assume "after (orphan_delete fi wanted) [] ops"
  from after_preceded [OF this] show "after (law r) pre ops"
    by (rule preceded_after) (rule law_orphan [OF _ assms])
qed

section \<open>Reconcile\<close>

lemma runs_running_attempt:
  "runs (running_attempt r fi b)
     (\<lambda>x ops. preceded (\<lambda>d x. status_write running_edit (fiNamespace fi) (fiName fi) d x \<and> fi_op x) ops)"
proof -
  have "runs (running_attempt r fi b)
     (\<lambda>x ops. after (\<lambda>d x. status_write running_edit (fiNamespace fi) (fiName fi) d x \<and> fi_op x) [] ops)"
    unfolding running_attempt_def
    by (intro runs_intro) (auto simp: status_write_def running_edit_def)
  then show ?thesis by (rule runs_conseq) (rule after_preceded)
qed

lemma runs_law_markRunning:
  assumes "got pre fi0" "may_inject fi0"
  shows "runs (markRunning r fi) (\<lambda>_ ops. after (law r) pre ops)"
proof -
  let ?J = "\<lambda>ops. preceded (\<lambda>d x. status_write running_edit (fiNamespace fi) (fiName fi) d x \<and> fi_op x) ops"
  have "runs (retry_on_conflict n (running_attempt r fi) b) (\<lambda>x ops. ?J ops)" for n b
    by (rule runs_retry [where J = "\<lambda>e ops. ?J ops", OF runs_running_attempt]) (rule preceded_append)
  then have attempts: "runs (retry_on_conflict n (running_attempt r fi) b) (\<lambda>x ops. after (law r) pre ops)" for n b
  proof (rule runs_conseq)
    fix ops assume "?J ops"
    then show "after (law r) pre ops"
      by (rule preceded_after)
        (metis law_def write_law_status inject_law_quiet fi_op_not_injects edit_ok_running assms)
  qed
  have ev: "runs (do { eventf r t x a; State_Monad.return v }) (\<lambda>_ ops. after (law r) pre' ops)"
    "runs (do { (if b then eventf r t x a else State_Monad.return ()); State_Monad.return v })
      (\<lambda>_ ops. after (law r) pre' ops)"
    for t x a pre' b and v :: "goerr option"
    by (intro runs_quiet_law runs_plain always_intro)+
  show ?thesis
    unfolding markRunning_def
    by (rule runs_if, rule runs_return, simp, rule runs_seq [OF attempts], rule runs_case_prod,
        rule runs_case_option, rule ev(2), rule ev(1))
qed

lemma runs_law_getFI:
  "runs (getFI r ns n) (\<lambda>g ops. after (law r) pre ops \<and> 
     (\<forall>fi. g = Inr fi \<longrightarrow> OpGetFI ns n (Inr fi) \<in> set ops))"
  by (rule runs_getFI) (auto simp: law_def write_law_def inject_law_def)

lemma runs_law_return: "runs (State_Monad.return v) (\<lambda>_ ops. after (law r) pre ops)"
  by (rule runs_return) simp

lemma runs_law_event:
  "runs (eventf r t x a) (\<lambda>_ ops. after (law r) pre ops)"
  "runs (if b then eventf r t x a else State_Monad.return ()) (\<lambda>_ ops. after (law r) pre ops)"
  "runs (do { eventf r t x a; State_Monad.return v }) (\<lambda>_ ops. after (law r) pre ops)"
  by (intro runs_quiet_law runs_plain always_intro)+

lemma runs_law_run_step:
  assumes "OpGetFI ns n (Inr fi0) \<in> set pre" "may_inject fi0"
  shows "runs (run_step r ns n fi now) (\<lambda>_ ops. after (law r) pre ops)"
proof -
  have requeue: "runs (requeue_step r fi' due) (\<lambda>_ ops. after (law r) pre' ops)" for fi' due pre'
    unfolding requeue_step_def time_until_def
    by (intro runs_quiet_law runs_plain always_intro)
  have "got pre fi0" using assms(1) by (auto simp: got_def)
  note marked = runs_law_markRunning [OF this assms(2)]
  have read: "OpGetFI ns n (Inr fi0) \<in> set (pre @ ops)" for ops using assms(1) by simp
  show ?thesis
    unfolding run_step_def
    apply (rule runs_seq [OF marked], rule runs_case_option)
     apply (rule runs_bind_after [OF runs_law_getFI], rule runs_case_sum, rule runs_law_return)
     apply (rule runs_seq [OF runs_law_applyPodFaults [OF rereadI [OF read] assms(2)]], blast)
     apply (intro runs_case_prod runs_case_option runs_if runs_law_return requeue)
    apply (rule runs_law_return)
    done
qed

lemma runs_law_apply_step:
  assumes "OpGetFI ns n (Inr fi) \<in> set pre" "may_inject fi"
  shows "runs (apply_step r ns n fi now) (\<lambda>_ ops. after (law r) pre ops)"
proof -
  have got: "got (pre @ ops) fi" for ops using assms(1) by (auto simp: got_def)
  have first: "got pre fi" using got [of "[]"] by simp
  show ?thesis
  unfolding apply_step_def
  apply (rule runs_case_option, rule runs_law_return, rule runs_case_prod)
  apply (rule runs_seq [OF runs_law_mesh [OF _ first assms(2)]], simp)
  apply (rule runs_case_sum, rule runs_law_return, rule runs_if, rule runs_law_return)
  apply (rule runs_seq [OF runs_law_orphans [OF got]])
  apply (rule runs_seq [OF runs_law_event(2)], rule runs_law_run_step [OF _ assms(2)])
  using assms(1) apply simp
  done
qed

lemma after_law_quiet:
  "list_all A ops \<Longrightarrow> (\<And>x. A x \<Longrightarrow> plain_op x \<and> \<not> injects x) \<Longrightarrow> after (law r) pre ops"
  by (rule after_free) (auto simp: list_all_iff law_def write_law_plain inject_law_quiet)

lemma quiet_kinds:
  "event_op x \<Longrightarrow> plain_op x \<and> \<not> injects x" "list_pods_op x \<Longrightarrow> plain_op x \<and> \<not> injects x"
  by (cases x; simp)+

lemma emits_lifecycle: "emits event_op (ensureLifecycle r fi)"
  unfolding ensureLifecycle_def refresh_expiry_def by (intro always_intro emits_events)

lemma runs_law_lifecycle: "runs (ensureLifecycle r fi) (\<lambda>_ ops. after (law r) pre ops)"
  by (rule runs_conseq [OF always_runs [OF emits_lifecycle]])
    (erule after_law_quiet, rule quiet_kinds(1))

lemma runs_law_validate:
  "runs (validateSpec r fi) (\<lambda>e ops. after (law r) pre ops \<and> (e = None \<longrightarrow> spec_ok fi))"
  by (rule runs_conseq [OF runs_conj [OF runs_validateSpec always_runs [OF emits_validateSpec]]])
    (rule conjI, erule conjE, erule after_law_quiet, rule quiet_kinds(2), assumption, blast)

lemma runs_law_loaded:
  assumes "OpGetFI ns n (Inr fi) \<in> set pre"
  shows "runs (reconcile_loaded r ns n fi now) (\<lambda>_ ops. after (law r) pre ops)"
proof -
  have got: "got pre fi" using assms by (auto simp: got_def)
  show ?thesis
  unfolding reconcile_loaded_def
  apply (rule runs_if, rule runs_quiet_law [OF quiet_ends(1) runs_write_end(1) [OF got]], assumption)
  apply (rule runs_if, rule runs_seq [OF runs_law_lifecycle], rule runs_case_prod, rule runs_law_return)
  apply (rule runs_if, rule runs_quiet_law [OF quiet_ends(2) runs_write_end(2) [OF got]], assumption, simp)
  apply (rule runs_bind_after [OF runs_law_validate], rule runs_case_option)
   apply (rule runs_law_apply_step)
  using assms apply (simp_all add: may_inject_def)
  apply (rule runs_quiet_law [OF quiet_ends(3) runs_write_end(3)], simp add: got)
  done
qed

text \<open>An unchanged lifecycle means an unchanged object, a changed one is dated.\<close>

lemma lifecycle_unchanged:
  "runs (ensureLifecycle r fi) (\<lambda>x ops. after (law r) pre ops
     \<and> (if snd x then dated_from fi (fst x) else fst x = fi))"
proof -
  have "runs (ensureLifecycle r fi) (\<lambda>x ops. if snd x then dated_from fi (fst x) else fst x = fi)"
    unfolding ensureLifecycle_def refresh_expiry_def
    by (intro runs_intro) (simp_all add: set_started_def set_expires_def dated_from_def expiry_of_def)
  from runs_conj [OF runs_law_lifecycle this] show ?thesis .
qed

lemma runs_law_Reconcile: "runs (Reconcile r ns n) (\<lambda>_ ops. after (law r) [] ops)"
proof -
  have status: "runs (update_status r ns n (\<lambda>st. Some (lifecycle_status fi st))) (\<lambda>_ ops. after (law r) pre ops)"
    if "\<exists>fi0. got pre fi0 \<and> dated_from fi0 fi" for fi pre
    using that by (elim exE conjE, intro runs_quiet_law [OF quiet_status runs_write_status] edit_ok_lifecycle)
  have now: "runs (time_now r) (\<lambda>_ ops. after (law r) pre ops)" for pre
    by (rule runs_time_now) simp
  show ?thesis
    unfolding Reconcile_def
    apply (rule runs_bind_after [OF runs_law_getFI], rule runs_case_sum, rule runs_law_return)
    apply (rule runs_seq [OF now], rule runs_bind_after [OF lifecycle_unchanged], rule runs_case_prod)
    apply (rule runs_if, rule runs_seq [OF status], force simp: got_def, rule runs_case_option)
      apply (rule runs_bind_after [OF runs_law_getFI], rule runs_case_sum, rule runs_law_return)
      apply (rule runs_law_loaded, simp)
     apply (rule runs_law_event(3))
    apply (rule runs_law_loaded, simp)
    done
qed

end
