(* ===== verification/Outcomes.thy ===== *)
theory Outcomes
  imports Laws
begin

text \<open>
  What a step that succeeds has achieved: cleanup, the application of the mesh faults, and the
  persisted phase, read off the requests it made and the answers it got.
\<close>

section \<open>Cleanup\<close>

text \<open>
  A target is cleaned when it was not there, or it is the controller's own and its deletion was
  requested, or it has no injected rules (as the text of its rules shows), or it was updated to
  the rules of others.
\<close>

definition target_cleaned :: "faultInjection \<Rightarrow> op list \<Rightarrow> string \<Rightarrow> bool" where
  "target_cleaned fi ops k \<longleftrightarrow>
     (case splitKey k of (ns, n) \<Rightarrow>
        OpGetVS ns n (Inl NotFound) \<in> set ops
        \<or> (\<exists>vs. OpGetVS ns n (Inr vs) \<in> set ops
             \<and> (if managed_by_fi fi vs
                then \<exists>vs' d. OpDeleteVS vs' d \<in> set ops \<and> vsMeta vs' = vsMeta vs
                else deepEqualHTTP (http_of vs) (user_rules fi vs)
                  \<or> (\<exists>vs'. OpUpdateVS vs' None \<in> set ops \<and> remove_update fi vs vs'))))"

lemma target_cleaned_mono: "target_cleaned fi ops k \<Longrightarrow> set ops \<subseteq> set ops' \<Longrightarrow> target_cleaned fi ops' k"
  unfolding target_cleaned_def by (auto split: if_splits prod.splits)

lemma runs_cleanup_target:
  "runs (cleanup_target r fi k) (\<lambda>e ops. e = None \<longrightarrow> target_cleaned fi ops k)"
proof -
  obtain ns n where k: "splitKey k = (ns, n)" by fastforce
  have u: "http_of (fst (patchVirtualServiceHTTP vs (fiRuleNamePrefix fi) [])) = user_rules fi vs" for vs
    using remove_update_patch [of fi vs] by (simp add: remove_update_def)
  show ?thesis
    unfolding cleanup_target_def k Let_def prod.case
  proof (rule runs_bind, rule runs_getVS, rule runs_case_sum, rule runs_return)
    fix a :: "apiError + vsObj" and e assume "a = Inl e"
    then show "ignoreNotFound e = None \<longrightarrow> target_cleaned fi ([OpGetVS ns n a] @ []) k"
      by (auto simp: ignoreNotFound_def target_cleaned_def k)
  next
    fix a :: "apiError + vsObj" and vs assume a: "a = Inr vs"
    obtain vs' ch where p: "patchVirtualServiceHTTP vs (fiRuleNamePrefix fi) [] = (vs', ch)" by fastforce
    have m: "vsMeta vs' = vsMeta vs" "remove_update fi vs vs'" "http_of vs' = user_rules fi vs"
      using p remove_update_patch [of fi vs] u [of vs] by (simp_all add: remove_update_def)
    have ch: "\<not> ch \<longleftrightarrow> deepEqualHTTP (http_of vs) (user_rules fi vs)"
      using patch_changed [of vs "fiRuleNamePrefix fi" "[]"] p m(3) by simp
    have mg: "managed_by_fi fi vs' \<longleftrightarrow> managed_by_fi fi vs" using m(1) by (simp add: managed_by_fi_def)
    show "runs (case patchVirtualServiceHTTP vs (fiRuleNamePrefix fi) [] of
        (vs, changed) \<Rightarrow> if managed_by_fi fi vs then do {
               d \<leftarrow> deleteVS r vs;
               (if delete_failed d then eventf r ''Warning'' ''VirtualServiceDeleteFailed'' ''vs-delete''
                else eventf r ''Normal'' ''VirtualServiceDeleted'' ''vs-delete'');
               State_Monad.return None
             }
             else if changed then do {
               u \<leftarrow> updateVS r vs;
               (case u of
                  Some e \<Rightarrow> do {
                    eventf r ''Warning'' ''CleanupUpdateFailed'' ''vs-update'';
                    State_Monad.return (Some (EApi e))
                  }
                | None \<Rightarrow> do {
                    eventf r ''Normal'' ''RulesRemoved'' ''cleanup'';
                    State_Monad.return None
                  })
             }
             else State_Monad.return None)
      (\<lambda>b o2. b = None \<longrightarrow> target_cleaned fi ([OpGetVS ns n a] @ o2) k)"
      unfolding p prod.case
      by (intro runs_intro) (use m ch mg a in \<open>auto simp: target_cleaned_def k\<close>)
  qed
qed

lemma runs_each_all:
  assumes "\<And>a. runs (f a) (\<lambda>e ops. e = None \<longrightarrow> P a ops)"
    and "\<And>a ops ops'. P a ops \<Longrightarrow> set ops \<subseteq> set ops' \<Longrightarrow> P a ops'"
  shows "runs (each_until_error f as) (\<lambda>e ops. e = None \<longrightarrow> (\<forall>a \<in> set as. P a ops))"
proof (induction as)
  case (Cons a as)
  show ?case
    unfolding each_until_error.simps
  proof (rule runs_bind, rule runs_conseq [OF assms(1)], rule runs_case_option)
    fix e o1 assume e: "e = None \<longrightarrow> P a o1" "e = None"
    show "runs (each_until_error f as) (\<lambda>b o2. b = None \<longrightarrow> (\<forall>x \<in> set (a # as). P x (o1 @ o2)))"
    proof (rule runs_conseq [OF Cons.IH], intro impI ballI)
      fix b o2 x assume b: "b = None \<longrightarrow> (\<forall>a \<in> set as. P a o2)" "b = None" and x: "x \<in> set (a # as)"
      show "P x (o1 @ o2)"
      proof (cases "x = a")
        case True
        then show ?thesis using assms(2) [of a o1 "o1 @ o2"] e by simp
      next
        case False
        then show ?thesis using assms(2) [of x o2 "o1 @ o2"] b x by simp
      qed
    qed
  qed (simp add: runs_return)
qed (simp add: runs_return)

definition all_cleaned :: "faultInjection \<Rightarrow> op list \<Rightarrow> bool" where
  "all_cleaned fi ops \<longleftrightarrow>
     (\<exists>items. OpListVS (fiNamespace fi) [(''chaos.sghaida.io/fi'', fiName fi)] (Inr items) \<in> set ops
        \<and> list_all (target_cleaned fi ops) (cleanup_targets fi items))"

lemma quiet_artifacts:
  "emits (\<lambda>x. \<not> injects x) (cleanupPodFaultArtifacts r fi)"
  "emits (\<lambda>x. \<not> injects x) (cleanupFIManagedDeployments r fi)"
  unfolding cleanupPodFaultArtifacts_def cleanupFIManagedDeployments_def call_defs
  by (intro always_intro always_call quiet_delete_each quiet_deployments; simp)+

lemma runs_cleanupAll: "runs (cleanupAll r fi) (\<lambda>e ops. e = None \<longrightarrow> all_cleaned fi ops)"
proof -
  have each: "runs (each_until_error (cleanup_target r fi) ks)
      (\<lambda>e ops. e = None \<longrightarrow> (\<forall>k \<in> set ks. target_cleaned fi ops k))" for ks
    by (rule runs_each_all [OF runs_cleanup_target]) (rule target_cleaned_mono)
  have rest: "runs (do { _ \<leftarrow> cleanupPodFaultArtifacts r fi; _ \<leftarrow> cleanupFIManagedDeployments r fi;
        State_Monad.return None }) (\<lambda>_ ops. True)"
    by (rule runs_conseq [OF always_runs [where L = "list_all (\<lambda>x. \<not> injects x)"]])
      (intro always_intro quiet_artifacts, simp)
  show ?thesis
    unfolding cleanupAll_def
    apply (rule runs_bind, rule runs_listVS, rule runs_case_sum)
     apply (rule runs_bind, rule runs_events, rule runs_return, simp)
    apply (rule runs_bind, rule runs_conseq [OF each], rule runs_case_option)
     apply (rule runs_conseq [OF rest])
    subgoal for a items e ops _ o2
      unfolding all_cleaned_def list_all_iff
      by (intro impI exI [of _ items] conjI ballI, simp, rule target_cleaned_mono [of fi ops]) auto
    apply (rule runs_return, simp)
    done
qed

section \<open>Mesh faults\<close>

text \<open>
  A target is applied when the object read, with gateways and default rule ensured, was updated to
  the desired rules followed by the rules of others, or already reads like that.
\<close>

definition target_applied :: "faultInjection \<Rightarrow> vsDesired gomap \<Rightarrow> op list \<Rightarrow> string \<Rightarrow> bool" where
  "target_applied fi m ops k \<longleftrightarrow>
     (\<exists>vs vs1 base vs'. vs \<in> set (concat (map obtained ops)) \<and> prepared vs vs1
        \<and> http_of vs' = map JMap (routed_rules (desired_at k m) base) @ user_rules fi vs1
        \<and> (OpUpdateVS vs' None \<in> set ops \<or> deepEqualHTTP (http_of vs1) (http_of vs')))"

lemma target_applied_mono: "target_applied fi m ops k \<Longrightarrow> set ops \<subseteq> set ops' \<Longrightarrow> target_applied fi m ops' k"
  unfolding target_applied_def by (auto; blast)

lemma runs_patch_applied:
  assumes "vs \<in> set (concat (map obtained pre))" "prepared vs vs1"
  shows "runs (patch_target r fi (desired_at k m) vs1 c gw base)
     (\<lambda>res ops. res = Inr False \<longrightarrow> target_applied fi m (pre @ ops) k)"
proof -
  let ?rules = "routed_rules (desired_at k m) base"
  obtain vs' ch where p: "patchVirtualServiceHTTP vs1 (fiRuleNamePrefix fi) ?rules = (vs', ch)" by fastforce
  have h: "http_of vs' = map JMap ?rules @ user_rules fi vs1"
    using http.get_patch [of vs1 "fiRuleNamePrefix fi" ?rules] p by (simp add: user_rules_def)
  have ch: "\<not> ch \<longrightarrow> deepEqualHTTP (http_of vs1) (http_of vs')"
    using patch_changed [of vs1 "fiRuleNamePrefix fi" ?rules] p by simp
  have ok: "target_applied fi m (pre @ ops) k" if "\<not> ch \<or> OpUpdateVS vs' None \<in> set ops" for ops
    unfolding target_applied_def using assms h ch that
    by (intro exI [of _ vs] exI [of _ vs1] exI [of _ base] exI [of _ vs']) auto
  have "\<not> ch \<Longrightarrow> target_applied fi m pre k" using ok [of "[]"] by simp
  then show ?thesis
    unfolding patch_target_def routed_rules_def [symmetric] Let_def p prod.case
    by (intro runs_intro) (auto intro!: ok)
qed

lemma runs_inject_applied:
  assumes "vs \<in> set (concat (map obtained pre))"
  shows "runs (inject_target r fi ns n (desired_at k m) vs c)
     (\<lambda>res ops. res = Inr False \<longrightarrow> target_applied fi m (pre @ ops) k)"
proof -
  let ?d = "desired_at k m"
  obtain vs1 gw where g: "ensureManagedOutboundVSGatewaysMesh vs (dsManaged ?d) = (vs1, gw)" by fastforce
  then have p: "prepared vs vs1" using prepared_gateways [of vs "dsManaged ?d"] by simp
  have patch: "runs (patch_target r fi ?d v c gw base)
      (\<lambda>res ops. res = Inr False \<longrightarrow> target_applied fi m ((pre @ u) @ ops) k)"
    if "prepared vs v" for v base u
    using that assms by (intro runs_patch_applied [where vs = vs]) auto
  show ?thesis
    unfolding inject_target_def Let_def g prod.case
    apply (rule runs_case_option, rule runs_if)
      apply (rule runs_bind, rule runs_events)
      apply (rule runs_conseq [OF patch [OF prepared_default [OF p]]], simp)
     apply (intro runs_intro, simp_all)[1]
    using patch [OF p, of _ "[]"] apply simp
    done
qed

lemma runs_target_applied:
  "runs (apply_target r fi k (desired_at k m))
     (\<lambda>res ops. res = Inr False \<longrightarrow> target_applied fi m ops k)"
proof -
  obtain ns n where k: "splitKey k = (ns, n)" by fastforce
  have inject: "runs (inject_target r fi ns n (desired_at k m) vs c)
     (\<lambda>res o2. res = Inr False \<longrightarrow> target_applied fi m (ops @ o2) k)"
    if "vs \<in> set (concat (map obtained ops))" for vs c ops
    using that by (rule runs_inject_applied)
  show ?thesis
    unfolding apply_target_def Let_def k prod.case
    apply (rule runs_bind, rule runs_conseq [OF runs_getOrCreate [where R = "\<lambda>_ _. True" and pre = "[]"]])
    apply (rule runs_case_sum)
     apply (rule runs_bind, rule runs_events, rule runs_bind, rule runs_statusUpdateFI, rule runs_return, simp)
    apply (rule runs_case_prod, rule inject, simp)
    done
qed

lemma runs_loop_applied:
  "runs (apply_loop r fi m ks) (\<lambda>res ops. res = Inr False \<longrightarrow> (\<forall>k \<in> set ks. target_applied fi m ops k))"
proof (induction ks)
  case (Cons k ks)
  show ?case
    unfolding apply_loop.simps
    apply (rule runs_bind, rule runs_conseq [OF runs_target_applied [where m = m]], rule runs_case_sum)
     apply (rule runs_return, simp)
    apply (rule runs_if, rule runs_return, simp)
    apply (rule runs_conseq [OF Cons.IH])
    apply (auto elim!: target_applied_mono)
    done
qed (simp add: runs_return)

definition all_applied :: "faultInjection \<Rightarrow> vsDesired gomap \<Rightarrow> op list \<Rightarrow> bool" where
  "all_applied fi m ops \<longleftrightarrow> list_all (target_applied fi m ops) (mkeys m)"

lemma runs_all_applied:
  "runs (applyDesiredTargets r fi m) (\<lambda>res ops. res = Inr False \<longrightarrow> all_applied fi m ops)"
  unfolding applyDesiredTargets_def
  by (rule runs_conseq [OF runs_loop_applied]) (simp add: all_applied_def list_all_iff)

section \<open>The traffic cap\<close>

text \<open>
  In every VirtualService written, the rules of this FaultInjection have a destination and affect
  no more traffic than the blast radius allows.
\<close>

definition traffic_capped :: "op list \<Rightarrow> op \<Rightarrow> bool" where
  "traffic_capped before x \<longleftrightarrow>
     (\<forall>vs' e. x = OpUpdateVS vs' e \<longrightarrow>
        (\<exists>fi. got before fi \<and>
           (\<forall>rule. JMap rule \<in> set (http_of vs') \<longrightarrow> HasPrefix (rule_name rule) (fiRuleNamePrefix fi) \<longrightarrow>
              routable rule
              \<and> (\<exists>i. rule_percent rule = Some i \<and> i \<le> brMaxTrafficPercent (spBlastRadius (fiSpec fi))))))"

lemma injected_capped:
  assumes "may_inject fi" "injected_for fi rule"
  shows "routable rule \<and> (\<exists>i. rule_percent rule = Some i \<and> i \<le> brMaxTrafficPercent (spBlastRadius (fiSpec fi)))"
proof -
  obtain a where a: "a \<in> set (meshFaults fi)" "routable rule"
    "maType a \<in> {HTTPLatency, HTTPAbort} \<longrightarrow> rule_percent rule = Some (maPercent a)"
    using assms(2) by (auto simp: injected_for_def)
  have "mesh_action_ok (spBlastRadius (fiSpec fi)) a"
    using assms(1) a(1) by (auto simp: may_inject_def spec_ok_def list_all_iff)
  then show ?thesis using a(2,3) by (auto simp: mesh_action_ok_def)
qed

lemma law_traffic: "law r d x \<Longrightarrow> traffic_capped d x"
  unfolding traffic_capped_def
proof (intro allI impI)
  fix vs' e assume l: "law r d x" and x: "x = OpUpdateVS vs' e"
  obtain fi vs where fi: "got d fi" and u: "may_inject fi \<and> inject_update fi vs vs' \<or> remove_update fi vs vs'"
    using l x by (auto simp: law_def write_law_def)
  have "routable rule \<and> (\<exists>i. rule_percent rule = Some i \<and> i \<le> brMaxTrafficPercent (spBlastRadius (fiSpec fi)))"
    if rule: "JMap rule \<in> set (http_of vs')" "HasPrefix (rule_name rule) (fiRuleNamePrefix fi)" for rule
    using u
  proof
    assume "may_inject fi \<and> inject_update fi vs vs'"
    then obtain rules where "may_inject fi" "http_of vs' = map JMap rules @ user_rules fi vs'"
      "list_all (injected_for fi) rules"
      by (auto simp: inject_update_def)
    moreover have "JMap rule \<notin> set (user_rules fi vs')" using rule(2) by (simp add: user_rules_def)
    ultimately show ?thesis using rule(1) injected_capped by (auto simp: list_all_iff)
  next
    assume "remove_update fi vs vs'"
    then have "JMap rule \<in> set (user_rules fi vs)" using rule(1) by (simp add: remove_update_def)
    then show ?thesis using rule(2) by (simp add: user_rules_def)
  qed
  then show "\<exists>fi. got d fi \<and>
           (\<forall>rule. JMap rule \<in> set (http_of vs') \<longrightarrow> HasPrefix (rule_name rule) (fiRuleNamePrefix fi) \<longrightarrow>
              routable rule
              \<and> (\<exists>i. rule_percent rule = Some i \<and> i \<le> brMaxTrafficPercent (spBlastRadius (fiSpec fi))))"
    using fi by blast
qed

lemma after_weaken: "after J pre ops \<Longrightarrow> (\<And>d x. J d x \<Longrightarrow> K d x) \<Longrightarrow> after K pre ops"
  by (rule after_mono)

section \<open>Phases that are persisted\<close>

definition phase_persisted :: "string \<Rightarrow> op list \<Rightarrow> bool" where
  "phase_persisted ph ops \<longleftrightarrow> (\<exists>fi. OpStatusUpdateFI fi None \<in> set ops \<and> stPhase (fiStatus fi) = ph)"

lemma phase_persisted_append [simp]:
  "phase_persisted ph (a @ b) \<longleftrightarrow> phase_persisted ph a \<or> phase_persisted ph b"
  by (auto simp: phase_persisted_def)

lemma phase_persisted_Cons [simp]:
  "phase_persisted ph (x # y # a) \<longleftrightarrow> phase_persisted ph [x] \<or> phase_persisted ph (y # a)"
  by (auto simp: phase_persisted_def)

lemma phase_persisted_skip:
  "(\<And>fi. x \<noteq> OpStatusUpdateFI fi None) \<Longrightarrow> phase_persisted ph (x # a) \<longleftrightarrow> phase_persisted ph a"
  by (auto simp: phase_persisted_def)

lemma runs_phase_persisted:
  assumes "\<And>st. \<exists>st'. edit st = Some st' \<and> stPhase st' = ph"
  shows "runs (update_status r ns n edit) (\<lambda>e ops. e = None \<longrightarrow> phase_persisted ph ops)"
proof (rule runs_conseq [OF runs_update_status], intro impI)
  fix e ops
  assume "preceded (status_write edit ns n) ops \<and> status_outcome edit ns n e ops" "e = None"
  then obtain fi0 where "case edit (fiStatus fi0) of None \<Rightarrow> True
      | Some st \<Rightarrow> OpStatusUpdateFI (fi0\<lparr>fiStatus := st\<rparr>) None \<in> set ops"
    by (auto simp: status_outcome_def)
  then show "phase_persisted ph ops"
    using assms [of "fiStatus fi0"] by (force simp: phase_persisted_def)
qed

definition stop_persisted :: "pod_step \<Rightarrow> op list \<Rightarrow> bool" where
  "stop_persisted res ops \<longleftrightarrow> (res = Inl (True, None) \<longrightarrow> phase_persisted ErrorPhase ops)"

lemma runs_setPhase:
  "runs (setFIStatusPhaseMessage r fi ph msg) (\<lambda>e ops. e = None \<longrightarrow> phase_persisted ph ops)"
  unfolding setFIStatusPhaseMessage_def by (rule runs_phase_persisted) simp

lemma runs_anything: "emits A m \<Longrightarrow> runs m (\<lambda>_ ops. True)"
  by (drule always_runs, erule runs_conseq) simp

lemma runs_stop_job_steps:
  "runs (job_complete_step r fi p now job) stop_persisted"
  "runs (job_failed_step r fi p now job) stop_persisted"
proof -
  have rec: "runs (recordPodFaultExecuted r fi p now b msg) (\<lambda>_ ops. True)" for b msg
    unfolding recordPodFaultExecuted_def by (rule runs_anything [OF quiet_status])
  note rec = runs_conseq [OF rec]
  show "runs (job_complete_step r fi p now job) stop_persisted"
    unfolding job_complete_step_def
    by (rule runs_bind, rule rec, intro runs_intro) (simp_all add: stop_persisted_def)
  show "runs (job_failed_step r fi p now job) stop_persisted"
    unfolding job_failed_step_def
    apply (rule runs_bind, rule rec, rule runs_case_option)
     apply (rule runs_bind, rule runs_deleteJob, rule runs_bind)
     apply (rule runs_conseq [OF runs_anything [where A = event_op]], intro always_intro emits_events)
     apply (rule runs_bind, rule runs_conseq [OF runs_setPhase])
     apply (intro runs_intro; simp add: stop_persisted_def phase_persisted_skip)
    apply (intro runs_intro; simp add: stop_persisted_def)
    done
qed

lemma runs_stop_launch: "runs (launch_step r fi p now) stop_persisted"
proof -
  have create: "runs (createPodFaultJobIfNotExists r fi p) (\<lambda>_ ops. True)"
    unfolding createPodFaultJobIfNotExists_def by (intro runs_intro) simp_all
  show ?thesis
    unfolding launch_step_def recordPodFaultPlanned_def unless_panic_def start_job_def
    apply (rule runs_bind, rule runs_conseq [OF runs_anything [OF quiet_status]])
    apply (rule runs_bind, rule runs_conseq [OF runs_anything [OF emits_lease]])
    apply (rule runs_case_prod, rule runs_case_prod, rule runs_case_option, rule runs_if)
      apply (intro runs_intro; simp add: stop_persisted_def)
     apply (rule runs_bind, rule runs_events, rule runs_bind, rule runs_conseq [OF create])
     apply (intro runs_intro; simp add: stop_persisted_def)
    apply (intro runs_intro; simp add: stop_persisted_def)
    done
qed

lemma runs_stop_select: "runs (select_step r fi p now) stop_persisted"
proof -
  have launch: "runs (launch_step r fi q now) (\<lambda>res o2. stop_persisted res (pre @ o2))" for q pre
    by (rule runs_conseq [OF runs_stop_launch]) (simp add: stop_persisted_def)
  have list: "runs (listCandidatePods r ns ls) (\<lambda>_ ops. True)" for ns ls
    unfolding listCandidatePods_def by (intro runs_intro) simp_all
  show ?thesis
    unfolding select_step_def select_from_def
    apply (rule runs_bind, rule runs_conseq [OF list], rule runs_case_sum)
     apply (intro runs_intro; simp add: stop_persisted_def)
    apply (rule runs_if, rule runs_bind, rule runs_events, rule runs_bind, rule runs_conseq [OF runs_setPhase])
     apply (rule runs_return, simp add: stop_persisted_def)
    apply (intro runs_Let runs_case_option runs_if launch)
     apply (intro runs_intro; simp add: stop_persisted_def)
    apply (intro runs_intro; simp add: stop_persisted_def)
    done
qed

lemma runs_stop_plan: "runs (plan_body r fi now p) stop_persisted"
proof -
  have sub: "runs m stop_persisted \<Longrightarrow> runs m (\<lambda>res o2. stop_persisted res (pre @ o2))"
    for pre and m :: "('a, pod_step) eff"
    by (erule runs_conseq) (simp add: stop_persisted_def)
  show ?thesis
    unfolding plan_body_def
    apply (rule runs_if, rule runs_return, simp add: stop_persisted_def)
    apply (rule runs_bind, rule runs_getJob, rule runs_case_sum)
     apply (rule runs_if, intro runs_intro, simp add: stop_persisted_def, simp add: stop_persisted_def)
     apply (rule sub, rule runs_stop_select)
    apply (intro runs_if sub runs_stop_job_steps)
    apply (rule runs_return, simp add: stop_persisted_def)
    done
qed

lemma runs_stop_loop: "runs (plans_loop r fi now ps b) stop_persisted"
proof (induction ps arbitrary: b)
  case (Cons p ps)
  show ?case
    unfolding plans_loop.simps
    apply (rule runs_bind, rule runs_conseq [OF runs_stop_plan], rule runs_case_sum)
     apply (rule runs_return, simp)
    apply (rule runs_conseq [OF Cons.IH], simp add: stop_persisted_def)
    done
qed (simp add: runs_return stop_persisted_def)

lemma runs_stop_pods:
  "runs (applyPodFaults r fi now)
     (\<lambda>(stop, _, err) ops. stop \<and> err = None \<longrightarrow> phase_persisted ErrorPhase ops)"
  unfolding applyPodFaults_def
  apply (intro runs_if runs_case_option runs_Let runs_case_prod runs_return; simp?)
  apply (rule runs_bind, rule runs_conseq [OF runs_stop_loop], rule runs_return)
  apply (auto simp: stop_persisted_def split: sum.splits)
  done

section \<open>The ends of an experiment\<close>

lemma all_cleaned_mono: "all_cleaned fi ops \<Longrightarrow> set ops \<subseteq> set ops' \<Longrightarrow> all_cleaned fi ops'"
  unfolding all_cleaned_def list_all_iff by (meson subsetD target_cleaned_mono)

lemma phase_persisted_mono: "phase_persisted ph ops \<Longrightarrow> set ops \<subseteq> set ops' \<Longrightarrow> phase_persisted ph ops'"
  unfolding phase_persisted_def by blast

text \<open>The common end: clean up, then persist the phase.\<close>

lemma runs_clean_then_persist:
  assumes "\<And>st. \<exists>st'. edit st = Some st' \<and> stPhase st' = ph"
  shows "runs (do {
      c \<leftarrow> cleanupAll r fi;
      (case c of
         Some e \<Rightarrow> do { eventf r t1 x1 a1; State_Monad.return (no_requeue, Some e) }
       | None \<Rightarrow> do {
           u \<leftarrow> update_status r ns n edit;
           (case u of
              Some e \<Rightarrow> do { eventf r t2 x2 a2; State_Monad.return (no_requeue, Some e) }
            | None \<Rightarrow> do { eventf r t3 x3 a3; State_Monad.return (no_requeue, None) })
         })
    }) (\<lambda>x ops. snd x = None \<longrightarrow> all_cleaned fi ops \<and> phase_persisted ph ops)"
  apply (rule runs_bind, rule runs_conseq [OF runs_cleanupAll], rule runs_case_option)
   apply (rule runs_bind, rule runs_conseq [OF runs_phase_persisted [OF assms]], rule runs_case_option)
    apply (rule runs_bind, rule runs_events, rule runs_return)
    apply (auto elim!: all_cleaned_mono)[1]
   apply (rule runs_bind, rule runs_events, rule runs_return, simp)
  apply (rule runs_bind, rule runs_events, rule runs_return, simp)
  done

lemma runs_end_persisted:
  "runs (handleCancellation r ns n fi now) (\<lambda>x ops. snd x = None \<longrightarrow>
     stPhase (fiStatus fi) \<in> {CancelledPhase, CompletedPhase}
     \<or> all_cleaned fi ops \<and> phase_persisted CancelledPhase ops)"
  "runs (handleExpiry r fi) (\<lambda>x ops. snd x = None \<longrightarrow>
     all_cleaned fi ops \<and> phase_persisted CompletedPhase ops)"
  "runs (handleValidationError r fi verr) (\<lambda>x ops. snd x = None \<longrightarrow> phase_persisted ErrorPhase ops)"
proof -
  have edit: "\<exists>st'. Some (cancelled_status now st) = Some st' \<and> stPhase st' = CancelledPhase"
    "\<exists>st'. Some (completed_status st) = Some st' \<and> stPhase st' = CompletedPhase" for st
    by (simp_all add: cancelled_status_def completed_status_def)
  show "runs (handleCancellation r ns n fi now) (\<lambda>x ops. snd x = None \<longrightarrow>
     stPhase (fiStatus fi) \<in> {CancelledPhase, CompletedPhase}
     \<or> all_cleaned fi ops \<and> phase_persisted CancelledPhase ops)"
    unfolding handleCancellation_def
    apply (rule runs_if, rule runs_return, simp)
    apply (rule runs_bind, rule runs_conseq [OF runs_anything [where A = event_op]], intro always_intro emits_events)
    apply (rule runs_bind, rule runs_events)
    apply (rule runs_conseq [OF runs_clean_then_persist [OF edit(1)]])
    apply (auto elim!: all_cleaned_mono)[1]
    done
  show "runs (handleExpiry r fi) (\<lambda>x ops. snd x = None \<longrightarrow>
     all_cleaned fi ops \<and> phase_persisted CompletedPhase ops)"
    unfolding handleExpiry_def
    apply (rule runs_bind, rule runs_events)
    apply (rule runs_conseq [OF runs_clean_then_persist [OF edit(2)]])
    apply (auto elim!: all_cleaned_mono)[1]
    done
  have error: "phase_persisted ErrorPhase (OpStatusUpdateFI (set_error fi msg) None # b)" for msg b
    unfolding phase_persisted_def by (intro exI [of _ "set_error fi msg"]) (simp add: set_error_def)
  have clean: "runs (cleanupAll r fi) (\<lambda>_ ops. True)" by (rule runs_conseq [OF runs_cleanupAll]) simp
  show "runs (handleValidationError r fi verr) (\<lambda>x ops. snd x = None \<longrightarrow> phase_persisted ErrorPhase ops)"
    unfolding handleValidationError_def
    apply (rule runs_bind, rule runs_events, rule runs_bind, rule runs_events)
    apply (rule runs_bind, rule runs_conseq [OF clean])
    apply (rule runs_bind, rule runs_conseq [OF runs_anything [where A = event_op]], intro always_intro emits_events)
    apply (rule runs_bind, rule runs_statusUpdateFI)
    apply (intro runs_intro; simp add: error)
    done
qed

end
