(* ===== verification/Server.thy ===== *)
theory Server
  imports Outcomes
begin

text \<open>
  What the ends of an experiment leave in the cluster. The API server is a parameter; this theory
  states what it documents about VirtualServices, as a predicate on the reconciler's client and a
  function that looks an object up in the state of the server, and shows that a cancellation or an
  expiry that succeeds leaves no injected rule in the targets of the spec, whatever was in them.
\<close>

section \<open>Triples\<close>

text \<open>From a state of the server with \<open>P\<close>, the computation ends in one with \<open>Q\<close>.\<close>

definition triple :: "('w \<Rightarrow> bool) \<Rightarrow> ('w, 'a) eff \<Rightarrow> ('a \<Rightarrow> 'w \<Rightarrow> bool) \<Rightarrow> bool" where
  "triple P m Q \<longleftrightarrow> (\<forall>s. P (world s) \<longrightarrow> Q (fst (run_state m s)) (world (snd (run_state m s))))"

named_theorems triple_intro

lemma tripleD: "triple P m Q \<Longrightarrow> P (world s) \<Longrightarrow> Q (result_of m s) (world (snd (run_state m s)))"
  by (simp add: triple_def result_of_def)

lemma triple_return [triple_intro]: "(\<And>w. P w \<Longrightarrow> Q a w) \<Longrightarrow> triple P (State_Monad.return a) Q"
  by (simp add: triple_def)

lemma triple_bind:
  "triple P m R \<Longrightarrow> (\<And>a. triple (R a) (f a) Q) \<Longrightarrow> triple P (State_Monad.bind m f) Q"
  by (auto simp: triple_def split: prod.splits)

lemma triple_call: "(\<And>w. P w \<Longrightarrow> Q (fst (f w)) (snd (f w))) \<Longrightarrow> triple P (call f mk) Q"
  by (simp add: triple_def call_def split: prod.splits) (metis fst_conv snd_conv)

lemma triple_eventf [triple_intro]: "(\<And>w. P w \<Longrightarrow> Q () w) \<Longrightarrow> triple P (eventf r t x a) Q"
  by (simp add: triple_def eventf_def emit_def)

lemma triple_conseq:
  "triple P' m Q' \<Longrightarrow> (\<And>w. P w \<Longrightarrow> P' w) \<Longrightarrow> (\<And>a w. Q' a w \<Longrightarrow> Q a w) \<Longrightarrow> triple P m Q"
  unfolding triple_def by blast

lemma triple_conj: "triple P m Q \<Longrightarrow> triple P' m Q' \<Longrightarrow> triple (\<lambda>w. P w \<and> P' w) m (\<lambda>a w. Q a w \<and> Q' a w)"
  unfolding triple_def by blast

lemma triple_all: "(\<And>x. x \<in> X \<Longrightarrow> triple (P x) m (Q x)) \<Longrightarrow>
  triple (\<lambda>w. \<forall>x \<in> X. P x w) m (\<lambda>a w. \<forall>x \<in> X. Q x a w)"
  unfolding triple_def by blast

lemma triple_if [triple_intro]:
  "(b \<Longrightarrow> triple P m Q) \<Longrightarrow> (\<not> b \<Longrightarrow> triple P n Q) \<Longrightarrow> triple P (if b then m else n) Q"
  by simp

lemma triple_case_sum [triple_intro]:
  "(\<And>e. x = Inl e \<Longrightarrow> triple P (f e) Q) \<Longrightarrow> (\<And>v. x = Inr v \<Longrightarrow> triple P (g v) Q) \<Longrightarrow>
   triple P (case x of Inl e \<Rightarrow> f e | Inr v \<Rightarrow> g v) Q"
  by (cases x) auto

lemma triple_case_option [triple_intro]:
  "(x = None \<Longrightarrow> triple P m Q) \<Longrightarrow> (\<And>v. x = Some v \<Longrightarrow> triple P (g v) Q) \<Longrightarrow>
   triple P (case x of None \<Rightarrow> m | Some v \<Rightarrow> g v) Q"
  by (cases x) auto

lemma triple_case_prod [triple_intro]:
  "(\<And>a b. x = (a, b) \<Longrightarrow> triple P (f a b) Q) \<Longrightarrow> triple P (case x of (a, b) \<Rightarrow> f a b) Q"
  by (cases x) auto

text \<open>A computation that keeps a property of the server's state.\<close>

abbreviation holds_on :: "('w \<Rightarrow> bool) \<Rightarrow> ('w, 'a) eff \<Rightarrow> bool" where
  "holds_on I m \<equiv> triple I m (\<lambda>_. I)"

lemma holds_on_bind [triple_intro]:
  "holds_on I m \<Longrightarrow> (\<And>a. holds_on I (f a)) \<Longrightarrow> holds_on I (State_Monad.bind m f)"
  by (rule triple_bind)

lemma holds_on_retry:
  "(\<And>b. holds_on I (f b)) \<Longrightarrow> holds_on I (retry_on_conflict n f b)"
  by (induction n arbitrary: b) (auto intro!: triple_intro)

text \<open>The same with the requests made so far in view: judgements on the whole system.\<close>

definition bears :: "('w sys \<Rightarrow> bool) \<Rightarrow> ('w, 'a) eff \<Rightarrow> ('a \<Rightarrow> 'w sys \<Rightarrow> bool) \<Rightarrow> bool" where
  "bears P m Q \<longleftrightarrow> (\<forall>s. P s \<longrightarrow> Q (fst (run_state m s)) (snd (run_state m s)))"

lemma bearsD: "bears P m Q \<Longrightarrow> P s \<Longrightarrow> Q (result_of m s) (snd (run_state m s))"
  by (simp add: bears_def result_of_def)

lemma bears_return: "(\<And>s. P s \<Longrightarrow> Q a s) \<Longrightarrow> bears P (State_Monad.return a) Q"
  by (simp add: bears_def)

lemma bears_bind: "bears P m R \<Longrightarrow> (\<And>a. bears (R a) (f a) Q) \<Longrightarrow> bears P (State_Monad.bind m f) Q"
  by (auto simp: bears_def split: prod.splits)

lemma bears_conseq:
  "bears P' m Q' \<Longrightarrow> (\<And>s. P s \<Longrightarrow> P' s) \<Longrightarrow> (\<And>a s. Q' a s \<Longrightarrow> Q a s) \<Longrightarrow> bears P m Q"
  unfolding bears_def by blast

lemma bears_conj: "bears P m Q \<Longrightarrow> bears P' m Q' \<Longrightarrow> bears (\<lambda>s. P s \<and> P' s) m (\<lambda>a s. Q a s \<and> Q' a s)"
  unfolding bears_def by blast

lemma bears_if: "(b \<Longrightarrow> bears P m Q) \<Longrightarrow> (\<not> b \<Longrightarrow> bears P n Q) \<Longrightarrow> bears P (if b then m else n) Q"
  by simp

lemma bears_case_sum:
  "(\<And>e. x = Inl e \<Longrightarrow> bears P (f e) Q) \<Longrightarrow> (\<And>v. x = Inr v \<Longrightarrow> bears P (g v) Q) \<Longrightarrow>
   bears P (case x of Inl e \<Rightarrow> f e | Inr v \<Rightarrow> g v) Q"
  by (cases x) auto

lemma bears_case_option:
  "(x = None \<Longrightarrow> bears P m Q) \<Longrightarrow> (\<And>v. x = Some v \<Longrightarrow> bears P (g v) Q) \<Longrightarrow>
   bears P (case x of None \<Rightarrow> m | Some v \<Rightarrow> g v) Q"
  by (cases x) auto

text \<open>The judgement on the server's state is one on the system, and requests only add to the trace.\<close>

lemma triple_bears: "triple P m Q \<Longrightarrow> bears (\<lambda>s. P (world s)) m (\<lambda>a s. Q a (world s))"
  by (simp add: triple_def bears_def)

definition grown :: "op list \<Rightarrow> 'w sys \<Rightarrow> bool" where
  "grown before s \<longleftrightarrow> (\<exists>ops. trace s = before @ ops)"

lemma grown_start [simp]: "grown (trace s) s"
  by (simp add: grown_def)

lemma bears_grown: "runs m Q \<Longrightarrow> bears (grown before) m (\<lambda>_. grown before)"
  unfolding bears_def grown_def using runs_grows by (metis append.assoc)

text \<open>A loop that stops at the first error: without one, each step has done its part.\<close>

lemma bears_each:
  assumes "\<And>k. bears P (f k) (\<lambda>e s. P s \<and> (e = None \<longrightarrow> C k s))"
    and "\<And>k k'. bears (C k) (f k') (\<lambda>_. C k)"
  shows "bears P (each_until_error f ks) (\<lambda>e s. P s \<and> (e = None \<longrightarrow> (\<forall>k \<in> set ks. C k s)))"
proof (induction ks)
  case (Cons k ks)
  have keep: "bears (C k) (each_until_error f ks) (\<lambda>_. C k)" for k ks
    by (induction ks) (auto intro!: bears_return bears_bind [OF assms(2)] bears_case_option)
  have rest: "bears (\<lambda>s. P s \<and> C k s) (each_until_error f ks)
      (\<lambda>e s. (P s \<and> (e = None \<longrightarrow> (\<forall>k \<in> set ks. C k s))) \<and> C k s)"
    by (rule bears_conj [OF Cons.IH keep])
  show ?case
    unfolding each_until_error.simps
  proof (rule bears_bind [OF assms(1)], rule bears_case_option)
    fix a :: "goerr option" assume "a = None"
    then show "bears (\<lambda>s. P s \<and> (a = None \<longrightarrow> C k s)) (each_until_error f ks)
        (\<lambda>e s. P s \<and> (e = None \<longrightarrow> (\<forall>k' \<in> set (k # ks). C k' s)))"
      by (intro bears_conseq [OF rest]) auto
  qed (auto intro!: bears_return)
qed (auto intro!: bears_return)

section \<open>The server\<close>

text \<open>
  What the API server documents of VirtualServices, which as unstructured objects are read from it
  and not from the cache of the client: a read returns the stored object, under its
  namespace and name, or the error NotFound when there is none; an update that succeeds stores
  the object with a new resource version, one that fails changes nothing; a deletion adds nothing
  and leaves labels and spec of what is still there as they are; no other request changes them.
\<close>

definition vs_key :: "vsObj \<Rightarrow> string \<times> string" where
  "vs_key vs = (oNamespace (vsMeta vs), oName (vsMeta vs))"

definition stored_as :: "vsObj \<Rightarrow> vsObj \<Rightarrow> bool" where
  "stored_as vs vs' \<longleftrightarrow>
     (\<exists>rv uid. vs' = vs\<lparr>vsMeta := (vsMeta vs)\<lparr>oResourceVersion := rv, oUID := uid\<rparr>\<rparr>)"

definition no_new :: "vsObj option \<Rightarrow> vsObj option \<Rightarrow> bool" where
  "no_new x y \<longleftrightarrow> (case y of None \<Rightarrow> True
     | Some vs' \<Rightarrow> (case x of None \<Rightarrow> False
         | Some vs \<Rightarrow> vsSpec vs' = vsSpec vs \<and> oLabels (vsMeta vs') = oLabels (vsMeta vs)))"

definition keeps_vs :: "('w \<Rightarrow> string \<times> string \<Rightarrow> vsObj option) \<Rightarrow> ('w \<Rightarrow> 'a \<times> 'w) \<Rightarrow> bool" where
  "keeps_vs look f \<longleftrightarrow> (\<forall>w. look (snd (f w)) = look w)"

definition get_law ::
  "('w \<Rightarrow> string \<times> string \<Rightarrow> vsObj option) \<Rightarrow> string \<times> string \<Rightarrow> ('w \<Rightarrow> (apiError + vsObj) \<times> 'w) \<Rightarrow> bool" where
  "get_law look k f \<longleftrightarrow> keeps_vs look f
     \<and> (\<forall>w. case fst (f w) of
           Inr vs \<Rightarrow> look w k = Some vs \<and> vs_key vs = k
         | Inl e \<Rightarrow> e = NotFound \<longrightarrow> look w k = None)"

definition update_law ::
  "('w \<Rightarrow> string \<times> string \<Rightarrow> vsObj option) \<Rightarrow> vsObj \<Rightarrow> ('w \<Rightarrow> apiError option \<times> 'w) \<Rightarrow> bool" where
  "update_law look vs f \<longleftrightarrow>
     (\<forall>w. case fst (f w) of
           None \<Rightarrow> \<exists>vs'. stored_as vs vs' \<and> look (snd (f w)) = (look w)(vs_key vs \<mapsto> vs')
         | Some _ \<Rightarrow> look (snd (f w)) = look w)"

definition delete_law ::
  "('w \<Rightarrow> string \<times> string \<Rightarrow> vsObj option) \<Rightarrow> ('w \<Rightarrow> apiError option \<times> 'w) \<Rightarrow> bool" where
  "delete_law look f \<longleftrightarrow> (\<forall>w k. no_new (look w k) (look (snd (f w)) k))"

definition vs_server :: "'w reconciler \<Rightarrow> ('w \<Rightarrow> string \<times> string \<Rightarrow> vsObj option) \<Rightarrow> bool" where
  "vs_server r look \<longleftrightarrow>
     (\<forall>ns n. get_law look (ns, n) (rcGetVS r ns n))
     \<and> (\<forall>vs. update_law look vs (rcUpdateVS r vs))
     \<and> (\<forall>vs. delete_law look (rcDeleteVS r vs))
     \<and> (\<forall>ns n. keeps_vs look (rcGetFI r ns n)) \<and> (\<forall>fi. keeps_vs look (rcStatusUpdateFI r fi))
     \<and> (\<forall>ns ls. keeps_vs look (rcListVS r ns ls) \<and> keeps_vs look (rcListJobs r ns ls)
         \<and> keeps_vs look (rcListPods r ns ls) \<and> keeps_vs look (rcListLeases r ns ls))
     \<and> (\<forall>ns. keeps_vs look (rcListDeployments r ns))
     \<and> (\<forall>j. keeps_vs look (rcDeleteJob r j)) \<and> (\<forall>p. keeps_vs look (rcDeletePod r p))
     \<and> (\<forall>l. keeps_vs look (rcDeleteLease r l)) \<and> (\<forall>d. keeps_vs look (rcDeleteDeployment r d))"

text \<open>
  Deletions in particular: after one that is accepted, or answered that there is nothing to delete, the
  object is gone or, while finalizers hold it, marked as being deleted; the mark stays.
\<close>

definition being_deleted :: "vsObj \<Rightarrow> bool" where
  "being_deleted vs \<longleftrightarrow> oDeletionTimestamp (vsMeta vs) \<noteq> None"

definition vs_deletes :: "'w reconciler \<Rightarrow> ('w \<Rightarrow> string \<times> string \<Rightarrow> vsObj option) \<Rightarrow> bool" where
  "vs_deletes r look \<longleftrightarrow>
     (\<forall>vs w k. case look (snd (rcDeleteVS r vs w)) k of
        None \<Rightarrow> True
      | Some vs' \<Rightarrow> being_deleted vs'
          \<or> (vs_key vs = k \<longrightarrow> delete_failed (fst (rcDeleteVS r vs w)))
            \<and> (case look w k of None \<Rightarrow> True | Some vs0 \<Rightarrow> \<not> being_deleted vs0))"

text \<open>
  A slot of the server where an injection is over: empty, or without an injected rule, or the
  operator's own and being deleted; or, when that is excused, just the operator's own.
\<close>

definition slot_over :: "bool \<Rightarrow> faultInjection \<Rightarrow> vsObj option \<Rightarrow> bool" where
  "slot_over excused fi x \<longleftrightarrow>
     (case x of None \<Rightarrow> True
      | Some vs \<Rightarrow> list_all (\<lambda>rule. \<not> injected (fiRuleNamePrefix fi) rule) (http_of vs)
          \<or> managed_by_fi fi vs \<and> (being_deleted vs \<or> excused))"

abbreviation slot_clean :: "faultInjection \<Rightarrow> vsObj option \<Rightarrow> bool" where
  "slot_clean \<equiv> slot_over True"

text \<open>The excuse: the deletion of the object was requested, and refused with an error.\<close>

definition refused :: "op list \<Rightarrow> string \<times> string \<Rightarrow> op list \<Rightarrow> bool" where
  "refused before k ops \<longleftrightarrow>
     (\<exists>a vs d. ops = before @ a \<and> OpDeleteVS vs d \<in> set a \<and> delete_failed d \<and> vs_key vs = k)"

lemma refused_later: "refused before k ops \<Longrightarrow> refused before k (ops @ ops')"
  unfolding refused_def by fastforce

section \<open>The text of the rules shows what was taken out\<close>

lemma length_join:
  "xs \<noteq> [] \<Longrightarrow> Suc (length (join '' '' xs)) = sum_list (map (\<lambda>x. Suc (length x)) xs)"
  by (induction "'' ''" xs rule: join.induct) auto

lemma sprint_vs_map: "sprint_vs xs = map sprint_v xs"
  by (induction xs) auto

lemma weight_filter:
  assumes "list_all (\<lambda>x. P x \<or> f x \<noteq> []) xs"
  shows "sum_list (map (\<lambda>x. Suc (length (f x))) (filter P xs)) + 2 * length (filter (Not \<circ> P) xs)
    \<le> sum_list (map (\<lambda>x. Suc (length (f x))) xs)"
  using assms
proof (induction xs)
  case (Cons x xs)
  have "list_all (\<lambda>x. P x \<or> f x \<noteq> []) xs" and x: "P x \<or> f x \<noteq> []" using Cons.prems by simp_all
  note IH = Cons.IH [OF this(1)]
  show ?case
  proof (cases "P x")
    case True
    have "sum_list (map (\<lambda>x. Suc (length (f x))) (filter P (x # xs))) = Suc (length (f x)) + sum_list (map (\<lambda>x. Suc (length (f x))) (filter P xs))"
      using True by (simp only: filter.simps if_True list.map sum_list.Cons)
    moreover have "length (filter (Not \<circ> P) (x # xs)) = length (filter (Not \<circ> P) xs)"
      using True by (simp only: filter.simps comp_def not_True_eq_False if_False)
    ultimately show ?thesis using IH by (simp only: list.map sum_list.Cons)
  next
    case False
    have "sum_list (map (\<lambda>x. Suc (length (f x))) (filter P (x # xs))) = sum_list (map (\<lambda>x. Suc (length (f x))) (filter P xs))"
      using False by (simp only: filter.simps if_False)
    moreover have "length (filter (Not \<circ> P) (x # xs)) = Suc (length (filter (Not \<circ> P) xs))"
      using False by (simp only: filter.simps comp_def not_False_eq_True if_True list.size) 
    moreover have "1 \<le> length (f x)" using x False by (cases "f x") simp_all
    moreover have "a + 2 * n \<le> b \<Longrightarrow> 1 \<le> l \<Longrightarrow> a + 2 * Suc n \<le> Suc l + b" for a n b l :: nat by simp
    ultimately show ?thesis using IH by (simp only: list.map sum_list.Cons)
  qed
qed simp

lemma deepEqual_filter:
  assumes "list_all (\<lambda>x. P x \<or> sprint_v x \<noteq> []) xs" "deepEqualHTTP xs (filter P xs)"
  shows "filter P xs = xs"
proof (rule ccontr)
  assume "filter P xs \<noteq> xs"
  then have "\<not> (\<forall>x \<in> set xs. P x)" by (metis filter_id_conv)
  then have removed: "1 \<le> length (filter (Not \<circ> P) xs)"
    by (simp add: Suc_le_eq filter_empty_conv)
  let ?w = "\<lambda>ys. sum_list (map (\<lambda>x. Suc (length (sprint_v x))) ys)"
  have eq: "length (join '' '' (map sprint_v xs)) = length (join '' '' (map sprint_v (filter P xs)))"
    using assms(2) by (simp add: deepEqualHTTP_def sprint_vs_map)
  have weight: "ys \<noteq> [] \<Longrightarrow> Suc (length (join '' '' (map sprint_v ys))) = ?w ys" for ys
    using length_join [of "map sprint_v ys"]
    by (simp only: list.map_comp comp_def list.map_disc_iff not_False_eq_True simp_thms)
  have w: "?w (filter P xs) + 2 \<le> ?w xs"
    using weight_filter [OF assms(1)] removed by linarith
  have "xs \<noteq> []" using removed by auto
  note xs = weight [OF this]
  show False
  proof (cases "filter P xs = []")
    case True
    then have "join '' '' (map sprint_v (filter P xs)) = []" by (simp only: list.map join.simps)
    then show False using xs w eq by simp
  next
    case False
    from weight [OF this] show False using xs w eq by linarith
  qed
qed

lemma injected_printed: "injected p x \<Longrightarrow> sprint_v x \<noteq> []"
  by (cases x) auto

lemma unchanged_clean:
  assumes "deepEqualHTTP (http_of vs) (user_rules fi vs)"
  shows "list_all (\<lambda>rule. \<not> injected (fiRuleNamePrefix fi) rule) (http_of vs)"
proof -
  have "filter (\<lambda>x. \<not> injected (fiRuleNamePrefix fi) x) (http_of vs) = http_of vs"
    using assms injected_printed [of "fiRuleNamePrefix fi"]
    by (intro deepEqual_filter) (auto simp: user_rules_def list_all_iff)
  then show ?thesis by (simp add: filter_id_conv list_all_iff)
qed

section \<open>Requests and slots\<close>

lemma triple_keeps: "keeps_vs look f \<Longrightarrow> holds_on (\<lambda>w. I (look w)) (call f mk)"
  by (rule triple_call) (simp add: keeps_vs_def)

lemma server_keeps:
  assumes "vs_server r look"
  shows "holds_on (\<lambda>w. I (look w)) (getVS r ns n)"
    and "holds_on (\<lambda>w. I (look w)) (getFI r ns n)" and "holds_on (\<lambda>w. I (look w)) (statusUpdateFI r fi)"
    and "holds_on (\<lambda>w. I (look w)) (listVS r ns ls)" and "holds_on (\<lambda>w. I (look w)) (listJobs r ns ls)"
    and "holds_on (\<lambda>w. I (look w)) (listPods r ns ls)" and "holds_on (\<lambda>w. I (look w)) (listLeases r ns ls)"
    and "holds_on (\<lambda>w. I (look w)) (listDeployments r ns)" and "holds_on (\<lambda>w. I (look w)) (deleteJob r j)"
    and "holds_on (\<lambda>w. I (look w)) (deletePod r p)" and "holds_on (\<lambda>w. I (look w)) (deleteLease r l)"
    and "holds_on (\<lambda>w. I (look w)) (deleteDeployment r d)"
  using assms unfolding vs_server_def get_law_def call_defs by (blast intro: triple_keeps)+

lemma slot_clean_Some:
  "slot_clean fi (Some vs) \<longleftrightarrow> managed_by_fi fi vs
     \<or> list_all (\<lambda>rule. \<not> injected (fiRuleNamePrefix fi) rule) (http_of vs)"
  by (auto simp: slot_over_def)

lemma slot_over_mono: "slot_over b fi x \<Longrightarrow> (b \<Longrightarrow> b') \<Longrightarrow> slot_over b' fi x"
  by (auto simp: slot_over_def split: option.splits)

lemma no_new_cases:
  assumes "no_new x y"
  obtains "y = None"
  | vs vs' where "x = Some vs" "y = Some vs'" "http_of vs' = http_of vs" "\<And>fi. managed_by_fi fi vs' = managed_by_fi fi vs"
  using assms by (auto simp: no_new_def managed_by_fi_def http_of_def spec_of_def split: option.splits)

lemma stored_as_facts:
  "stored_as vs vs' \<Longrightarrow> http_of vs' = http_of vs \<and> managed_by_fi fi vs' = managed_by_fi fi vs"
  by (auto simp: stored_as_def http_of_def spec_of_def managed_by_fi_def)

text \<open>What is asked of the server's deletions, unless objects of the operator are excused anyway.\<close>

lemma clean_delete:
  assumes "vs_server r look" "b \<or> vs_deletes r look"
  shows "holds_on (\<lambda>w. slot_over b fi (look w k)) (deleteVS r vs)"
    and "managed_by_fi fi vs0 \<Longrightarrow> vs_key vs = k \<Longrightarrow>
      triple (\<lambda>w. look w k = Some vs0) (deleteVS r vs) (\<lambda>d w. slot_over (b \<or> delete_failed d) fi (look w k))"
proof -
  have "delete_law look (rcDeleteVS r vs)" using assms unfolding vs_server_def by blast
  then have law: "no_new (look w k) (look (snd (rcDeleteVS r vs w)) k)" for w unfolding delete_law_def by blast
  have deletes: "case look (snd (rcDeleteVS r vs w)) k of
        None \<Rightarrow> True
      | Some vs' \<Rightarrow> being_deleted vs'
          \<or> (vs_key vs = k \<longrightarrow> delete_failed (fst (rcDeleteVS r vs w)))
            \<and> (case look w k of None \<Rightarrow> True | Some vs0 \<Rightarrow> \<not> being_deleted vs0)" if "\<not> b" for w
    using assms(2) that unfolding vs_deletes_def by blast
  show "holds_on (\<lambda>w. slot_over b fi (look w k)) (deleteVS r vs)"
    unfolding call_defs
  proof (rule triple_call)
    fix w assume over: "slot_over b fi (look w k)"
    from law [of w] show "slot_over b fi (look (snd (rcDeleteVS r vs w)) k)"
    proof (cases rule: no_new_cases)
      case (2 v v')
      then show ?thesis using over deletes [of w] by (cases b) (auto simp: slot_over_def)
    qed (simp add: slot_over_def)
  qed
  show "triple (\<lambda>w. look w k = Some vs0) (deleteVS r vs) (\<lambda>d w. slot_over (b \<or> delete_failed d) fi (look w k))"
    if own: "managed_by_fi fi vs0" "vs_key vs = k"
    unfolding call_defs
  proof (rule triple_call)
    fix w assume "look w k = Some vs0"
    with law [of w] show "slot_over (b \<or> delete_failed (fst (rcDeleteVS r vs w))) fi (look (snd (rcDeleteVS r vs w)) k)"
    proof (cases rule: no_new_cases)
      case (2 v v')
      then show ?thesis using own \<open>look w k = Some vs0\<close> deletes [of w] by (cases b) (auto simp: slot_over_def)
    qed (simp add: slot_over_def)
  qed
qed

lemma clean_update:
  assumes "vs_server r look" "list_all (\<lambda>rule. \<not> injected (fiRuleNamePrefix fi) rule) (http_of vs)"
  shows "holds_on (\<lambda>w. slot_over b fi (look w k)) (updateVS r vs)"
    and "triple P (updateVS r vs) (\<lambda>e w. e = None \<longrightarrow> slot_over b fi (look w (vs_key vs)))"
proof -
  have "update_law look vs (rcUpdateVS r vs)" using assms(1) unfolding vs_server_def by blast
  then have law: "case fst (rcUpdateVS r vs w) of
        None \<Rightarrow> \<exists>vs'. stored_as vs vs' \<and> look (snd (rcUpdateVS r vs w)) = (look w)(vs_key vs \<mapsto> vs')
      | Some _ \<Rightarrow> look (snd (rcUpdateVS r vs w)) = look w" for w
    by (simp add: update_law_def)
  have stored: "stored_as vs vs' \<Longrightarrow> slot_over b fi (Some vs')" for vs'
    using assms(2) stored_as_facts [of vs vs' fi] by (simp add: slot_over_def)
  show "holds_on (\<lambda>w. slot_over b fi (look w k)) (updateVS r vs)"
    unfolding call_defs
  proof (rule triple_call)
    fix w assume "slot_over b fi (look w k)"
    then show "slot_over b fi (look (snd (rcUpdateVS r vs w)) k)"
      using law [of w] stored by (auto split: option.splits)
  qed
  show "triple P (updateVS r vs) (\<lambda>e w. e = None \<longrightarrow> slot_over b fi (look w (vs_key vs)))"
    unfolding call_defs
  proof (rule triple_call, rule impI)
    fix w assume "fst (rcUpdateVS r vs w) = None"
    then show "slot_over b fi (look (snd (rcUpdateVS r vs w)) (vs_key vs))"
      using law [of w] stored by auto
  qed
qed

section \<open>Cleanup\<close>

text \<open>The slot of a target.\<close>

definition target_clean ::
  "('w \<Rightarrow> string \<times> string \<Rightarrow> vsObj option) \<Rightarrow> faultInjection \<Rightarrow> string \<Rightarrow> 'w \<Rightarrow> bool" where
  "target_clean look fi k w \<longleftrightarrow> slot_clean fi (look w (splitKey k))"

lemma removed_clean:
  assumes "patchVirtualServiceHTTP vs (fiRuleNamePrefix fi) [] = (vs', ch)"
  shows "list_all (\<lambda>rule. \<not> injected (fiRuleNamePrefix fi) rule) (http_of vs')"
    and "vs_key vs' = vs_key vs" and "managed_by_fi fi vs' \<longleftrightarrow> managed_by_fi fi vs"
    and "\<not> ch \<Longrightarrow> list_all (\<lambda>rule. \<not> injected (fiRuleNamePrefix fi) rule) (http_of vs)"
proof -
  have u: "remove_update fi vs vs'" using assms remove_update_patch [of fi vs] by simp
  then have h: "http_of vs' = user_rules fi vs" and m: "vsMeta vs' = vsMeta vs"
    by (simp_all add: remove_update_def)
  show "list_all (\<lambda>rule. \<not> injected (fiRuleNamePrefix fi) rule) (http_of vs')"
    by (simp add: h user_rules_def list_all_iff)
  show "vs_key vs' = vs_key vs" "managed_by_fi fi vs' \<longleftrightarrow> managed_by_fi fi vs"
    by (simp_all add: vs_key_def managed_by_fi_def m)
  show "list_all (\<lambda>rule. \<not> injected (fiRuleNamePrefix fi) rule) (http_of vs)" if "\<not> ch"
    using patch_changed [of vs "fiRuleNamePrefix fi" "[]"] assms that
    by (intro unchanged_clean) (simp add: h)
qed

text \<open>
  The target in the system: what the slot is like at the end of the requests, with the refused
  deletions as the excuse, if \<open>b\<close> does not excuse all.
\<close>

definition target_over ::
  "bool \<Rightarrow> ('w \<Rightarrow> string \<times> string \<Rightarrow> vsObj option) \<Rightarrow> faultInjection \<Rightarrow> op list \<Rightarrow> string \<Rightarrow> 'w sys \<Rightarrow> bool" where
  "target_over b look fi before k s \<longleftrightarrow>
     slot_over (b \<or> refused before (splitKey k) (trace s)) fi (look (world s) (splitKey k))"

lemma bears_over:
  assumes "\<And>c. c \<or> \<not> b \<Longrightarrow> holds_on (\<lambda>w. slot_over c fi (look w (splitKey k))) m" "runs m Q"
  shows "bears (target_over b look fi before k) m (\<lambda>_. target_over b look fi before k)"
proof -
  have "target_over b look fi before k (snd (run_state m s))" if "target_over b look fi before k s" for s
  proof -
    let ?c = "b \<or> refused before (splitKey k) (trace s)"
    have "slot_over ?c fi (look (world (snd (run_state m s))) (splitKey k))"
      using tripleD [OF assms(1) [of ?c], of s] that unfolding target_over_def by auto
    moreover have "refused before (splitKey k) (trace (snd (run_state m s)))" if "refused before (splitKey k) (trace s)"
      using runs_grows [OF assms(2), of s] refused_later [OF that] by auto
    ultimately show ?thesis unfolding target_over_def by (auto elim: slot_over_mono)
  qed
  then show ?thesis by (simp add: bears_def)
qed

lemma cleanup_target_keeps:
  assumes "vs_server r look" "c \<or> vs_deletes r look"
  shows "holds_on (\<lambda>w. slot_over c fi (look w k)) (cleanup_target r fi k')"
proof -
  obtain ns n where k': "splitKey k' = (ns, n)" by fastforce
  note keep = server_keeps [OF assms(1), where I = "\<lambda>v. slot_over c fi (v k)"]
  note del = clean_delete(1) [OF assms, where fi = fi and k = k]
  note upd = clean_update(1) [OF assms(1), where fi = fi and k = k and b = c]
  show ?thesis
    unfolding cleanup_target_def k' Let_def prod.case
    by (intro triple_intro keep del upd) (simp_all add: removed_clean(1))
qed

lemma server_get:
  assumes "vs_server r look"
  shows "triple P (getVS r ns n) (\<lambda>g w. case g of
      Inr vs \<Rightarrow> look w (ns, n) = Some vs \<and> vs_key vs = (ns, n)
    | Inl e \<Rightarrow> e = NotFound \<longrightarrow> look w (ns, n) = None)"
proof -
  have "get_law look (ns, n) (rcGetVS r ns n)" using assms unfolding vs_server_def by blast
  then have "look (snd (rcGetVS r ns n w)) = look w"
    and "case fst (rcGetVS r ns n w) of
      Inr vs \<Rightarrow> look w (ns, n) = Some vs \<and> vs_key vs = (ns, n)
    | Inl e \<Rightarrow> e = NotFound \<longrightarrow> look w (ns, n) = None" for w
    unfolding get_law_def keeps_vs_def by blast+
  then show ?thesis unfolding call_defs by (intro triple_call) (simp only:)
qed

text \<open>After the deletion of an object of the operator: the request is in the trace, with its answer.\<close>

lemma delete_over:
  assumes "vs_server r look" "b \<or> vs_deletes r look" "managed_by_fi fi vs0" "vs_key vs = splitKey k"
  shows "bears (\<lambda>s. grown before s \<and> look (world s) (splitKey k) = Some vs0) (deleteVS r vs)
    (\<lambda>_ s. target_over b look fi before k s)"
proof -
  have "target_over b look fi before k (snd (run_state (deleteVS r vs) s))"
    if s: "grown before s" "look (world s) (splitKey k) = Some vs0" for s
  proof -
    let ?d = "result_of (deleteVS r vs) s" and ?s = "snd (run_state (deleteVS r vs) s)"
    have "slot_over (b \<or> delete_failed ?d) fi (look (world ?s) (splitKey k))"
      using tripleD [OF clean_delete(2) [OF assms], of s] s(2) by simp
    moreover have "refused before (splitKey k) (trace ?s)" if "delete_failed ?d"
    proof -
      obtain ops where "trace s = before @ ops" using s(1) by (auto simp: grown_def)
      then have "trace ?s = before @ ops @ [OpDeleteVS vs ?d]"
        by (simp add: call_defs call_def result_of_def split: prod.split)
      then show ?thesis using that assms(4) unfolding refused_def by fastforce
    qed
    ultimately show ?thesis unfolding target_over_def by (auto elim: slot_over_mono)
  qed
  then show ?thesis by (simp add: bears_def)
qed

lemma runs_any: "runs (eventf r t x a) (\<lambda>_ _. True)" "runs (getVS r ns n) (\<lambda>_ _. True)"
    "runs (listVS r ns ls) (\<lambda>_ _. True)"
  by (intro runs_intro; simp)+

lemma events_over:
  "bears (target_over b look fi before k) (eventf r t x a) (\<lambda>_. target_over b look fi before k)"
  by (rule bears_over [OF _ runs_any(1)]) (rule triple_eventf)

lemma cleanup_target_cleans:
  assumes "vs_server r look" "b \<or> vs_deletes r look"
  shows "bears (grown before) (cleanup_target r fi k)
    (\<lambda>e s. grown before s \<and> (e = None \<longrightarrow> target_over b look fi before k s))"
proof -
  obtain ns n where k: "splitKey k = (ns, n)" by fastforce
  let ?Q = "\<lambda>e s. e = None \<longrightarrow> target_over b look fi before k s"
  have get: "bears (grown before) (getVS r ns n) (\<lambda>g s. grown before s \<and> (case g of
      Inr vs \<Rightarrow> look (world s) (ns, n) = Some vs \<and> vs_key vs = (ns, n)
    | Inl e \<Rightarrow> e = NotFound \<longrightarrow> look (world s) (ns, n) = None))"
    using bears_conj [OF bears_grown [OF runs_any(2)] triple_bears [OF server_get [OF assms(1), where P = "\<lambda>_. True"]]]
    by (rule bears_conseq) simp_all
  have "bears (grown before) (cleanup_target r fi k) ?Q"
    unfolding cleanup_target_def k Let_def prod.case
  proof (rule bears_bind [OF get], rule bears_case_sum)
    fix a :: "apiError + vsObj" and e assume a: "a = Inl e"
    show "bears (\<lambda>s. grown before s \<and> (case a of
          Inr vs \<Rightarrow> look (world s) (ns, n) = Some vs \<and> vs_key vs = (ns, n)
        | Inl e \<Rightarrow> e = NotFound \<longrightarrow> look (world s) (ns, n) = None)) (State_Monad.return (ignoreNotFound e)) ?Q"
      by (rule bears_return) (auto simp: a ignoreNotFound_def target_over_def slot_over_def k)
  next
    fix a :: "apiError + vsObj" and vs0 assume a: "a = Inr vs0"
    obtain vs ch where p: "patchVirtualServiceHTTP vs0 (fiRuleNamePrefix fi) [] = (vs, ch)" by fastforce
    note f = removed_clean [OF p]
    let ?P = "\<lambda>s. grown before s \<and> look (world s) (ns, n) = Some vs0 \<and> vs_key vs0 = (ns, n)"
    have key: "bears ?P m ?Q" if "vs_key vs0 = (ns, n) \<Longrightarrow> bears ?P m ?Q" for m
      using that by (auto simp: bears_def)
    have del: "bears ?P (do {
          d \<leftarrow> deleteVS r vs;
          (if delete_failed d then eventf r ''Warning'' ''VirtualServiceDeleteFailed'' ''vs-delete''
           else eventf r ''Normal'' ''VirtualServiceDeleted'' ''vs-delete'');
          State_Monad.return None }) ?Q" if "managed_by_fi fi vs"
    proof (rule key)
      assume "vs_key vs0 = (ns, n)"
      then have "vs_key vs = splitKey k" "managed_by_fi fi vs0" using f that k by simp_all
      from delete_over [OF assms this(2,1), of before]
      have "bears ?P (deleteVS r vs) (\<lambda>_ s. target_over b look fi before k s)"
        by (rule bears_conseq) (simp_all add: k)
      then show ?thesis
        by (rule bears_bind) (rule bears_bind, rule bears_if; rule events_over bears_return; simp)
    qed
    have upd: "bears ?P (do {
          u \<leftarrow> updateVS r vs;
          (case u of
             Some e \<Rightarrow> do {
               eventf r ''Warning'' ''CleanupUpdateFailed'' ''vs-update'';
               State_Monad.return (Some (EApi e)) }
           | None \<Rightarrow> do {
               eventf r ''Normal'' ''RulesRemoved'' ''cleanup'';
               State_Monad.return None }) }) ?Q"
    proof (rule key)
      assume "vs_key vs0 = (ns, n)"
      then have key: "vs_key vs = splitKey k" using f k by simp
      have "bears ?P (updateVS r vs) (\<lambda>e s. e = None \<longrightarrow> slot_over False fi (look (world s) (splitKey k)))"
        using triple_bears [OF clean_update(2) [OF assms(1) f(1), of "\<lambda>_. True" False]] unfolding key
        by (rule bears_conseq) simp_all
      then have "bears ?P (updateVS r vs) (\<lambda>e s. e = None \<longrightarrow> target_over b look fi before k s)"
        by (rule bears_conseq) (auto simp: target_over_def elim: slot_over_mono)
      then show ?thesis
      proof (rule bears_bind, intro bears_case_option)
        fix u :: "apiError option" assume u: "u = None"
        show "bears (\<lambda>s. u = None \<longrightarrow> target_over b look fi before k s)
            (do { eventf r ''Normal'' ''RulesRemoved'' ''cleanup''; State_Monad.return None }) ?Q"
          unfolding u by (simp only: simp_thms) (rule bears_bind [OF events_over], rule bears_return, simp)
      qed (rule bears_bind [where R = "\<lambda>_ _. True"], simp add: bears_def, rule bears_return, simp)
    qed
    have none: "bears ?P (State_Monad.return None) ?Q" if "\<not> ch"
      by (rule bears_return) (use f that k in \<open>simp add: target_over_def slot_over_def\<close>)
    show "bears (\<lambda>s. grown before s \<and> (case a of
          Inr vs \<Rightarrow> look (world s) (ns, n) = Some vs \<and> vs_key vs = (ns, n)
        | Inl e \<Rightarrow> e = NotFound \<longrightarrow> look (world s) (ns, n) = None))
      (case patchVirtualServiceHTTP vs0 (fiRuleNamePrefix fi) [] of
        (vs, changed) \<Rightarrow> if managed_by_fi fi vs then do {
               d \<leftarrow> deleteVS r vs;
               (if delete_failed d then eventf r ''Warning'' ''VirtualServiceDeleteFailed'' ''vs-delete''
                else eventf r ''Normal'' ''VirtualServiceDeleted'' ''vs-delete'');
               State_Monad.return None
             }
             else if changed then do {
               u \<leftarrow> updateVS r vs;
               (case u of
                  Some e \<Rightarrow> do {
                    eventf r ''Warning'' ''CleanupUpdateFailed'' ''vs-update'';
                    State_Monad.return (Some (EApi e))
                  }
                | None \<Rightarrow> do {
                    eventf r ''Normal'' ''RulesRemoved'' ''cleanup'';
                    State_Monad.return None
                  })
             }
             else State_Monad.return None) ?Q"
      unfolding p prod.case a sum.case by (intro bears_if del upd none)
  qed
  from bears_conj [OF bears_grown [OF always_runs [OF quiet_cleanup_target]] this] show ?thesis by (rule bears_conseq) auto
qed

lemma artifacts_keep:
  assumes "vs_server r look"
  shows "holds_on (\<lambda>w. I (look w)) (cleanupPodFaultArtifacts r fi)"
    and "holds_on (\<lambda>w. I (look w)) (cleanupFIManagedDeployments r fi)"
    and "holds_on (\<lambda>w. I (look w)) (update_status r ns n edit)"
proof -
  note keep = server_keeps [OF assms, where I = I]
  have each: "holds_on (\<lambda>w. I (look w)) (delete_each r skip del f d xs)"
    if "\<And>x. holds_on (\<lambda>w. I (look w)) (del x)"
    for skip and del :: "'x \<Rightarrow> ('a, apiError option) eff" and f d xs
    by (induction xs) (auto intro!: triple_intro that)
  show "holds_on (\<lambda>w. I (look w)) (cleanupPodFaultArtifacts r fi)"
    unfolding cleanupPodFaultArtifacts_def by (intro triple_intro keep each) simp_all
  have deps: "holds_on (\<lambda>w. I (look w)) (deployments_loop r fi ds)" for ds
    by (induction ds) (auto intro!: triple_intro keep)
  show "holds_on (\<lambda>w. I (look w)) (cleanupFIManagedDeployments r fi)"
    unfolding cleanupFIManagedDeployments_def by (intro triple_intro keep deps) simp_all
  show "holds_on (\<lambda>w. I (look w)) (update_status r ns n edit)"
    unfolding update_status_def edit_status_def
    by (intro triple_intro keep holds_on_retry) simp_all
qed

definition targets_clean ::
  "('w \<Rightarrow> string \<times> string \<Rightarrow> vsObj option) \<Rightarrow> faultInjection \<Rightarrow> 'w \<Rightarrow> bool" where
  "targets_clean look fi w \<longleftrightarrow> list_all (\<lambda>k. target_clean look fi k w) (spec_targets fi)"

lemma cleanup_targets_spec: "set (spec_targets fi) \<subseteq> set (cleanup_targets fi items)"
proof -
  have "set ts \<subseteq> set (foldl (\<lambda>ts vs. List.insert (joinKey (oNamespace (vsMeta vs)) (oName (vsMeta vs))) ts) ts items)" for ts
    by (induction items arbitrary: ts) (auto simp: subset_iff)
  then show ?thesis by (simp add: cleanup_targets_def)
qed

text \<open>All targets of the spec.\<close>

definition targets_over ::
  "bool \<Rightarrow> ('w \<Rightarrow> string \<times> string \<Rightarrow> vsObj option) \<Rightarrow> faultInjection \<Rightarrow> op list \<Rightarrow> 'w sys \<Rightarrow> bool" where
  "targets_over b look fi before s \<longleftrightarrow>
     grown before s \<and> (\<forall>k \<in> set (spec_targets fi). target_over b look fi before k s)"

lemma bears_targets:
  assumes "\<And>c k. c \<or> \<not> b \<Longrightarrow> holds_on (\<lambda>w. slot_over c fi (look w k)) m" "runs m Q"
  shows "bears (targets_over b look fi before) m (\<lambda>_. targets_over b look fi before)"
proof -
  have "bears (target_over b look fi before k) m (\<lambda>_. target_over b look fi before k)" for k
    by (rule bears_over [OF assms])
  then show ?thesis using bears_grown [OF assms(2)] unfolding bears_def targets_over_def by blast
qed

lemma runs_artifacts:
  "runs (cleanupPodFaultArtifacts r fi) (\<lambda>_ _. True)" "runs (cleanupFIManagedDeployments r fi) (\<lambda>_ _. True)"
  "runs (update_status r ns n edit) (\<lambda>_ _. True)"
proof -
  have e: "emits (\<lambda>x. \<not> injects x) (cleanupPodFaultArtifacts r fi)" "emits (\<lambda>x. \<not> injects x) (cleanupFIManagedDeployments r fi)"
    unfolding cleanupPodFaultArtifacts_def cleanupFIManagedDeployments_def call_defs
    by (intro always_intro always_call quiet_delete_each quiet_deployments; simp)+
  show "runs (cleanupPodFaultArtifacts r fi) (\<lambda>_ _. True)" by (rule runs_conseq [OF always_runs [OF e(1)]]) simp
  show "runs (cleanupFIManagedDeployments r fi) (\<lambda>_ _. True)" by (rule runs_conseq [OF always_runs [OF e(2)]]) simp
  show "runs (update_status r ns n edit) (\<lambda>_ _. True)" by (rule runs_conseq [OF runs_update_status]) simp
qed

lemma artifacts_keep_over:
  assumes "vs_server r look"
  shows "bears (targets_over b look fi before) (cleanupPodFaultArtifacts r fi') (\<lambda>_. targets_over b look fi before)"
    and "bears (targets_over b look fi before) (cleanupFIManagedDeployments r fi') (\<lambda>_. targets_over b look fi before)"
    and "bears (targets_over b look fi before) (update_status r ns n edit) (\<lambda>_. targets_over b look fi before)"
    and "bears (targets_over b look fi before) (eventf r t x a) (\<lambda>_. targets_over b look fi before)"
  by (rule bears_targets [OF artifacts_keep(1) [OF assms] runs_artifacts(1)]
      bears_targets [OF artifacts_keep(2) [OF assms] runs_artifacts(2)]
      bears_targets [OF artifacts_keep(3) [OF assms] runs_artifacts(3)]
      bears_targets [OF triple_eventf runs_any(1)]; assumption)+

text \<open>The handlers return no error only with the targets done.\<close>

abbreviation ends_over ::
  "bool \<Rightarrow> ('w \<Rightarrow> string \<times> string \<Rightarrow> vsObj option) \<Rightarrow> faultInjection \<Rightarrow> op list \<Rightarrow> goerr option \<Rightarrow> 'w sys \<Rightarrow> bool" where
  "ends_over b look fi before e s \<equiv> e = None \<longrightarrow> targets_over b look fi before s"

lemma cleanupAll_leaves_clean:
  assumes "vs_server r look" "b \<or> vs_deletes r look"
  shows "bears (grown before) (cleanupAll r fi) (ends_over b look fi before)"
proof -
  note keep = artifacts_keep_over(1,2) [OF assms(1), where fi' = fi and fi = fi and b = b and before = before]
  have each: "bears (grown before) (each_until_error (cleanup_target r fi) (range_keys r (cleanup_targets fi items)))
      (ends_over b look fi before)" for items
  proof (rule bears_conseq [OF bears_each [where P = "grown before" and C = "target_over b look fi before"]])
    show "bears (grown before) (cleanup_target r fi k)
        (\<lambda>e s. grown before s \<and> (e = None \<longrightarrow> target_over b look fi before k s))" for k
      by (rule cleanup_target_cleans [OF assms])
    show "bears (target_over b look fi before k) (cleanup_target r fi k') (\<lambda>_. target_over b look fi before k)" for k k'
      by (rule bears_over [OF cleanup_target_keeps [OF assms(1)] always_runs [OF quiet_cleanup_target]]) (use assms(2) in blast)
    show "ends_over b look fi before e s"
      if "grown before s \<and> (e = None \<longrightarrow>
        (\<forall>k \<in> set (range_keys r (cleanup_targets fi items)). target_over b look fi before k s))" for e s
      using that cleanup_targets_spec [of fi items] by (auto simp: targets_over_def)
  qed simp
  have rest: "bears (targets_over b look fi before) (do {
      _ \<leftarrow> cleanupPodFaultArtifacts r fi;
      _ \<leftarrow> cleanupFIManagedDeployments r fi;
      State_Monad.return None }) (ends_over b look fi before)"
    by (rule bears_bind [OF keep(1)], rule bears_bind [OF keep(2)], rule bears_return) simp
  have fail: "bears P (do { eventf r t x a; State_Monad.return (Some e) }) (ends_over b look fi before)" for P t x a e
    by (rule bears_bind [where R = "\<lambda>_ _. True"], simp add: bears_def, rule bears_return, simp)
  show ?thesis
    unfolding cleanupAll_def
  proof (rule bears_bind [OF bears_grown [OF runs_any(3)]], rule bears_case_sum, rule fail, rule bears_bind [OF each],
      rule bears_case_option)
    fix e :: "goerr option" assume "e = None"
    then show "bears (ends_over b look fi before e) (do {
           _ \<leftarrow> cleanupPodFaultArtifacts r fi;
           _ \<leftarrow> cleanupFIManagedDeployments r fi;
           State_Monad.return None }) (ends_over b look fi before)"
      using rest by simp
  qed (rule bears_return, simp)
qed

section \<open>The ends of an experiment\<close>

lemma clean_then_persist:
  assumes "vs_server r look" "b \<or> vs_deletes r look"
  shows "bears (grown before) (do {
      c \<leftarrow> cleanupAll r fi;
      (case c of
         Some e \<Rightarrow> do { eventf r t1 x1 a1; State_Monad.return (no_requeue, Some e) }
       | None \<Rightarrow> do {
           u \<leftarrow> update_status r ns n edit;
           (case u of
              Some e \<Rightarrow> do { eventf r t2 x2 a2; State_Monad.return (no_requeue, Some e) }
            | None \<Rightarrow> do { eventf r t3 x3 a3; State_Monad.return (no_requeue, None) })
         })
    }) (\<lambda>x. ends_over b look fi before (snd x))"
proof -
  note keep = artifacts_keep_over [OF assms(1), where fi = fi and b = b and before = before]
  have err: "bears P (do { eventf r t x a; State_Monad.return (no_requeue, Some e) })
      (\<lambda>x. ends_over b look fi before (snd x))" for P t x a e
    by (rule bears_bind [where R = "\<lambda>_ _. True"], simp add: bears_def, rule bears_return, simp)
  have tail: "bears (targets_over b look fi before) (do {
           u \<leftarrow> update_status r ns n edit;
           (case u of
              Some e \<Rightarrow> do { eventf r t2 x2 a2; State_Monad.return (no_requeue, Some e) }
            | None \<Rightarrow> do { eventf r t3 x3 a3; State_Monad.return (no_requeue, None) })
         }) (\<lambda>x. ends_over b look fi before (snd x))"
    by (rule bears_bind [OF keep(3)], rule bears_case_option, rule bears_bind [OF keep(4)], rule bears_return, simp, rule err)
  show ?thesis
  proof (rule bears_bind [OF cleanupAll_leaves_clean [OF assms]], rule bears_case_option)
    fix c :: "goerr option" assume "c = None"
    then show "bears (ends_over b look fi before c) (do {
           u \<leftarrow> update_status r ns n edit;
           (case u of
              Some e \<Rightarrow> do { eventf r t2 x2 a2; State_Monad.return (no_requeue, Some e) }
            | None \<Rightarrow> do { eventf r t3 x3 a3; State_Monad.return (no_requeue, None) })
         }) (\<lambda>x. ends_over b look fi before (snd x))"
      using tail by simp
  qed (rule err)
qed

lemma ends_leave_clean:
  assumes "vs_server r look" "b \<or> vs_deletes r look"
  shows "bears (grown before) (handleExpiry r fi) (\<lambda>x. ends_over b look fi before (snd x))"
    and "stPhase (fiStatus fi) \<notin> {CancelledPhase, CompletedPhase} \<Longrightarrow>
      bears (grown before) (handleCancellation r ns n fi now) (\<lambda>x. ends_over b look fi before (snd x))"
proof -
  have ev: "bears (grown before) (eventf r t x a) (\<lambda>_. grown before)"
      "bears (grown before) (if c then eventf r t x a else State_Monad.return ()) (\<lambda>_. grown before)" for t x a c
    by (rule bears_grown, rule runs_any, intro bears_if bears_grown [OF runs_any(1)] bears_return)
  show "bears (grown before) (handleExpiry r fi) (\<lambda>x. ends_over b look fi before (snd x))"
    unfolding handleExpiry_def by (rule bears_bind [OF ev(1)], rule clean_then_persist [OF assms])
  show "bears (grown before) (handleCancellation r ns n fi now) (\<lambda>x. ends_over b look fi before (snd x))"
    if live: "stPhase (fiStatus fi) \<notin> {CancelledPhase, CompletedPhase}"
    unfolding handleCancellation_def
  proof (rule bears_if, goal_cases)
    case 1
    then show ?case using live by simp
  next
    case 2
    show ?case by (rule bears_bind [OF ev(2)], rule bears_bind [OF ev(1)], rule clean_then_persist [OF assms])
  qed
qed

text \<open>An experiment that has to end: cancelled and not yet ended, or past its expiry.\<close>

definition has_to_end :: "time \<Rightarrow> faultInjection \<Rightarrow> bool" where
  "has_to_end now fi \<longleftrightarrow>
     (if spCancel (fiSpec fi) then stPhase (fiStatus fi) \<notin> {CancelledPhase, CompletedPhase}
      else (case stExpiresAt (fiStatus fi) of Some t \<Rightarrow> t < now | None \<Rightarrow> False))"

lemma loaded_ends_clean:
  assumes "vs_server r look" "b \<or> vs_deletes r look" "dated fi" "has_to_end now fi"
  shows "bears (grown before) (reconcile_loaded r ns n fi now) (\<lambda>x. ends_over b look fi before (snd x))"
proof (cases "spCancel (fiSpec fi)")
  case True
  then show ?thesis
    using ends_leave_clean(2) [OF assms(1,2)] assms(4) by (simp add: reconcile_loaded_def has_to_end_def)
next
  case False
  then show ?thesis
    using ends_leave_clean(1) [OF assms(1,2)] assms(3,4)
    by (auto simp: reconcile_loaded_def has_to_end_def dated_def split: option.splits)
qed

lemma reconcile_ends:
  assumes "vs_server r look" "b \<or> vs_deletes r look" "fst (rcGetFI r ns n (world s)) = Inr fi" "dated fi"
    and "has_to_end (fst (rcNow r (snd (rcGetFI r ns n (world s))))) fi" "snd (result_of (Reconcile r ns n) s) = None"
  shows "targets_over b look fi (trace s) (snd (run_state (Reconcile r ns n) s))"
proof -
  obtain s' ops where s': "trace s' = trace s @ ops" "run_state (Reconcile r ns n) s
    = run_state (reconcile_loaded r ns n fi (fst (rcNow r (snd (rcGetFI r ns n (world s)))))) s'"
    using Reconcile_dated [OF assms(3,4)] by blast
  then have "grown (trace s) s'" by (simp add: grown_def)
  from bearsD [OF loaded_ends_clean [OF assms(1,2,4,5)] this] show ?thesis
    using assms(6) s'(2) by (simp add: result_of_def)
qed

lemma reconcile_ends_clean:
  assumes "vs_server r look" "fst (rcGetFI r ns n (world s)) = Inr fi" "dated fi"
    and "has_to_end (fst (rcNow r (snd (rcGetFI r ns n (world s))))) fi"
  shows "snd (result_of (Reconcile r ns n) s) = None \<Longrightarrow>
    targets_clean look fi (world (snd (run_state (Reconcile r ns n) s)))"
  using reconcile_ends [OF assms(1) _ assms(2-4), of True]
  by (auto simp: targets_over_def target_over_def targets_clean_def target_clean_def list_all_iff)

text \<open>What became of a target, given the requests of the run.\<close>

definition delete_refused :: "string \<times> string \<Rightarrow> op list \<Rightarrow> bool" where
  "delete_refused key ops \<longleftrightarrow>
     list_ex (\<lambda>x. case x of OpDeleteVS vs d \<Rightarrow> vs_key vs = key \<and> delete_failed d | _ \<Rightarrow> False) ops"

definition target_ended ::
  "('w \<Rightarrow> string \<times> string \<Rightarrow> vsObj option) \<Rightarrow> faultInjection \<Rightarrow> op list \<Rightarrow> 'w \<Rightarrow> string \<Rightarrow> bool" where
  "target_ended look fi ops w k \<longleftrightarrow>
     (case look w (splitKey k) of
        None \<Rightarrow> True
      | Some vs \<Rightarrow> list_all (\<lambda>rule. \<not> injected (fiRuleNamePrefix fi) rule) (http_of vs)
          \<or> managed_by_fi fi vs \<and> (being_deleted vs \<or> delete_refused (splitKey k) ops))"

lemma reconcile_ends_targets:
  assumes "vs_server r look" "vs_deletes r look" "fst (rcGetFI r ns n (world s)) = Inr fi" "dated fi"
    and "has_to_end (fst (rcNow r (snd (rcGetFI r ns n (world s))))) fi" "snd (result_of (Reconcile r ns n) s) = None"
  shows "list_all (target_ended look fi (ops_of (Reconcile r ns n) s) (world (snd (run_state (Reconcile r ns n) s))))
    (spec_targets fi)"
proof -
  let ?ops = "ops_of (Reconcile r ns n) s"
  have excuse: "delete_refused key ?ops"
    if r: "refused (trace s) key (trace (snd (run_state (Reconcile r ns n) s)))" for key
  proof -
    obtain a vs d where a: "trace (snd (run_state (Reconcile r ns n) s)) = trace s @ a" "OpDeleteVS vs d \<in> set a"
        "delete_failed d" "vs_key vs = key"
      using r unfolding refused_def by blast
    then show ?thesis unfolding ops_of_def delete_refused_def list_ex_iff by (intro bexI [of _ "OpDeleteVS vs d"]) simp_all
  qed
  have ended: "target_over False look fi (trace s) k s' \<Longrightarrow> s' = snd (run_state (Reconcile r ns n) s) \<Longrightarrow>
      target_ended look fi ?ops (world s') k" for k s'
    using excuse [of "splitKey k"] by (auto simp: target_over_def slot_over_def target_ended_def split: option.split)
  have "targets_over False look fi (trace s) (snd (run_state (Reconcile r ns n) s))"
    using assms(2) by (intro reconcile_ends [OF assms(1) _ assms(3-6)]) simp
  then show ?thesis unfolding targets_over_def list_all_iff using ended by blast
qed

end
