(* ===== verification/Manager.thy ===== *)
theory Manager
  imports Controller
begin

text \<open>
  The start of the manager, \<open>src/cmd/main.go\<close>: the command line as \<open>flag.Parse\<close> of Go's
  library reads it, the options built from the flags, and the sequence of calls into
  controller-runtime up to the start, whose answers are a parameter. The flags that zap and
  controller-runtime register themselves are a parameter as well.
\<close>

section \<open>The flags\<close>

record mainFlags =
  metricsAddr :: string
  probeAddr :: string
  enableLeaderElection :: bool
  secureMetrics :: bool
  webhookCertPath :: string
  webhookCertName :: string
  webhookCertKey :: string
  metricsCertPath :: string
  metricsCertName :: string
  metricsCertKey :: string
  enableHTTP2 :: bool

definition default_flags :: mainFlags where
  "default_flags = \<lparr>metricsAddr = ''0'', probeAddr = '':8081'', enableLeaderElection = False,
     secureMetrics = True, webhookCertPath = [], webhookCertName = ''tls.crt'', webhookCertKey = ''tls.key'',
     metricsCertPath = [], metricsCertName = ''tls.crt'', metricsCertKey = ''tls.key'', enableHTTP2 = False\<rparr>"

text \<open>\<open>strconv.ParseBool\<close>.\<close>

definition ParseBool :: "string \<Rightarrow> bool option" where
  "ParseBool s =
     (if s \<in> set [''1'', ''t'', ''T'', ''TRUE'', ''true'', ''True''] then Some True
      else if s \<in> set [''0'', ''f'', ''F'', ''FALSE'', ''false'', ''False''] then Some False
      else None)"

text \<open>A flag: whether it is boolean, so that it needs no argument, and what setting it does.\<close>

type_synonym flagVar = "bool \<times> (string \<Rightarrow> mainFlags \<Rightarrow> mainFlags option)"

definition StringVar :: "((string \<Rightarrow> string) \<Rightarrow> mainFlags \<Rightarrow> mainFlags) \<Rightarrow> flagVar" where
  "StringVar upd = (False, \<lambda>v f. Some (upd (\<lambda>_. v) f))"

definition BoolVar :: "((bool \<Rightarrow> bool) \<Rightarrow> mainFlags \<Rightarrow> mainFlags) \<Rightarrow> flagVar" where
  "BoolVar upd = (True, \<lambda>v f. map_option (\<lambda>b. upd (\<lambda>_. b) f) (ParseBool v))"

definition main_flags :: "(string \<times> flagVar) list" where
  "main_flags = [
     (''metrics-bind-address'', StringVar metricsAddr_update),
     (''health-probe-bind-address'', StringVar probeAddr_update),
     (''leader-elect'', BoolVar enableLeaderElection_update),
     (''metrics-secure'', BoolVar secureMetrics_update),
     (''webhook-cert-path'', StringVar webhookCertPath_update),
     (''webhook-cert-name'', StringVar webhookCertName_update),
     (''webhook-cert-key'', StringVar webhookCertKey_update),
     (''metrics-cert-path'', StringVar metricsCertPath_update),
     (''metrics-cert-name'', StringVar metricsCertName_update),
     (''metrics-cert-key'', StringVar metricsCertKey_update),
     (''enable-http2'', BoolVar enableHTTP2_update)]"

text \<open>The flags of the libraries: whether one is boolean and which values it accepts.\<close>

type_synonym libFlags = "string \<Rightarrow> (bool \<times> (string \<Rightarrow> bool)) option"

definition formal :: "libFlags \<Rightarrow> string \<Rightarrow> flagVar option" where
  "formal lib name =
     (case map_of main_flags name of
        Some v \<Rightarrow> Some v
      | None \<Rightarrow> map_option (\<lambda>(b, ok). (b, \<lambda>v f. if ok v then Some f else None)) (lib name))"

datatype flagError =
  BadFlagSyntax string
| FlagNotDefined string
| FlagNeedsArgument string
| InvalidFlagValue string string
| ErrHelp

text \<open>Name and value of an argument: the value, if there is one, follows the first \<open>=\<close>.\<close>

definition cut_value :: "string \<Rightarrow> string \<times> string option" where
  "cut_value s =
     (takeWhile (\<lambda>c. c \<noteq> CHR ''='') s,
      (case dropWhile (\<lambda>c. c \<noteq> CHR ''='') s of [] \<Rightarrow> None | _ # v \<Rightarrow> Some v))"

definition flag_name :: "string \<Rightarrow> string" where
  "flag_name s = (if s ! 1 = CHR ''-'' then drop 2 s else drop 1 s)"

definition set_flag ::
  "(string \<Rightarrow> mainFlags \<Rightarrow> mainFlags option) \<Rightarrow> string \<Rightarrow> string \<Rightarrow> mainFlags \<Rightarrow> flagError + mainFlags" where
  "set_flag upd name v f =
     (case upd v f of Some f' \<Rightarrow> Inr f' | None \<Rightarrow> Inl (InvalidFlagValue name v))"

text \<open>\<open>flag.Parse\<close>: the flags up to the first argument that is none, and the arguments left.\<close>

fun parse_flags :: "libFlags \<Rightarrow> string list \<Rightarrow> mainFlags \<Rightarrow> flagError + mainFlags \<times> string list" where
  "parse_flags lib [] f = Inr (f, [])"
| "parse_flags lib (s # args) f =
     (if length s < 2 \<or> s ! 0 \<noteq> CHR ''-'' then Inr (f, s # args)
      else if s = ''--'' then Inr (f, args)
      else
        let name0 = flag_name s in
        if name0 = [] \<or> name0 ! 0 = CHR ''-'' \<or> name0 ! 0 = CHR ''='' then Inl (BadFlagSyntax s)
        else case cut_value name0 of (name, value) \<Rightarrow>
          (case formal lib name of
             None \<Rightarrow> Inl (if name = ''help'' \<or> name = ''h'' then ErrHelp else FlagNotDefined name)
           | Some (isBool, upd) \<Rightarrow>
               if isBool \<or> value \<noteq> None
               then (case set_flag upd name (case value of Some v \<Rightarrow> v | None \<Rightarrow> ''true'') f of
                       Inl e \<Rightarrow> Inl e
                     | Inr f' \<Rightarrow> parse_flags lib args f')
               else (case args of
                       [] \<Rightarrow> Inl (FlagNeedsArgument name)
                     | v # args' \<Rightarrow>
                         (case set_flag upd name v f of
                            Inl e \<Rightarrow> Inl e
                          | Inr f' \<Rightarrow> parse_flags lib args' f'))))"

section \<open>The options\<close>

record tlsConfig =
  NextProtos :: "string list"

type_synonym tlsOpt = "tlsConfig \<Rightarrow> tlsConfig"

record webhookOptions =
  woTLSOpts :: "tlsOpt list"
  woCertDir :: string
  woCertName :: string
  woKeyName :: string

text \<open>\<open>moFilterProvider\<close>: whether the endpoint asks for authentication and authorization.\<close>

record metricsOptions =
  moBindAddress :: string
  moSecureServing :: bool
  moTLSOpts :: "tlsOpt list"
  moFilterProvider :: bool
  moCertDir :: string
  moCertName :: string
  moKeyName :: string

record managerOptions =
  mgMetrics :: metricsOptions
  mgWebhookServer :: webhookOptions
  mgHealthProbeBindAddress :: string
  mgLeaderElection :: bool
  mgLeaderElectionID :: string

definition disableHTTP2 :: tlsOpt where
  "disableHTTP2 c = c\<lparr>NextProtos := [''http/1.1'']\<rparr>"

definition tls_opts :: "mainFlags \<Rightarrow> tlsOpt list" where
  "tls_opts f = (if \<not> enableHTTP2 f then [] @ [disableHTTP2] else [])"

definition webhook_options :: "mainFlags \<Rightarrow> webhookOptions" where
  "webhook_options f =
     (let o1 = \<lparr>woTLSOpts = tls_opts f, woCertDir = [], woCertName = [], woKeyName = []\<rparr>
      in if length (webhookCertPath f) > 0
         then o1\<lparr>woCertDir := webhookCertPath f, woCertName := webhookCertName f,
                 woKeyName := webhookCertKey f\<rparr>
         else o1)"

definition metrics_options :: "mainFlags \<Rightarrow> metricsOptions" where
  "metrics_options f =
     (let o1 = \<lparr>moBindAddress = metricsAddr f, moSecureServing = secureMetrics f, moTLSOpts = tls_opts f,
                moFilterProvider = False, moCertDir = [], moCertName = [], moKeyName = []\<rparr>;
          o2 = (if secureMetrics f then o1\<lparr>moFilterProvider := True\<rparr> else o1)
      in if length (metricsCertPath f) > 0
         then o2\<lparr>moCertDir := metricsCertPath f, moCertName := metricsCertName f,
                 moKeyName := metricsCertKey f\<rparr>
         else o2)"

definition manager_options :: "mainFlags \<Rightarrow> managerOptions" where
  "manager_options f = \<lparr>
     mgMetrics = metrics_options f, mgWebhookServer = webhook_options f,
     mgHealthProbeBindAddress = probeAddr f, mgLeaderElection = enableLeaderElection f,
     mgLeaderElectionID = ''8ef7619e.sghaida.io''\<rparr>"

section \<open>The start\<close>

text \<open>The calls into controller-runtime and whether each succeeds.\<close>

datatype startCall =
  GetConfig
| NewManager managerOptions
| SetupController string
| AddHealthzCheck
| AddReadyzCheck
| StartManager

datatype mainResult = Exits nat | Returns

text \<open>The calls in their order; the first that fails ends the program with status 1.\<close>

fun start_calls :: "(startCall \<Rightarrow> bool) \<Rightarrow> startCall list \<Rightarrow> startCall list \<times> mainResult" where
  "start_calls ok [] = ([], Returns)"
| "start_calls ok (c # cs) =
     (if ok c then (case start_calls ok cs of (done, res) \<Rightarrow> (c # done, res)) else ([c], Exits 1))"

text \<open>The reconciler of the manager: a client and a scheme, nothing else.\<close>

definition main_reconciler :: "'w reconciler \<Rightarrow> 'w reconciler" where
  "main_reconciler r = SetupWithManager (r\<lparr>rcScheme := True, rcRecorder := False, rcHolderIdentity := []\<rparr>)"

definition main_calls :: "'w reconciler \<Rightarrow> mainFlags \<Rightarrow> startCall list" where
  "main_calls r f = [GetConfig, NewManager (manager_options f),
     SetupController (rcHolderIdentity (main_reconciler r)), AddHealthzCheck, AddReadyzCheck, StartManager]"

definition main_run ::
  "libFlags \<Rightarrow> (startCall \<Rightarrow> bool) \<Rightarrow> 'w reconciler \<Rightarrow> string list \<Rightarrow> startCall list \<times> mainResult" where
  "main_run lib ok r args =
     (case parse_flags lib args default_flags of
        Inl e \<Rightarrow> ([], Exits (if e = ErrHelp then 0 else 2))
      | Inr (f, _) \<Rightarrow> start_calls ok (main_calls r f))"

section \<open>Reading back printed flags\<close>

definition print_bool :: "bool \<Rightarrow> string" where
  "print_bool b = (if b then ''true'' else ''false'')"

definition print_flag :: "string \<Rightarrow> string \<Rightarrow> string" where
  "print_flag name v = ''--'' @ name @ ''='' @ v"

definition print_flags :: "mainFlags \<Rightarrow> string list" where
  "print_flags f = [
     print_flag ''metrics-bind-address'' (metricsAddr f),
     print_flag ''health-probe-bind-address'' (probeAddr f),
     print_flag ''leader-elect'' (print_bool (enableLeaderElection f)),
     print_flag ''metrics-secure'' (print_bool (secureMetrics f)),
     print_flag ''webhook-cert-path'' (webhookCertPath f),
     print_flag ''webhook-cert-name'' (webhookCertName f),
     print_flag ''webhook-cert-key'' (webhookCertKey f),
     print_flag ''metrics-cert-path'' (metricsCertPath f),
     print_flag ''metrics-cert-name'' (metricsCertName f),
     print_flag ''metrics-cert-key'' (metricsCertKey f),
     print_flag ''enable-http2'' (print_bool (enableHTTP2 f))]"

lemma cut_print:
  assumes "CHR ''='' \<notin> set name"
  shows "cut_value (name @ ''='' @ v) = (name, Some v)"
proof -
  have "list_all (\<lambda>c. c \<noteq> CHR ''='') name" using assms by (auto simp: list_all_iff)
  then have "takeWhile (\<lambda>c. c \<noteq> CHR ''='') (name @ ''='' @ v) = name"
    and "dropWhile (\<lambda>c. c \<noteq> CHR ''='') (name @ ''='' @ v) = ''='' @ v"
    by (induction name) auto
  then show ?thesis by (simp add: cut_value_def)
qed

definition plain_name :: "string \<Rightarrow> bool" where
  "plain_name n \<longleftrightarrow> n \<noteq> [] \<and> n ! 0 \<noteq> CHR ''-'' \<and> CHR ''='' \<notin> set n"

lemma parse_print:
  assumes "plain_name n" "map_of main_flags n = Some (b, upd)" "upd v f = Some f'"
  shows "parse_flags lib (print_flag n v # args) f = parse_flags lib args f'"
proof -
  have n: "flag_name (print_flag n v) = n @ ''='' @ v" by (simp add: flag_name_def print_flag_def)
  have p: "\<not> (length (print_flag n v) < 2 \<or> print_flag n v ! 0 \<noteq> CHR ''-'')" "print_flag n v \<noteq> ''--''"
    by (simp_all add: print_flag_def)
  have "(n @ ''='' @ v) ! 0 = n ! 0" "n ! 0 \<noteq> CHR ''=''"
    using assms(1) by (auto simp: plain_name_def nth_append in_set_conv_nth)
  then have h: "\<not> (n @ ''='' @ v = [] \<or> (n @ ''='' @ v) ! 0 = CHR ''-'' \<or> (n @ ''='' @ v) ! 0 = CHR ''='')"
    using assms(1) by (simp add: plain_name_def)
  have c: "cut_value (n @ ''='' @ v) = (n, Some v)"
    using assms(1) by (intro cut_print) (simp add: plain_name_def)
  have f: "formal lib n = Some (b, upd)" by (simp add: formal_def assms(2))
  show ?thesis
    unfolding parse_flags.simps n Let_def if_not_P [OF p(1)] if_not_P [OF p(2)] if_not_P [OF h] c prod.case f
    by (simp add: set_flag_def assms(3))
qed

lemma ParseBool_print: "ParseBool (print_bool b) = Some b"
  by (simp add: ParseBool_def print_bool_def)

lemma print_flags_parse: "parse_flags lib (print_flags f) f0 = Inr (f, [])"
proof -
  have s: "parse_flags lib (print_flag n v # args) g = parse_flags lib args (upd (\<lambda>_. v) g)"
    if "plain_name n" "map_of main_flags n = Some (StringVar upd)" for n v args g and upd
    using parse_print [of n False _ v g] that by (simp add: StringVar_def)
  have b: "parse_flags lib (print_flag n (print_bool v) # args) g = parse_flags lib args (upd (\<lambda>_. v) g)"
    if "plain_name n" "map_of main_flags n = Some (BoolVar upd)" for n v args g and upd
    using parse_print [of n True _ "print_bool v" g] that by (simp add: BoolVar_def ParseBool_print)
  note string = s [of "''metrics-bind-address''" metricsAddr_update]
    s [of "''health-probe-bind-address''" probeAddr_update]
    s [of "''webhook-cert-path''" webhookCertPath_update]
    s [of "''webhook-cert-name''" webhookCertName_update]
    s [of "''webhook-cert-key''" webhookCertKey_update]
    s [of "''metrics-cert-path''" metricsCertPath_update]
    s [of "''metrics-cert-name''" metricsCertName_update]
    s [of "''metrics-cert-key''" metricsCertKey_update]
  note bool = b [of "''leader-elect''" enableLeaderElection_update]
    b [of "''metrics-secure''" secureMetrics_update]
    b [of "''enable-http2''" enableHTTP2_update]
  show ?thesis
    unfolding print_flags_def
    by (simp add: string bool plain_name_def main_flags_def del: parse_flags.simps(2))
qed

section \<open>What a started manager is\<close>

text \<open>The protocols a server offers after its TLS options were applied in order.\<close>

definition protocols :: "tlsOpt list \<Rightarrow> tlsConfig \<Rightarrow> string list" where
  "protocols opts c = NextProtos (foldl (\<lambda>c f. f c) c opts)"

lemma protocols_tls: "protocols (tls_opts f) c = (if enableHTTP2 f then NextProtos c else [''http/1.1''])"
  by (simp add: protocols_def tls_opts_def disableHTTP2_def)

definition secured :: "mainFlags \<Rightarrow> managerOptions \<Rightarrow> bool" where
  "secured f m \<longleftrightarrow>
     (\<forall>c. \<not> enableHTTP2 f \<longrightarrow>
        protocols (moTLSOpts (mgMetrics m)) c = [''http/1.1'']
        \<and> protocols (woTLSOpts (mgWebhookServer m)) c = [''http/1.1''])
     \<and> moFilterProvider (mgMetrics m) = moSecureServing (mgMetrics m)
     \<and> moSecureServing (mgMetrics m) = secureMetrics f"

lemma manager_secured: "secured f (manager_options f)"
  by (simp add: secured_def manager_options_def metrics_options_def webhook_options_def Let_def protocols_tls)

lemma main_run_started:
  assumes "StartManager \<in> set (fst (main_run lib ok r args))"
  shows "\<exists>f rest. parse_flags lib args default_flags = Inr (f, rest)
    \<and> fst (main_run lib ok r args) = main_calls r f \<and> list_all ok (butlast (main_calls r f))"
proof -
  obtain f rest where f: "parse_flags lib args default_flags = Inr (f, rest)"
    using assms by (cases "parse_flags lib args default_flags") (auto simp: main_run_def)
  then have run: "main_run lib ok r args = start_calls ok (main_calls r f)" by (simp add: main_run_def)
  have "fst (main_run lib ok r args) = main_calls r f \<and> list_all ok (butlast (main_calls r f))"
    using assms unfolding run main_calls_def
    by (auto split: if_splits prod.splits)
  then show ?thesis using f by blast
qed

lemma main_calls_holder:
  "main_calls r f = [GetConfig, NewManager (manager_options f), SetupController ''fi-operator'',
     AddHealthzCheck, AddReadyzCheck, StartManager]"
proof -
  have "TrimSpace [] = []" by code_simp
  then show ?thesis by (simp add: main_calls_def main_reconciler_def SetupWithManager_def)
qed

end
