(* ===== verification/Scheme.thy ===== *)
theory Scheme
  imports Effects
begin

text \<open>
  The scheme the client of the manager is built with: the kinds that \<open>groupversion_info.go\<close>, the
  \<open>init\<close> of \<open>faultinjection_types.go\<close> and the \<open>init\<close> of \<open>main.go\<close> register. A client refuses a
  request with a typed object whose kind its scheme does not have; unstructured objects name their
  kind themselves. The registration of client-go is not in the repository: it is an argument.
\<close>

section \<open>Registration\<close>

type_synonym gvk = "string \<times> string \<times> string"

definition GroupVersion :: "string \<times> string" where
  "GroupVersion = (''chaos.sghaida.io'', ''v1alpha1'')"

text \<open>\<open>SchemeBuilder.Register\<close>: the kinds are the names of the Go types.\<close>

definition registered_types :: "string list" where
  "registered_types = [''FaultInjection'', ''FaultInjectionList'']"

definition chaos_AddToScheme :: "gvk list \<Rightarrow> gvk list" where
  "chaos_AddToScheme s = s @ map (\<lambda>k. (fst GroupVersion, snd GroupVersion, k)) registered_types"

text \<open>\<open>init\<close>: an error of the registration is a panic, before \<open>main\<close> starts.\<close>

definition init_scheme :: "(gvk list \<Rightarrow> gvk list option) \<Rightarrow> gvk list option" where
  "init_scheme clientgo = map_option chaos_AddToScheme (clientgo [])"

definition virtualServiceGVK :: gvk where
  "virtualServiceGVK = (''networking.istio.io'', ''v1beta1'', ''VirtualService'')"

section \<open>Kinds of requests\<close>

text \<open>
  The kinds of the typed objects and lists a request carries. VirtualServices and Deployments are
  unstructured; Pods are so when they are counted and listed as candidates, and typed in the cleanup.
\<close>

fun typed_kinds :: "op \<Rightarrow> gvk list" where
  "typed_kinds (OpGetFI _ _ _) = [(''chaos.sghaida.io'', ''v1alpha1'', ''FaultInjection'')]"
| "typed_kinds (OpStatusUpdateFI _ _) = [(''chaos.sghaida.io'', ''v1alpha1'', ''FaultInjection'')]"
| "typed_kinds (OpListPods _ _ _) = [([], ''v1'', ''PodList'')]"
| "typed_kinds (OpDeletePod _ _) = [([], ''v1'', ''Pod'')]"
| "typed_kinds (OpListJobs _ _ _) = [(''batch'', ''v1'', ''JobList'')]"
| "typed_kinds (OpListLeases _ _ _) = [(''coordination.k8s.io'', ''v1'', ''LeaseList'')]"
| "typed_kinds (OpGetJob _ _ _) = [(''batch'', ''v1'', ''Job'')]"
| "typed_kinds (OpCreateJob _ _) = [(''batch'', ''v1'', ''Job'')]"
| "typed_kinds (OpDeleteJob _ _) = [(''batch'', ''v1'', ''Job'')]"
| "typed_kinds (OpGetLease _ _ _) = [(''coordination.k8s.io'', ''v1'', ''Lease'')]"
| "typed_kinds (OpCreateLease _ _) = [(''coordination.k8s.io'', ''v1'', ''Lease'')]"
| "typed_kinds (OpUpdateLease _ _) = [(''coordination.k8s.io'', ''v1'', ''Lease'')]"
| "typed_kinds (OpDeleteLease _ _) = [(''coordination.k8s.io'', ''v1'', ''Lease'')]"
| "typed_kinds _ = []"

text \<open>What client-go documents: its registration adds the kinds of the built-in groups and keeps the others.\<close>

definition builtin_kinds :: "gvk list" where
  "builtin_kinds =
     [([], ''v1'', ''Pod''), ([], ''v1'', ''PodList''), (''batch'', ''v1'', ''Job''), (''batch'', ''v1'', ''JobList''),
      (''coordination.k8s.io'', ''v1'', ''Lease''), (''coordination.k8s.io'', ''v1'', ''LeaseList'')]"

definition clientgo_law :: "(gvk list \<Rightarrow> gvk list option) \<Rightarrow> bool" where
  "clientgo_law clientgo \<longleftrightarrow>
     (\<forall>s. case clientgo s of Some s' \<Rightarrow> set s \<union> set builtin_kinds \<subseteq> set s' | None \<Rightarrow> False)"

text \<open>No request fails for its kind; the owner of a Job or Lease is a kind of the scheme as well.\<close>

lemma scheme_serves:
  assumes "clientgo_law clientgo"
  obtains s where "init_scheme clientgo = Some s" "\<And>x. set (typed_kinds x) \<subseteq> set s"
    "(''chaos.sghaida.io'', ''v1alpha1'', ''FaultInjection'') \<in> set s"
proof -
  obtain s' where s': "clientgo [] = Some s'" "set builtin_kinds \<subseteq> set s'"
    using assms unfolding clientgo_law_def by (drule_tac x = "[]" in spec) (auto split: option.splits)
  then have kinds: "set (typed_kinds x) \<subseteq> set (chaos_AddToScheme s')" for x
    by (cases x) (auto simp: builtin_kinds_def chaos_AddToScheme_def registered_types_def GroupVersion_def)
  show ?thesis
    by (rule that [of "chaos_AddToScheme s'"])
      (use s' kinds in \<open>simp_all add: init_scheme_def chaos_AddToScheme_def registered_types_def GroupVersion_def\<close>)
qed

end
