(* ===== verification/Rbac.thy ===== *)
theory Rbac
  imports Laws
begin

text \<open>
  The permissions of the operator: the rules that the markers of \<open>rbac.go\<close> generate, what each
  request needs of them, and which requests of a run they do not permit.
\<close>

type_synonym permission = "string \<times> string \<times> string"

definition rules_of :: "string \<Rightarrow> string \<Rightarrow> string list \<Rightarrow> permission list" where
  "rules_of grp resource verbs = map (\<lambda>v. (grp, resource, v)) verbs"

definition all_verbs :: "string list" where
  "all_verbs = [''get'', ''list'', ''watch'', ''create'', ''update'', ''patch'', ''delete'']"

definition rbac_rules :: "permission list" where
  "rbac_rules =
     rules_of ''chaos.sghaida.io'' ''faultinjections'' all_verbs
     @ rules_of ''chaos.sghaida.io'' ''faultinjections/status'' [''get'', ''update'', ''patch'']
     @ rules_of ''chaos.sghaida.io'' ''faultinjections/finalizers'' [''update'']
     @ rules_of ''networking.istio.io'' ''virtualservices'' all_verbs
     @ rules_of ''events.k8s.io'' ''events'' [''get'', ''list'', ''watch'', ''create'', ''patch'', ''update'']
     @ rules_of ''coordination.k8s.io'' ''leases'' all_verbs
     @ rules_of ''apps'' ''deployments'' [''get'', ''list'', ''watch'', ''delete'']
     @ rules_of ''batch'' ''jobs'' all_verbs
     @ rules_of [] ''pods'' [''get'', ''list'', ''watch'']
     @ rules_of [] ''pods/log'' [''get'']
     @ rules_of [] ''events'' [''watch'', ''create'', ''patch'', ''update'']
     @ rules_of [] ''namespaces'' [''get'', ''list'', ''watch'']
     @ rules_of [] ''configmaps'' all_verbs"

text \<open>
  What a request needs. A read through the cache lists and watches, a direct one gets or lists;
  an object created with an owner reference that blocks the deletion of the owner needs the
  owner's finalizers.
\<close>

definition reads :: "string \<Rightarrow> string \<Rightarrow> permission list" where
  "reads grp resource = rules_of grp resource [''get'', ''list'', ''watch'']"

definition creates :: "string \<Rightarrow> string \<Rightarrow> permission list" where
  "creates grp resource =
     [(grp, resource, ''create''), (''chaos.sghaida.io'', ''faultinjections/finalizers'', ''update'')]"

fun needs :: "op \<Rightarrow> permission list" where
  "needs (OpEvent _ _ _) = rules_of ''events.k8s.io'' ''events'' [''create'', ''patch'']"
| "needs (OpGetFI _ _ _) = reads ''chaos.sghaida.io'' ''faultinjections''"
| "needs (OpStatusUpdateFI _ _) = [(''chaos.sghaida.io'', ''faultinjections/status'', ''update'')]"
| "needs (OpGetVS _ _ _) = reads ''networking.istio.io'' ''virtualservices''"
| "needs (OpListVS _ _ _) = reads ''networking.istio.io'' ''virtualservices''"
| "needs (OpCreateVS _ _) = creates ''networking.istio.io'' ''virtualservices''"
| "needs (OpUpdateVS _ _) = [(''networking.istio.io'', ''virtualservices'', ''update'')]"
| "needs (OpDeleteVS _ _) = [(''networking.istio.io'', ''virtualservices'', ''delete'')]"
| "needs (OpListPods _ _ _) = reads [] ''pods''"
| "needs (OpDeletePod _ _) = [([], ''pods'', ''delete'')]"
| "needs (OpGetJob _ _ _) = reads ''batch'' ''jobs''"
| "needs (OpListJobs _ _ _) = reads ''batch'' ''jobs''"
| "needs (OpCreateJob _ _) = creates ''batch'' ''jobs''"
| "needs (OpDeleteJob _ _) = [(''batch'', ''jobs'', ''delete'')]"
| "needs (OpGetLease _ _ _) = reads ''coordination.k8s.io'' ''leases''"
| "needs (OpListLeases _ _ _) = reads ''coordination.k8s.io'' ''leases''"
| "needs (OpCreateLease _ _) = creates ''coordination.k8s.io'' ''leases''"
| "needs (OpUpdateLease _ _) = [(''coordination.k8s.io'', ''leases'', ''update'')]"
| "needs (OpDeleteLease _ _) = [(''coordination.k8s.io'', ''leases'', ''delete'')]"
| "needs (OpListDeployments _ _) = reads ''apps'' ''deployments''"
| "needs (OpDeleteDeployment _ _) = [(''apps'', ''deployments'', ''delete'')]"

definition permitted :: "op \<Rightarrow> bool" where
  "permitted x \<longleftrightarrow> list_all (\<lambda>p. p \<in> set rbac_rules) (needs x)"

fun pod_delete :: "op \<Rightarrow> bool" where
  "pod_delete (OpDeletePod _ _) \<longleftrightarrow> True"
| "pod_delete _ \<longleftrightarrow> False"

lemma permitted_iff: "permitted x \<longleftrightarrow> \<not> pod_delete x"
  by (cases x; simp add: permitted_def reads_def creates_def rules_of_def rbac_rules_def all_verbs_def)

text \<open>The cleanup of a finished executor Pod that was listed for a FaultInjection read before.\<close>

definition finished_pod_cleanup :: "op list \<Rightarrow> op \<Rightarrow> bool" where
  "finished_pod_cleanup before x \<longleftrightarrow>
     (case x of
        OpDeletePod p _ \<Rightarrow>
          (\<exists>fi l. got before fi
             \<and> OpListPods (fiNamespace fi) (podfault_labels fi) (Inr l) \<in> set before \<and> p \<in> set l)
          \<and> (pdPhase p = ''Succeeded'' \<or> pdPhase p = ''Failed'')
      | _ \<Rightarrow> False)"

lemma law_permitted: "law r before x \<Longrightarrow> permitted x \<noteq> finished_pod_cleanup before x"
  by (cases x) (simp_all add: permitted_iff finished_pod_cleanup_def law_def write_law_def)

end
