(* ===== verification/Lease.thy ===== *)
theory Lease
  imports PodOps
begin

text \<open>
  Leases when several reconcilers run at once. A history is the sequence of requests about one
  lease, each with the run that made it and the answer the server gave; the runs are interleaved
  in any way. The server is its documentation: an object is created only where there is none, an
  update is accepted only with the resource version of the stored object, every write gives a new
  version, and a read, which may go through a cache, returns an object that was stored at some time.
\<close>

section \<open>The server of one lease\<close>

type_synonym history = "(nat \<times> op) list"

definition version :: "leaseObj \<Rightarrow> string" where
  "version l = oResourceVersion (leMeta l)"

definition with_version :: "string \<Rightarrow> leaseObj \<Rightarrow> leaseObj" where
  "with_version v l = l\<lparr>leMeta := (leMeta l)\<lparr>oResourceVersion := v\<rparr>\<rparr>"

text \<open>The lease that a request stored.\<close>

fun wrote :: "op \<Rightarrow> leaseObj option" where
  "wrote (OpCreateLease l None) = Some l"
| "wrote (OpUpdateLease l None) = Some l"
| "wrote _ = None"

fun removed :: "op \<Rightarrow> bool" where
  "removed (OpDeleteLease _ None) \<longleftrightarrow> True"
| "removed _ \<longleftrightarrow> False"

fun reads_lease :: "op \<Rightarrow> bool" where
  "reads_lease (OpGetLease _ _ (Inr _)) \<longleftrightarrow> True"
| "reads_lease _ \<longleftrightarrow> False"

text \<open>The history, the stored object, and all objects that were ever stored.\<close>

inductive served :: "string \<Rightarrow> string \<Rightarrow> history \<Rightarrow> leaseObj option \<Rightarrow> leaseObj set \<Rightarrow> bool"
  for ns n where
  nothing: "served ns n [] None {}"
| got: "served ns n H st objs \<Longrightarrow> l \<in> objs \<Longrightarrow> served ns n (H @ [(i, OpGetLease ns n (Inr l))]) st objs"
| created: "served ns n H None objs \<Longrightarrow> v \<notin> version ` objs \<Longrightarrow>
    served ns n (H @ [(i, OpCreateLease l None)]) (Some (with_version v l)) (insert (with_version v l) objs)"
| updated: "served ns n H (Some cur) objs \<Longrightarrow> version l = version cur \<Longrightarrow> v \<notin> version ` objs \<Longrightarrow>
    served ns n (H @ [(i, OpUpdateLease l None)]) (Some (with_version v l)) (insert (with_version v l) objs)"
| deleted: "served ns n H st objs \<Longrightarrow> removed x \<Longrightarrow> served ns n (H @ [(i, x)]) None objs"
| other: "served ns n H st objs \<Longrightarrow> wrote x = None \<Longrightarrow> \<not> removed x \<Longrightarrow> \<not> reads_lease x \<Longrightarrow>
    served ns n (H @ [(i, x)]) st objs"

text \<open>The run that stored the lease last, if it was not deleted since.\<close>

definition note_win :: "nat option \<Rightarrow> nat \<times> op \<Rightarrow> nat option" where
  "note_win w e = (if wrote (snd e) \<noteq> None then Some (fst e) else if removed (snd e) then None else w)"

definition holder_run :: "history \<Rightarrow> nat option" where
  "holder_run H = foldl note_win None H"

lemma holder_run_snoc: "holder_run (H @ [e]) = note_win (holder_run H) e"
  by (simp add: holder_run_def)

lemma with_version_simps [simp]:
  "version (with_version v l) = v" "lastTime (with_version v l) = lastTime l"
  "leaseDuration (with_version v l) = leaseDuration l"
  by (simp_all add: version_def with_version_def lastTime_def leaseDuration_def split: option.split)

lemma served_objs:
  "served ns n H st objs \<Longrightarrow>
     inj_on version objs \<and> (\<forall>l. st = Some l \<longrightarrow> l \<in> objs)
     \<and> (\<forall>i m k l. (i, OpGetLease m k (Inr l)) \<in> set H \<longrightarrow> l \<in> objs)"
proof (induction rule: served.induct)
  case (deleted H st objs x i)
  then show ?case by (cases x rule: removed.cases) auto
next
  case (other H st objs x i)
  then show ?case by (cases x rule: reads_lease.cases) auto
qed (auto simp: inj_on_insert image_iff)

lemma served_holder:
  "served ns n H st objs \<Longrightarrow>
     (case holder_run H of
        None \<Rightarrow> st = None
      | Some i \<Rightarrow> \<exists>cur x l. st = Some cur \<and> (i, x) \<in> set H \<and> wrote x = Some l
          \<and> lastTime cur = lastTime l \<and> leaseDuration cur = leaseDuration l)"
proof (induction rule: served.induct)
  case nothing
  then show ?case by (simp add: holder_run_def)
next
  case (created H objs v i l)
  then show ?case by (auto simp: holder_run_snoc note_win_def intro: exI [of _ "OpCreateLease l None"])
next
  case (updated H cur objs l v i)
  then show ?case by (auto simp: holder_run_snoc note_win_def intro: exI [of _ "OpUpdateLease l None"])
next
  case (deleted H st objs x i)
  then show ?case by (cases x rule: removed.cases) (auto simp: holder_run_snoc note_win_def)
qed (auto simp: holder_run_snoc note_win_def split: option.splits)

lemma served_prefix:
  "served ns n G st objs \<Longrightarrow> G = H @ H' \<Longrightarrow> \<exists>st' objs'. served ns n H st' objs' \<and> objs' \<subseteq> objs"
proof (induction arbitrary: H' rule: served.induct)
  case nothing
  then show ?case using served.nothing by auto
next
  case (got G st objs l i)
  then show ?case by (cases H' rule: rev_cases) (auto intro: served.got)
next
  case (created G objs v i l)
  then show ?case by (cases H' rule: rev_cases) (auto intro: served.created)
next
  case (updated G cur objs l v i)
  then show ?case by (cases H' rule: rev_cases) (auto intro: served.updated)
next
  case (deleted G st objs x i)
  then show ?case by (cases H' rule: rev_cases) (auto intro: served.deleted)
next
  case (other G st objs x i)
  then show ?case by (cases H' rule: rev_cases) (auto intro: served.other)
qed

section \<open>Acquisitions of the code\<close>

text \<open>The runs that stored a lease are runs of \<open>tryAcquireOrTakeoverLease\<close> for this lease.\<close>

definition acquirer ::
  "'w reconciler \<Rightarrow> faultInjection \<Rightarrow> podFaultPlan \<Rightarrow> time \<Rightarrow> 'w sys \<Rightarrow> string \<Rightarrow> string \<Rightarrow> op list \<Rightarrow> bool" where
  "acquirer r fi p now s ns n ops \<longleftrightarrow>
     lease_namespace fi p = ns \<and> plLeaseName p = n \<and> ops = ops_of (tryAcquireOrTakeoverLease r fi p now) s"

definition run_ops :: "nat \<Rightarrow> history \<Rightarrow> op list" where
  "run_ops i H = map snd (filter (\<lambda>e. fst e = i) H)"

lemma run_ops_mem: "x \<in> set (run_ops i H) \<longleftrightarrow> (i, x) \<in> set H"
  by (force simp: run_ops_def)

lemma version_take: "take_lease fi p h now l0 = Some l \<Longrightarrow> version l = version l0"
  by (auto simp: take_lease_def Let_def version_def split: option.splits)

lemma wrote_time:
  assumes "acquirer r fi p now s ns n ops" "x \<in> set ops" "wrote x = Some l"
  shows "lastTime l = now"
proof -
  have "lease_writes_ok r fi p now ops"
    using runs_ops_of [OF runs_tryAcquire, of r fi p now s] assms(1)
    by (simp add: acquirer_def lease_promise_def)
  moreover have "leRenewTime l = Some now \<Longrightarrow> lastTime l = now" by (simp add: lastTime_def)
  ultimately show ?thesis
    using assms(2,3) unfolding lease_writes_ok_def
    by (cases x rule: wrote.cases) (auto dest: take_lease_holder)
qed

lemma wrote_after_stale:
  assumes "served ns n (H @ (j, x) # H') st objs" "wrote x = Some l'" "holder_run H = Some i"
    and "acquirer r fi p now s ns n (run_ops j (H @ (j, x) # H'))"
  shows "\<exists>x l. (i, x) \<in> set H \<and> wrote x = Some l \<and> isStaleAt (lastTime l) (leaseDuration l) now"
proof -
  let ?G = "H @ (j, x) # H'"
  obtain st1 objs1 where p1: "served ns n (H @ [(j, x)]) st1 objs1" "objs1 \<subseteq> objs"
    using served_prefix [OF assms(1), of "H @ [(j, x)]" H'] by auto
  obtain cur v objs2 where x: "x = OpUpdateLease l' None" and cur: "served ns n H (Some cur) objs2"
      "version l' = version cur" "objs2 \<subseteq> objs1"
    using p1(1)
  proof cases
    case (created H0 objs0 v i l)
    then show ?thesis using served_holder [of ns n H None] assms(3) by auto
  next
    case (updated H0 cur objs0 l v i)
    then show ?thesis using that assms(2) by auto
  qed (use assms(2) in \<open>auto elim: removed.elims\<close>)
  have "lease_writes_ok r fi p now (run_ops j ?G)"
    using runs_ops_of [OF runs_tryAcquire, of r fi p now s] assms(4)
    by (simp add: acquirer_def lease_promise_def)
  moreover have "OpUpdateLease l' None \<in> set (run_ops j ?G)" by (simp add: run_ops_mem x)
  ultimately obtain l0 where l0: "(j, OpGetLease ns n (Inr l0)) \<in> set ?G" "lease_stale l0 now"
      "version l' = version l0"
    using assms(4) version_take unfolding lease_writes_ok_def acquirer_def run_ops_mem by metis
  have objs: "inj_on version objs" "l0 \<in> objs" "cur \<in> objs"
    using served_objs [OF assms(1)] l0(1) served_objs [OF cur(1)] cur(3) p1(2) by blast+
  then have "l0 = cur" using l0(3) cur(2) by (auto dest: inj_onD)
  then show ?thesis
    using served_holder [OF cur(1)] assms(3) l0(2) by (auto simp: lease_stale_def)
qed

text \<open>Two acquisitions with no deletion between them are apart.\<close>

lemma acquisitions_apart:
  assumes "served ns n (H @ (j, x) # H') st objs" "wrote x = Some l'" "holder_run H = Some i"
    and "acquirer r fi p now s ns n (run_ops j (H @ (j, x) # H'))"
    and "acquirer r' fi' p' t s' ns n (run_ops i (H @ (j, x) # H'))"
  shows "\<exists>x l. (i, x) \<in> set H \<and> wrote x = Some l \<and> (t = zero_time \<or> t + stale_after (leaseDuration l) < now)"
proof -
  obtain y l where y: "(i, y) \<in> set H" "wrote y = Some l" "isStaleAt (lastTime l) (leaseDuration l) now"
    using wrote_after_stale [OF assms(1-4)] by blast
  have "lastTime l = t" by (rule wrote_time [OF assms(5) _ y(2)]) (simp add: run_ops_mem y(1))
  then show ?thesis using y by (auto simp: isStaleAt_def)
qed

end
