(* ===== verification/Stored.thy ===== *)
theory Stored
  imports Outcomes "HOL-Library.Sublist"
begin

text \<open>
  The stored FaultInjection when several reconciles run at once, of one operator or of several. A
  history is a sequence of events: its user creates, edits or deletes it, and runs of \<open>Reconcile\<close>
  make requests, interleaved in any way and possibly cut off. The server is its documentation: a
  status update is accepted only with the resource version of the stored object, replaces the status
  alone and gives a new version; other writes leave the status alone, which is a subresource; a read,
  which may go through a cache, returns an object that was stored at some time.
\<close>

section \<open>The server of one FaultInjection\<close>

datatype fi_event =
    Appeared faultInjection
  | Edited faultInjection
  | Gone
  | Request nat op

definition fi_version :: "faultInjection \<Rightarrow> string" where
  "fi_version fi = oResourceVersion (fiMeta fi)"

text \<open>The object after a status update with \<open>fi\<close>.\<close>

definition with_status :: "string \<Rightarrow> faultInjection \<Rightarrow> faultInjection \<Rightarrow> faultInjection" where
  "with_status v fi cur = cur\<lparr>fiMeta := (fiMeta cur)\<lparr>oResourceVersion := v\<rparr>, fiStatus := fiStatus fi\<rparr>"

fun fi_matters :: "op \<Rightarrow> bool" where
  "fi_matters (OpGetFI _ _ (Inr _)) \<longleftrightarrow> True"
| "fi_matters (OpStatusUpdateFI _ None) \<longleftrightarrow> True"
| "fi_matters _ \<longleftrightarrow> False"

text \<open>From a stored object and the objects ever stored, through events, to later ones.\<close>

type_synonym fi_store = "faultInjection option \<times> faultInjection set"

inductive fi_served :: "string \<Rightarrow> string \<Rightarrow> fi_store \<Rightarrow> fi_event list \<Rightarrow> fi_store \<Rightarrow> bool"
  for ns n x where
  start: "fi_served ns n x [] x"
| appeared: "fi_served ns n x H (None, objs) \<Longrightarrow> fiNamespace fi = ns \<Longrightarrow> fiName fi = n \<Longrightarrow> fresh_status (fiStatus fi) \<Longrightarrow>
    fi_version fi \<notin> fi_version ` objs \<Longrightarrow> fi_served ns n x (H @ [Appeared fi]) (Some fi, insert fi objs)"
| edited: "fi_served ns n x H (Some cur, objs) \<Longrightarrow> fiNamespace fi = ns \<Longrightarrow> fiName fi = n \<Longrightarrow> fiStatus fi = fiStatus cur \<Longrightarrow>
    fi_version fi \<notin> fi_version ` objs \<Longrightarrow> fi_served ns n x (H @ [Edited fi]) (Some fi, insert fi objs)"
| gone: "fi_served ns n x H (st, objs) \<Longrightarrow> fi_served ns n x (H @ [Gone]) (None, objs)"
| got: "fi_served ns n x H (st, objs) \<Longrightarrow> fi \<in> objs \<Longrightarrow>
    fi_served ns n x (H @ [Request i (OpGetFI ns n (Inr fi))]) (st, objs)"
| stored: "fi_served ns n x H (Some cur, objs) \<Longrightarrow> fi_version fi = fi_version cur \<Longrightarrow> v \<notin> fi_version ` objs \<Longrightarrow>
    fi_served ns n x (H @ [Request i (OpStatusUpdateFI fi None)])
      (Some (with_status v fi cur), insert (with_status v fi cur) objs)"
| other: "fi_served ns n x H (st, objs) \<Longrightarrow> \<not> fi_matters y \<Longrightarrow> fi_served ns n x (H @ [Request i y]) (st, objs)"

text \<open>The requests of a run in the history.\<close>

fun requests_of :: "nat \<Rightarrow> fi_event list \<Rightarrow> op list" where
  "requests_of i [] = []"
| "requests_of i (Request j x # H) = (if j = i then x # requests_of i H else requests_of i H)"
| "requests_of i (_ # H) = requests_of i H"

lemma requests_of_append [simp]: "requests_of i (H @ H') = requests_of i H @ requests_of i H'"
  by (induction i H rule: requests_of.induct) auto

lemma requests_of_mem: "x \<in> set (requests_of i H) \<longleftrightarrow> Request i x \<in> set H"
  by (induction i H rule: requests_of.induct) auto

text \<open>Every run is a run of \<open>Reconcile\<close>, by an operator of its own, as far as it got.\<close>

definition reconciles_run :: "(nat \<Rightarrow> 'w reconciler) \<Rightarrow> string \<Rightarrow> string \<Rightarrow> fi_event list \<Rightarrow> bool" where
  "reconciles_run r ns n H \<longleftrightarrow> (\<forall>i. \<exists>s. prefix (requests_of i H) (ops_of (Reconcile (r i) ns n) s))"

section \<open>Stored statuses evolve by the edits of the operator\<close>

lemma with_status_simps [simp]:
  "fi_version (with_status v fi cur) = v" "fiStatus (with_status v fi cur) = fiStatus fi"
  by (simp_all add: fi_version_def with_status_def)

text \<open>The objects: versions identify them, the stored one and those read are among them.\<close>

definition known :: "fi_event list \<Rightarrow> fi_store \<Rightarrow> bool" where
  "known H x \<longleftrightarrow> inj_on fi_version (snd x) \<and> (\<forall>fi. fst x = Some fi \<longrightarrow> fi \<in> snd x)
     \<and> (\<forall>i ns n fi. Request i (OpGetFI ns n (Inr fi)) \<in> set H \<longrightarrow> fi \<in> snd x)"

lemma served_known: "fi_served ns n (None, {}) H y \<Longrightarrow> known H y"
proof (induction rule: fi_served.induct)
  case (other H st objs y i)
  then show ?case by (cases y rule: fi_matters.cases) (auto simp: known_def)
qed (auto simp: known_def inj_on_insert image_iff)

lemma served_append: "fi_served ns n y H' z \<Longrightarrow> fi_served ns n x H y \<Longrightarrow> fi_served ns n x (H @ H') z"
proof (induction rule: fi_served.induct)
  case (stored H cur objs fi v i)
  then show ?case using fi_served.stored [of ns n x "H0 @ H" for H0] by (metis append.assoc)
qed (simp_all flip: append_assoc add: fi_served.intros)

text \<open>Histories whose runs obey a law, each its own.\<close>

definition abides :: "(nat \<Rightarrow> op list \<Rightarrow> op \<Rightarrow> bool) \<Rightarrow> fi_event list \<Rightarrow> bool" where
  "abides J H \<longleftrightarrow> (\<forall>i. after (J i) [] (requests_of i H))"

lemma abides_prefix: "abides J (H @ H') \<Longrightarrow> abides J H"
  by (simp add: abides_def after_append)

lemma abides_request: "abides J (H @ [Request i x]) \<Longrightarrow> J i (requests_of i H) x"
  unfolding abides_def by (drule spec [of _ i]) (simp add: after_append)

lemma reconciles_abide: "reconciles_run r ns n H \<Longrightarrow> abides (\<lambda>i. law (r i)) H"
  unfolding reconciles_run_def abides_def prefix_def
  using runs_ops_of [OF runs_law_Reconcile] by (metis after_append)

lemma abides_mono: "abides J H \<Longrightarrow> (\<And>i d x. J i d x \<Longrightarrow> K i d x) \<Longrightarrow> abides K H"
  unfolding abides_def by (blast intro: after_mono)

text \<open>A status update that is accepted is a step from the stored status.\<close>

lemma accepted_step:
  assumes "known H (Some cur, objs)" "write_law (requests_of i H) (OpStatusUpdateFI fi None)"
    and "fi_version fi = fi_version cur"
  shows "status_step (fiStatus cur) (fiStatus fi)"
proof -
  obtain fi0 where fi0: "got (requests_of i H) fi0" "fiMeta fi = fiMeta fi0" "status_ok (requests_of i H) (fiStatus fi0) (fiStatus fi)"
    using assms(2) unfolding write_law_def by auto
  have "fi0 \<in> objs" using fi0(1) assms(1) unfolding got_def requests_of_mem known_def by fastforce
  moreover have "fi_version fi0 = fi_version cur" using fi0(2) assms(3) by (simp add: fi_version_def)
  ultimately have "fi0 = cur" using assms(1) by (auto simp: known_def dest: inj_onD)
  then show ?thesis using fi0(3) by (simp add: status_ok_def)
qed

lemma served_evolves:
  assumes "fi_served ns n x H' y" "fi_served ns n (None, {}) H x" "abides (\<lambda>_. write_law) (H @ H')"
    and "x = (Some fi, objs)" "Gone \<notin> set H'"
  shows "objs \<subseteq> snd y \<and> (\<exists>fi'. fst y = Some fi' \<and> status_step\<^sup>*\<^sup>* (fiStatus fi) (fiStatus fi'))
    \<and> (\<forall>fi' \<in> snd y - objs. status_step\<^sup>*\<^sup>* (fiStatus fi) (fiStatus fi'))"
  using assms
proof (induction rule: fi_served.induct)
  case (stored G cur objs' fi' v i)
  have abides: "abides (\<lambda>_. write_law) ((H @ G) @ [Request i (OpStatusUpdateFI fi' None)])" using stored.prems(2) by simp
  obtain IH: "status_step\<^sup>*\<^sup>* (fiStatus fi) (fiStatus cur)" "objs \<subseteq> objs'"
      "\<forall>fi' \<in> objs' - objs. status_step\<^sup>*\<^sup>* (fiStatus fi) (fiStatus fi')"
    using stored.IH [OF stored.prems(1) abides_prefix [OF abides] stored.prems(3)] stored.prems(4) by auto
  have "known (H @ G) (Some cur, objs')"
    by (rule served_known [OF served_append [OF stored.hyps(1) stored.prems(1)]])
  then have "status_step (fiStatus cur) (fiStatus fi')"
    by (rule accepted_step [OF _ abides_request [OF abides] stored.hyps(2)])
  then have "status_step\<^sup>*\<^sup>* (fiStatus fi) (fiStatus fi')" by (rule rtranclp.rtrancl_into_rtrancl [OF IH(1)])
  then show ?case using IH(2,3) by auto
next
  case (edited G cur objs' fi')
  then show ?case using abides_prefix [of "\<lambda>_. write_law" "H @ G" "[Edited fi']"] by auto
next
  case (got G st objs' fi' i)
  then show ?case using abides_prefix [of "\<lambda>_. write_law" "H @ G" "[Request i (OpGetFI ns n (Inr fi'))]"] by simp
next
  case (other G st objs' z i)
  then show ?case using abides_prefix [of "\<lambda>_. write_law" "H @ G" "[Request i z]"] by simp
next
  case (appeared G objs' fi')
  then show ?case using abides_prefix [of "\<lambda>_. write_law" "H @ G" "[Appeared fi']"] by auto
qed simp_all

text \<open>Every object ever stored has a status the operator can reach from a fresh one.\<close>

lemma served_reachable:
  assumes "fi_served ns n x H y" "x = (None, {})" "abides (\<lambda>_. write_law) H"
  shows "\<forall>fi \<in> snd y. reachable (fiStatus fi)"
  using assms
proof (induction rule: fi_served.induct)
  case (stored G cur objs fi v i)
  have IH: "\<forall>fi \<in> objs. reachable (fiStatus fi)" using stored.IH [OF stored.prems(1) abides_prefix [OF stored.prems(2)]] by simp
  have k: "known G (Some cur, objs)" using served_known stored.hyps(1) stored.prems(1) by blast
  have "status_step (fiStatus cur) (fiStatus fi)"
    by (rule accepted_step [OF k abides_request [OF stored.prems(2)] stored.hyps(2)])
  moreover have "reachable (fiStatus cur)" using k IH by (simp add: known_def)
  ultimately show ?case using IH by (auto intro: reachable.step)
next
  case (edited G cur objs fi)
  have "known G (Some cur, objs)" using served_known edited.hyps(1) edited.prems(1) by blast
  then show ?case using edited abides_prefix [OF edited.prems(2)] by (auto simp: known_def)
qed (auto dest: abides_prefix intro: reachable.start)

lemma stored_history:
  assumes "fi_served ns n (None, {}) H (Some fi, objs)" "fi_served ns n (Some fi, objs) H' y"
    and "reconciles_run r ns n (H @ H')" "Gone \<notin> set H'"
  shows "\<exists>fi'. fst y = Some fi' \<and> reachable (fiStatus fi') \<and> status_step\<^sup>*\<^sup>* (fiStatus fi) (fiStatus fi')"
proof -
  have abides: "abides (\<lambda>_. write_law) (H @ H')"
    by (rule abides_mono [OF reconciles_abide [OF assms(3)]]) (simp add: law_def)
  obtain fi' where fi': "fst y = Some fi'" "status_step\<^sup>*\<^sup>* (fiStatus fi) (fiStatus fi')"
    using served_evolves [OF assms(2,1) abides refl assms(4)] by blast
  have "fi \<in> objs" using served_known [OF assms(1)] by (simp add: known_def)
  then have "reachable (fiStatus fi)"
    using served_reachable [OF assms(1) refl abides_prefix [OF abides]] by simp
  then show ?thesis using fi' reachable_later by blast
qed

section \<open>An outcome that is recorded is final\<close>

text \<open>The tick is Succeeded or Failed.\<close>

definition outcome_recorded :: "faultInjection \<Rightarrow> string \<times> string \<Rightarrow> bool" where
  "outcome_recorded fi k \<longleftrightarrow>
     (case find_tick (stPodFaults (fiStatus fi)) k of Some e \<Rightarrow> terminal_tick e | None \<Rightarrow> False)"

text \<open>The tick a Job executes, from the environment of its container.\<close>

definition job_tick :: "jobObj \<Rightarrow> (string \<times> string) option" where
  "job_tick j =
     (case (mget ''ACTION_NAME'' (jbEnv j), mget ''TICK_ID'' (jbEnv j)) of
        (Some a, Some t) \<Rightarrow> Some (a, t)
      | _ \<Rightarrow> None)"

definition open_in :: "faultInjection \<Rightarrow> jobObj \<Rightarrow> bool" where
  "open_in fi j \<longleftrightarrow> (case job_tick j of Some k \<Rightarrow> \<not> outcome_recorded fi k | None \<Rightarrow> False)"

lemma outcome_skips: "outcome_recorded fi (plan_key p) \<Longrightarrow> skip_plan fi p"
  by (auto simp: outcome_recorded_def skip_plan_def plan_key_def terminal_tick_def split: option.splits)

lemma outcome_kept: "terminal_kept (fiStatus fi) (fiStatus fi') \<Longrightarrow> outcome_recorded fi k \<Longrightarrow> outcome_recorded fi' k"
  unfolding outcome_recorded_def terminal_kept_def entry_kept_def by (fastforce split: option.splits)

lemma tick_of_job:
  "podfault_job fi p = Some j \<Longrightarrow> job_tick (j\<lparr>jbMeta := m\<rparr>) = Some (plan_key p)"
  by (auto simp: podfault_job_def Let_def job_tick_def plan_key_def split: option.splits)

lemma job_justified:
  assumes "inject_law r before (OpCreateJob j e)" "\<And>fi'. got before fi' \<Longrightarrow> terminal_kept (fiStatus fi) (fiStatus fi')"
  shows "open_in fi j"
proof -
  obtain fi' now where fi': "got before fi'" "job_of_spec r fi' now before (OpCreateJob j e)"
    using assms(1) reread_got(2) unfolding inject_law_def by blast
  then obtain p l where p: "\<not> skip_plan fi' p"
    "job_after_lease r fi' (p\<lparr>plPodNames := plan_targets p (candidate_pods l)\<rparr>) before (OpCreateJob j e)"
    unfolding job_of_spec_def plan_launch_def by blast
  then have "job_tick j = Some (plan_key p)" by (auto simp: job_after_lease_def plan_key_def dest!: tick_of_job)
  then show ?thesis
    using outcome_kept [OF assms(2) [OF fi'(1)], of "plan_key p"] outcome_skips p(1) by (auto simp: open_in_def)
qed

text \<open>Reads of a run that starts later and does not read an object older than the one stored then.\<close>

definition reads_current :: "nat \<Rightarrow> faultInjection \<Rightarrow> faultInjection set \<Rightarrow> fi_event list \<Rightarrow> fi_event list \<Rightarrow> bool" where
  "reads_current i fi objs H H' \<longleftrightarrow> requests_of i H = []
     \<and> (\<forall>ns n fi'. OpGetFI ns n (Inr fi') \<in> set (requests_of i H') \<longrightarrow> fi' = fi \<or> fi' \<notin> objs)"

lemma recorded_final:
  assumes "fi_served ns n (None, {}) H (Some fi, objs)" "fi_served ns n (Some fi, objs) H' y"
    and "reconciles_run r ns n (H @ H')" "Gone \<notin> set H'" "reads_current i fi objs H H'"
    and "OpCreateJob j e \<in> set (requests_of i H')"
  shows "open_in fi j"
proof -
  have abides: "abides (\<lambda>i. law (r i)) (H @ H')" by (rule reconciles_abide [OF assms(3)])
  then have written: "abides (\<lambda>_. write_law) (H @ H')" by (rule abides_mono) (simp add: law_def)
  note served = served_evolves [OF assms(2,1) written refl assms(4)]
  obtain a b where ab: "requests_of i H' = a @ OpCreateJob j e # b" using assms(6) by (meson split_list)
  have "after (law (r i)) [] (a @ OpCreateJob j e # b)"
    using abides assms(5) ab unfolding abides_def reads_current_def by (metis append_Nil requests_of_append)
  then have "inject_law (r i) a (OpCreateJob j e)" by (auto simp: law_def after_append)
  moreover have "terminal_kept (fiStatus fi) (fiStatus fi')" if g: "got a fi'" for fi'
  proof -
    obtain m k where read: "OpGetFI m k (Inr fi') \<in> set (requests_of i H')" using g ab unfolding got_def by auto
    then have "fi' = fi \<or> fi' \<in> snd y - objs"
      using assms(5) served_known [OF served_append [OF assms(2,1)]] unfolding reads_current_def known_def requests_of_mem by fastforce
    then show ?thesis using served terminals.history terminals.order_refl by blast
  qed
  ultimately show ?thesis by (intro job_justified) auto
qed

section \<open>The start of an experiment\<close>

text \<open>Every run that goes on after the moment starts after it, and reads no older object.\<close>

definition all_current :: "faultInjection \<Rightarrow> faultInjection set \<Rightarrow> fi_event list \<Rightarrow> fi_event list \<Rightarrow> bool" where
  "all_current fi objs H H' \<longleftrightarrow> (\<forall>i. requests_of i H' = [] \<or> reads_current i fi objs H H')"

lemma current_prefix: "all_current fi objs H (G @ G') \<Longrightarrow> all_current fi objs H G"
  unfolding all_current_def reads_current_def by (auto 4 3)

text \<open>The object stored at a moment and those stored after it, up to a later one.\<close>

definition since :: "faultInjection \<Rightarrow> faultInjection set \<Rightarrow> faultInjection set \<Rightarrow> faultInjection set" where
  "since fi objs objs' = insert fi (objs' - objs)"

lemma since_mono: "A \<subseteq> B \<Longrightarrow> since fi objs A \<subseteq> since fi objs B"
  by (auto simp: since_def)

text \<open>The start stays, and the expiry is the stored one or follows from the start and a spec stored since.\<close>

definition keeps_start :: "faultInjection \<Rightarrow> faultInjection set \<Rightarrow> time \<Rightarrow> faultInjection \<Rightarrow> bool" where
  "keeps_start fi objs t f \<longleftrightarrow> stStartedAt (fiStatus f) = Some t
     \<and> (stExpiresAt (fiStatus f) = stExpiresAt (fiStatus fi)
        \<or> (\<exists>g \<in> objs. stExpiresAt (fiStatus f) = Some (expiry_of g t)))"

lemma keeps_start_mono: "keeps_start fi objs t f \<Longrightarrow> objs \<subseteq> objs' \<Longrightarrow> keeps_start fi objs' t f"
  unfolding keeps_start_def by blast

lemma keeps_start_status: "fiStatus f' = fiStatus f \<Longrightarrow> keeps_start fi objs t f \<Longrightarrow> keeps_start fi objs t f'"
  by (simp add: keeps_start_def)

lemma accepted_keeps_start:
  assumes known: "known (H @ G) (Some cur, objs')" and law: "write_law (requests_of i (H @ G)) (OpStatusUpdateFI fi' None)"
    and version: "fi_version fi' = fi_version cur" and current: "reads_current i fi objs H G"
    and start: "stStartedAt (fiStatus fi) = Some t" "keeps_start fi (since fi objs objs') t cur"
    and later: "\<forall>f \<in> objs' - objs. keeps_start fi (since fi objs objs') t f"
  shows "keeps_start fi (since fi objs objs') t fi'"
proof -
  obtain fi0 where fi0: "got (requests_of i (H @ G)) fi0" "fiMeta fi' = fiMeta fi0"
      "status_ok (requests_of i (H @ G)) (fiStatus fi0) (fiStatus fi')"
    using law unfolding write_law_def by auto
  have stored: "f \<in> objs'" if "got (requests_of i (H @ G)) f" for f
    using that known unfolding got_def requests_of_mem known_def by fastforce
  have "fi_version fi0 = fi_version cur" using fi0(2) version by (simp add: fi_version_def)
  then have cur: "fi0 = cur" using known stored [OF fi0(1)] by (auto simp: known_def dest: inj_onD)
  have read: "stStartedAt (fiStatus f) = Some t" if "got (requests_of i (H @ G)) f" for f
  proof -
    have "f = fi \<or> f \<notin> objs" using that current unfolding reads_current_def got_def by auto
    then show ?thesis using start(1) later stored [OF that] by (auto simp: keeps_start_def)
  qed
  consider "same_dates (fiStatus cur) (fiStatus fi')" | "dates_reason (requests_of i (H @ G)) (fiStatus fi')"
    using fi0(3) cur unfolding status_ok_def by blast
  then show ?thesis
  proof cases
    case 1
    then show ?thesis using start(2) by (simp add: same_dates_def keeps_start_def)
  next
    case 2
    then obtain f t' where f: "got (requests_of i (H @ G)) f" "stStartedAt (fiStatus fi') = Some t'"
        "stExpiresAt (fiStatus fi') = Some (expiry_of f t')" "t' = t"
      using read unfolding dates_reason_def by (auto split: option.splits)
    moreover have "f \<in> since fi objs objs'"
      using f(1) current stored unfolding reads_current_def got_def since_def by auto
    ultimately show ?thesis by (auto simp: keeps_start_def)
  qed
qed

lemma served_keeps_start:
  assumes "fi_served ns n x G y" "fi_served ns n (None, {}) H x" "abides (\<lambda>_. write_law) (H @ G)"
    and "x = (Some fi, objs)" "Gone \<notin> set G" "all_current fi objs H G" "stStartedAt (fiStatus fi) = Some t"
  shows "\<exists>f. fst y = Some f \<and> keeps_start fi (since fi objs (snd y)) t f \<and> (\<forall>f \<in> snd y - objs. keeps_start fi (since fi objs (snd y)) t f)"
  using assms
proof (induction rule: fi_served.induct)
  case start
  then show ?case by (simp add: keeps_start_def)
next
  case (stored G cur objs' fi' v i)
  have abides: "abides (\<lambda>_. write_law) ((H @ G) @ [Request i (OpStatusUpdateFI fi' None)])" using stored.prems(2) by simp
  have IH: "keeps_start fi (since fi objs objs') t cur" "\<forall>f \<in> objs' - objs. keeps_start fi (since fi objs objs') t f"
    using stored.IH [OF stored.prems(1) abides_prefix [OF abides] stored.prems(3)] stored.prems(4,6)
      current_prefix [OF stored.prems(5)] by auto
  have known: "known (H @ G) (Some cur, objs')"
    by (rule served_known [OF served_append [OF stored.hyps(1) stored.prems(1)]])
  have "reads_current i fi objs H (G @ [Request i (OpStatusUpdateFI fi' None)])"
    using stored.prems(5) unfolding all_current_def by (metis append_is_Nil_conv list.distinct(1) requests_of.simps(1,2) requests_of_append)
  then have "reads_current i fi objs H G" by (simp add: reads_current_def)
  then have new: "keeps_start fi (since fi objs objs') t fi'"
    using accepted_keeps_start [OF known abides_request [OF abides] stored.hyps(2)] stored.prems(6) IH by blast
  have up: "keeps_start fi (since fi objs (insert (with_status v fi' cur) objs')) t f" if "keeps_start fi (since fi objs objs') t f" for f
    by (rule keeps_start_mono [OF that since_mono]) blast
  have put: "keeps_start fi (since fi objs (insert (with_status v fi' cur) objs')) t (with_status v fi' cur)"
    by (rule keeps_start_status [OF _ up [OF new]]) simp
  show ?case using put up IH(2) by auto
next
  case (edited G cur objs' fi')
  have IH: "keeps_start fi (since fi objs objs') t cur" "\<forall>f \<in> objs' - objs. keeps_start fi (since fi objs objs') t f"
    using edited.IH [OF edited.prems(1) _ edited.prems(3)] edited.prems(2,4,6)
      current_prefix [OF edited.prems(5)] abides_prefix [of "\<lambda>_. write_law" "H @ G" "[Edited fi']"] by auto
  have up: "keeps_start fi (since fi objs (insert fi' objs')) t f" if "keeps_start fi (since fi objs objs') t f" for f
    by (rule keeps_start_mono [OF that since_mono]) blast
  have put: "keeps_start fi (since fi objs (insert fi' objs')) t fi'" by (rule keeps_start_status [OF edited.hyps(4) up [OF IH(1)]])
  show ?case using put up IH(2) by auto
next
  case (got G st objs' fi' i)
  then show ?case
    using abides_prefix [of "\<lambda>_. write_law" "H @ G" "[Request i (OpGetFI ns n (Inr fi'))]"] current_prefix [OF got.prems(5)] by simp
next
  case (other G st objs' z i)
  then show ?case
    using abides_prefix [of "\<lambda>_. write_law" "H @ G" "[Request i z]"] current_prefix [OF other.prems(5)] by simp
next
  case (appeared G objs' fi')
  then show ?case
    using abides_prefix [of "\<lambda>_. write_law" "H @ G" "[Appeared fi']"] current_prefix [OF appeared.prems(5)] by auto
qed simp_all

lemma start_kept:
  assumes "fi_served ns n (None, {}) H (Some fi, objs)" "fi_served ns n (Some fi, objs) H' y"
    and "reconciles_run r ns n (H @ H')" "Gone \<notin> set H'" "all_current fi objs H H'" "stStartedAt (fiStatus fi) = Some t"
  shows "\<exists>f. fst y = Some f \<and> keeps_start fi (since fi objs (snd y)) t f"
proof -
  have "abides (\<lambda>_. write_law) (H @ H')"
    by (rule abides_mono [OF reconciles_abide [OF assms(3)]]) (simp add: law_def)
  from served_keeps_start [OF assms(2,1) this refl assms(4-6)] show ?thesis by blast
qed

end
