(* ===== verification/Progress.thy ===== *)
theory Progress
  imports Stored
begin

text \<open>
  What the loop over the pod faults has achieved when it goes through: what became of every plan,
  and when the reconcile comes back for those it waits for.
\<close>

section \<open>What becomes of a plan\<close>

text \<open>
  The lease is somebody's: it was read and is not stale, another run created it first, or the
  takeover was confirmed to another holder. The holder of a lease that is not stale may be this
  very operator.
\<close>

definition lease_busy :: "'w reconciler \<Rightarrow> faultInjection \<Rightarrow> podFaultPlan \<Rightarrow> time \<Rightarrow> op list \<Rightarrow> bool" where
  "lease_busy r fi p now ops \<longleftrightarrow>
     (\<exists>l. OpGetLease (lease_namespace fi p) (plLeaseName p) (Inr l) \<in> set ops \<and> \<not> lease_stale l now)
     \<or> (\<exists>l. OpCreateLease l (Some AlreadyExists) \<in> set ops)
     \<or> (\<exists>a l l' b. ops = a @ OpUpdateLease l None # b \<and> leHolderIdentity l' \<noteq> Some (lease_holder r)
          \<and> OpGetLease (lease_namespace fi p) (plLeaseName p) (Inr l') \<in> set b)"

text \<open>Nothing is left to do for the plan in this run, or nothing can be done.\<close>

definition settled :: "'w reconciler \<Rightarrow> faultInjection \<Rightarrow> time \<Rightarrow> podFaultPlan \<Rightarrow> op list \<Rightarrow> bool" where
  "settled r fi now p ops \<longleftrightarrow>
     skip_plan fi p
     \<or> (\<exists>job fi'. OpGetJob (plNamespace p) (plJobName p) (Inr job) \<in> set ops \<and> isJobComplete job
          \<and> OpStatusUpdateFI fi' None \<in> set ops \<and> outcome_recorded fi' (plan_key p))
     \<or> (\<exists>l. OpListPods (plNamespace p) (plSelectorLabels p) (Inr l) \<in> set ops \<and> plan_targets p (candidate_pods l) = [])
     \<or> lease_busy r fi p now ops"

text \<open>There is a Job of the plan that has not ended when it is seen: one found, or the one created for the pods selected.\<close>

definition job_created :: "faultInjection \<Rightarrow> podFaultPlan \<Rightarrow> op list \<Rightarrow> bool" where
  "job_created fi p ops \<longleftrightarrow>
     (\<exists>l j m. OpListPods (plNamespace p) (plSelectorLabels p) (Inr l) \<in> set ops \<and> OpCreateJob j None \<in> set ops
        \<and> map_option (jbMeta_update (\<lambda>_. m)) (podfault_job fi (p\<lparr>plPodNames := plan_targets p (candidate_pods l)\<rparr>)) = Some j)"

definition awaited :: "faultInjection \<Rightarrow> podFaultPlan \<Rightarrow> op list \<Rightarrow> bool" where
  "awaited fi p ops \<longleftrightarrow>
     (\<exists>job. OpGetJob (plNamespace p) (plJobName p) (Inr job) \<in> set ops
        \<and> (\<not> isJobComplete job \<and> \<not> isJobFailed job
           \<or> OpGetJob (plNamespace p) (plJobName p) (Inl NotFound) \<in> set ops))
     \<or> job_created fi p ops"

text \<open>The step of a plan keeps its word.\<close>

definition step_told :: "'w reconciler \<Rightarrow> faultInjection \<Rightarrow> time \<Rightarrow> podFaultPlan \<Rightarrow> pod_step \<Rightarrow> op list \<Rightarrow> bool" where
  "step_told r fi now p x ops \<longleftrightarrow>
     (case x of
        Inl (stop, e) \<Rightarrow> stop \<or> e \<noteq> None
      | Inr True \<Rightarrow> awaited fi p ops
      | Inr False \<Rightarrow> settled r fi now p ops)"

lemma lease_busy_mono: "lease_busy r fi p now ops \<Longrightarrow> lease_busy r fi p now (a @ ops @ b)"
  unfolding lease_busy_def
proof (elim disjE exE conjE, goal_cases)
  case (3 c l l' d)
  then have "a @ ops @ b = (a @ c) @ OpUpdateLease l None # (d @ b)" "OpGetLease (lease_namespace fi p) (plLeaseName p) (Inr l') \<in> set (d @ b)"
    by simp_all
  then show ?case using 3(2) by blast
qed auto

lemma told_mono:
  "settled r fi now p ops \<Longrightarrow> settled r fi now p (a @ ops @ b)"
  "awaited fi p ops \<Longrightarrow> awaited fi p (a @ ops @ b)"
proof -
  have "job_created fi p ops \<Longrightarrow> job_created fi p (a @ ops @ b)"
    unfolding job_created_def by (elim exE conjE, intro exI conjI) simp_all
  then show "awaited fi p ops \<Longrightarrow> awaited fi p (a @ ops @ b)" unfolding awaited_def by auto
qed (auto simp: settled_def dest: lease_busy_mono [of r fi p now ops a b])

section \<open>The lease\<close>

lemma runs_takeover_busy:
  "runs (retry_on_conflict n (takeover_attempt r fi p (lease_namespace fi p) (lease_holder r) now) u)
     (\<lambda>x ops. (fst x = Some ELeaseNoLongerStale \<longrightarrow> lease_busy r fi p now ops)
        \<and> (fst x = None \<longrightarrow> (\<exists>l. OpUpdateLease l None \<in> set ops)))"
proof (rule runs_retry [where J = "\<lambda>e ops. (e = Some ELeaseNoLongerStale \<longrightarrow> lease_busy r fi p now ops)
        \<and> (e = None \<longrightarrow> (\<exists>l. OpUpdateLease l None \<in> set ops))"], goal_cases)
  case (1 b)
  show ?case
    unfolding takeover_attempt_def by (intro runs_intro) (auto simp: lease_busy_def)
next
  case (2 e a b)
  then show ?case using lease_busy_mono [of r fi p now b a "[]"] by auto
qed

lemma runs_lease_busy:
  "runs (tryAcquireOrTakeoverLease r fi p now)
     (\<lambda>x ops. \<not> fst x \<and> snd (snd x) = None \<longrightarrow> lease_busy r fi p now ops)"
proof -
  have create: "runs (create_lease r fi p ns h now) (\<lambda>x o2. \<not> fst x \<and> snd (snd x) = None \<longrightarrow> lease_busy r fi p now (pre @ o2))"
    for ns h pre
    unfolding create_lease_def
    by (intro runs_intro) (auto simp: lease_busy_def split: sum.splits option.splits apiError.splits)
  have take: "runs (takeover_lease r fi p (lease_namespace fi p) (lease_holder r) now)
      (\<lambda>x o2. \<not> fst x \<and> snd (snd x) = None \<longrightarrow> lease_busy r fi p now (pre @ o2))" for pre
    unfolding takeover_lease_def
  proof (rule runs_bind, rule runs_conseq [OF runs_takeover_busy], goal_cases)
    case (1 x ops)
    then have busy: "fst x = Some ELeaseNoLongerStale \<Longrightarrow> lease_busy r fi p now (pre @ ops)"
      using lease_busy_mono [of r fi p now ops pre "[]"] by simp
    have lost: "lease_busy r fi p now (pre @ ops @ [OpGetLease (lease_namespace fi p) (plLeaseName p) (Inr l')])"
      if "fst x = None" "leHolderIdentity l' \<noteq> Some (lease_holder r)" for l'
    proof -
      obtain l c d where "ops = c @ OpUpdateLease l None # d" using 1 \<open>fst x = None\<close> by (meson split_list)
      then have "pre @ ops @ [OpGetLease (lease_namespace fi p) (plLeaseName p) (Inr l')]
          = (pre @ c) @ OpUpdateLease l None # (d @ [OpGetLease (lease_namespace fi p) (plLeaseName p) (Inr l')])"
        by simp
      then show ?thesis unfolding lease_busy_def using that(2) by (metis in_set_conv_decomp)
    qed
    show ?case
      using busy lost by (cases x) (auto intro!: runs_intro split: sum.splits if_splits)
  qed
  show ?thesis
    unfolding tryAcquireOrTakeoverLease_def Let_def lease_namespace_def [symmetric]
    apply (rule runs_bind, rule runs_getLease, rule runs_case_sum)
     apply (rule runs_if, rule runs_return, simp)
     apply (rule runs_conseq [OF create], assumption)
    apply (rule runs_if, rule runs_return, simp add: lease_busy_def)
    apply (rule runs_conseq [OF take], assumption)
    done
qed

section \<open>The steps\<close>

lemma runs_recorded:
  "runs (recordPodFaultExecuted r fi p now b msg)
     (\<lambda>e ops. e = None \<longrightarrow> (\<exists>fi'. OpStatusUpdateFI fi' None \<in> set ops \<and> outcome_recorded fi' (plan_key p)))"
  unfolding recordPodFaultExecuted_def
proof (rule runs_conseq [OF runs_update_status], intro impI)
  fix e ops
  assume "preceded (status_write (\<lambda>st. Some (executed_status p now b msg st)) (fiNamespace fi) (fiName fi)) ops
    \<and> status_outcome (\<lambda>st. Some (executed_status p now b msg st)) (fiNamespace fi) (fiName fi) e ops" "e = None"
  then obtain fi0 where "OpStatusUpdateFI (fi0\<lparr>fiStatus := executed_status p now b msg (fiStatus fi0)\<rparr>) None \<in> set ops"
    by (auto simp: status_outcome_def)
  then show "\<exists>fi'. OpStatusUpdateFI fi' None \<in> set ops \<and> outcome_recorded fi' (plan_key p)"
    by (rule_tac exI) (auto simp: outcome_recorded_def find_executed)
qed

lemma told_Inl [simp]: "step_told r fi now p (Inl (stop, e)) ops \<longleftrightarrow> stop \<or> e \<noteq> None"
  and told_Inr [simp]: "step_told r fi now p (Inr True) ops \<longleftrightarrow> awaited fi p ops"
    "step_told r fi now p (Inr False) ops \<longleftrightarrow> settled r fi now p ops"
  by (simp_all add: step_told_def)

lemma runs_told_complete:
  assumes "OpGetJob (plNamespace p) (plJobName p) (Inr job) \<in> set pre" "isJobComplete job"
  shows "runs (job_complete_step r fi p now job) (\<lambda>x o2. step_told r fi now p x (pre @ o2))"
proof -
  have recorded: "settled r fi now p (pre @ ops @ o2)"
    if "OpStatusUpdateFI fi' None \<in> set ops" "outcome_recorded fi' (plan_key p)" for fi' ops o2
    using assms that unfolding settled_def by auto
  have event: "runs (if b then eventf r t x a else State_Monad.return ()) (\<lambda>_ o2. True)" for b t x a
    by (intro runs_intro) simp_all
  show ?thesis
    unfolding job_complete_step_def
    apply (rule runs_bind, rule runs_conseq [OF runs_recorded], rule runs_case_option)
     apply (rule runs_bind, rule runs_deleteJob, rule runs_bind, rule runs_conseq [OF event], rule runs_bind, rule runs_events)
     apply (rule runs_return)
     apply (auto intro: recorded)[1]
    apply (rule runs_bind, rule runs_events, rule runs_return, simp)
    done
qed

lemma runs_told_failed: "runs (job_failed_step r fi p now job) (\<lambda>x o2. step_told r fi now p x (pre @ o2))"
proof -
  have rec: "runs (recordPodFaultExecuted r fi p now b msg) (\<lambda>_ _. True)" for b msg
    by (rule runs_conseq [OF runs_recorded]) simp
  have set: "runs (setFIStatusPhaseMessage r fi ph msg) (\<lambda>_ _. True)" for ph msg
    by (rule runs_conseq [OF runs_setPhase]) simp
  show ?thesis
    unfolding job_failed_step_def
    apply (rule runs_bind, rule runs_conseq [OF rec], rule runs_case_option)
     apply (rule runs_bind, rule runs_deleteJob, rule runs_bind)
     apply (rule runs_conseq [where Q = "\<lambda>_ _. True"], (intro runs_intro; simp), rule runs_bind, rule runs_conseq [OF set])
     apply (rule runs_case_option, rule runs_bind, rule runs_events, rule runs_return, simp, rule runs_return, simp)
    apply (rule runs_bind, rule runs_events, rule runs_return, simp)
    done
qed

lemma runs_told_start:
  assumes "OpListPods (plNamespace p) (plSelectorLabels p) (Inr l) \<in> set pre"
    "OpGetJob (plNamespace p) (plJobName p) (Inl NotFound) \<in> set pre"
  shows "runs (start_job r fi (p\<lparr>plPodNames := plan_targets p (candidate_pods l)\<rparr>)) (\<lambda>x o2. step_told r fi now p x (pre @ o2))"
proof -
  let ?q = "p\<lparr>plPodNames := plan_targets p (candidate_pods l)\<rparr>"
  have fresh: "awaited fi p ops"
    if "podfault_job fi ?q = Some job" "OpCreateJob (job\<lparr>jbMeta := m\<rparr>) None \<in> set ops" "set pre \<subseteq> set ops" for job m ops
    using assms(1) that unfolding awaited_def job_created_def by (intro disjI2 exI [of _ l] exI [of _ m] exI) auto
  have unowned: "awaited fi p ops" if "podfault_job fi ?q = Some job" "OpCreateJob job None \<in> set ops" "set pre \<subseteq> set ops" for job ops
    using fresh [of job "jbMeta job" ops] that by simp
  have found: "awaited fi p ops"
    if "OpGetJob (plNamespace p) (plJobName p) (Inr job) \<in> set ops" "set pre \<subseteq> set ops" for job ops
    using assms(2) that unfolding awaited_def by blast
  have create: "runs (createPodFaultJobIfNotExists r fi ?q) (\<lambda>e o2. e = None \<longrightarrow> awaited fi p (pre @ o2))"
    unfolding createPodFaultJobIfNotExists_def
  proof (rule runs_bind, rule runs_getJob, rule runs_case_sum, goal_cases)
    case (1 g e)
    show ?case
      apply (intro runs_intro)
         apply simp_all
       apply (auto split: if_splits intro: fresh unowned)
      done
  next
    case (2 g existing)
    then show ?case by (intro runs_return impI) (rule found [of existing], auto)
  qed
  have more: "awaited fi p (pre @ o2) \<Longrightarrow> awaited fi p (pre @ o2 @ o3)" for o2 o3
    using told_mono(2) [of fi p "pre @ o2" "[]" o3] by simp
  show ?thesis
    unfolding start_job_def unless_panic_def
    apply (rule runs_bind, rule runs_conseq [OF create], rule runs_case_option)
     apply (rule runs_bind, rule runs_events, rule runs_return, simp add: more)
    apply (rule runs_bind, rule runs_conseq [where Q = "\<lambda>_ _. True"], (intro runs_intro; simp), rule runs_return, simp)
    done
qed

lemma lease_busy_names: "lease_busy r fi (p\<lparr>plPodNames := ns\<rparr>) now = lease_busy r fi p now"
  by (rule ext) (simp add: lease_busy_def lease_namespace_def)

lemma runs_told_launch:
  assumes "OpListPods (plNamespace p) (plSelectorLabels p) (Inr l) \<in> set pre"
    "OpGetJob (plNamespace p) (plJobName p) (Inl NotFound) \<in> set pre"
  shows "runs (launch_step r fi (p\<lparr>plPodNames := plan_targets p (candidate_pods l)\<rparr>) now)
    (\<lambda>x o2. step_told r fi now p x (pre @ o2))"
proof -
  let ?q = "p\<lparr>plPodNames := plan_targets p (candidate_pods l)\<rparr>"
  have plan: "runs (recordPodFaultPlanned r fi ?q now) (\<lambda>_ _. True)"
    unfolding recordPodFaultPlanned_def by (rule runs_anything [OF quiet_status])
  have held: "settled r fi now p (pre @ o1 @ ops @ o2)" if "lease_busy r fi p now ops" for o1 ops o2
    using lease_busy_mono [OF that, of "pre @ o1" o2] by (simp add: settled_def)
  have start: "runs (start_job r fi ?q) (\<lambda>x o3. step_told r fi now p x (pre @ o1 @ o2 @ ops @ o3))" for o1 o2 ops
    using runs_told_start [of p l "pre @ o1 @ o2 @ ops"] assms by simp
  show ?thesis
    unfolding launch_step_def
  proof (rule runs_bind, rule runs_conseq [OF plan], rule runs_bind, rule runs_conseq [OF runs_lease_busy],
      rule runs_case_prod, rule runs_case_prod, rule runs_case_option, goal_cases)
    case (1 u o1 x o2 acq y reason e)
    then have busy: "\<not> acq \<Longrightarrow> settled r fi now p (pre @ o1 @ o2 @ o3)" for o3
      using held by (simp add: lease_busy_names)
    show ?case
      by (rule runs_if; rule runs_bind, rule runs_events; (rule runs_return)?) (use busy start in simp_all)
  next
    case (2 u o1 x o2 acq y reason e v)
    show ?case
      unfolding unless_panic_def by (rule runs_bind, rule runs_conseq [where Q = "\<lambda>_ _. True"], (intro runs_intro; simp), rule runs_return, simp)
  qed
qed

lemma runs_told_select:
  assumes "OpGetJob (plNamespace p) (plJobName p) (Inl NotFound) \<in> set pre"
  shows "runs (select_step r fi p now) (\<lambda>x o2. step_told r fi now p x (pre @ o2))"
proof -
  have from_list: "runs (select_from r fi p now (candidate_pods l)) (\<lambda>x o2. step_told r fi now p x (pre' @ o2))"
    if "OpListPods (plNamespace p) (plSelectorLabels p) (Inr l) \<in> set pre'" "set pre \<subseteq> set pre'" for l pre'
  proof -
    have empty: "settled r fi now p (pre' @ o2)" if "plan_targets p (candidate_pods l) = []" for o2
      using that \<open>OpListPods _ _ _ \<in> set pre'\<close> by (auto simp: settled_def)
    have none: "plan_targets p cs = []" if "plSelectionCount p = None" "plSelectionPercent p = None" for cs
      using that by (simp add: plan_targets_def selectPodNamesDeterministically_def Let_def)
    have set: "runs (setFIStatusPhaseMessage r fi ph msg) (\<lambda>_ _. True)" for ph msg
      by (rule runs_conseq [OF runs_setPhase]) simp
    show ?thesis
      unfolding select_from_def
    proof (rule runs_if, goal_cases)
      case 1
      show ?case by (rule runs_bind, rule runs_events, rule runs_bind, rule runs_conseq [OF set], rule runs_return, simp)
    next
      case 2
      show ?case
      proof (rule runs_Let, rule runs_case_option, goal_cases)
        case (1 mode)
        then show ?case by (intro runs_bind runs_events runs_return) (auto intro!: empty none split: if_splits)
      next
        case (2 mode m)
        have sel: "selectPodNamesDeterministically (candidate_pods l) m (plSelectionCount p) (plSelectionPercent p)
            (plMaxPodsAffectedEffective p) = plan_targets p (candidate_pods l)"
          using plan_mode [of p m] 2 by simp
        show ?case
          unfolding sel Let_def
          by (rule runs_if, intro runs_bind runs_events runs_return)
            (use empty runs_told_launch [OF that(1)] assms that(2) in auto)
      qed
    qed
  qed
  show ?thesis
    unfolding select_step_def listCandidatePods_def
  proof (rule runs_bind, rule runs_bind, rule runs_listPods, rule runs_case_sum, goal_cases)
    case (1 a e)
    then show ?case by (simp, intro runs_return) (simp, intro runs_bind runs_events runs_return, simp)
  next
    case (2 a l)
    show ?case
      using from_list [of l "pre @ [OpListPods (plNamespace p) (plSelectorLabels p) (Inr l)]"] 2
      by (intro runs_return) (simp add: subset_insertI)
  qed
qed

lemma runs_told_body: "runs (plan_body r fi now p) (step_told r fi now p)"
proof -
  have idle: "runs (do { eventf r t x a; State_Monad.return (Inl (False, Some e)) }) (\<lambda>x o2. step_told r fi now p x (f o2))"
    for t x a e f
    by (intro runs_bind runs_events runs_return) simp
  show ?thesis
    unfolding plan_body_def
  proof (rule runs_if, goal_cases)
    case 1
    then show ?case by (intro runs_return) (simp add: settled_def)
  next
    case 2
    show ?case
    proof (rule runs_bind, rule runs_getJob, rule runs_case_sum, goal_cases)
      case (1 g e)
      show ?case
        by (rule runs_if, rule idle, rule runs_told_select) (use 1 in simp)
    next
      case (2 g job)
      show ?case
        by (rule runs_if, rule runs_told_complete, use 2 in simp, assumption, rule runs_if, rule runs_told_failed,
            rule runs_return) (use 2 in \<open>auto simp: awaited_def\<close>)
    qed
  qed
qed

section \<open>The loop\<close>

lemma runs_told_loop:
  "runs (plans_loop r fi now ps b) (\<lambda>x ops. case x of
      Inl (stop, e) \<Rightarrow> stop \<or> e \<noteq> None
    | Inr c \<Rightarrow> (b \<longrightarrow> c) \<and> (\<forall>p \<in> set ps. settled r fi now p ops \<or> awaited fi p ops \<and> c))"
proof (induction ps arbitrary: b)
  case (Cons p ps)
  have later: "settled r fi now q (ops @ o2)" if "settled r fi now q o2" for q ops o2
    using told_mono(1) [OF that, of ops "[]"] by simp
  have later': "awaited fi q (ops @ o2)" if "awaited fi q o2" for q ops o2
    using told_mono(2) [OF that, of ops "[]"] by simp
  have early: "settled r fi now q (ops @ o2)" if "settled r fi now q ops" for q ops o2
    using told_mono(1) [OF that, of "[]" o2] by simp
  have early': "awaited fi q (ops @ o2)" if "awaited fi q ops" for q ops o2
    using told_mono(2) [OF that, of "[]" o2] by simp
  show ?case
    unfolding plans_loop.simps
  proof (rule runs_bind, rule runs_conseq [OF runs_told_body], rule runs_case_sum, goal_cases)
    case (1 x ops ret)
    then show ?case by (intro runs_return) (auto simp: step_told_def split: prod.splits)
  next
    case (2 x ops c)
    show ?case
      by (rule runs_conseq [OF Cons.IH])
        (use 2 later later' early early' in \<open>cases c; fastforce split: sum.splits\<close>)
  qed
qed (simp add: runs_return)

definition due_within :: "time \<Rightarrow> time option \<Rightarrow> bool" where
  "due_within t next \<longleftrightarrow> (case next of Some u \<Rightarrow> u \<le> t | None \<Rightarrow> False)"

lemma due_soon: "due_within t (updateEarliestDue e (Some t))"
  by (simp add: due_within_def updateEarliestDue_def split: option.split)

lemma runs_told_pods:
  "runs (applyPodFaults r fi now) (\<lambda>(stop, next, err) ops. stop \<or> err \<noteq> None \<or>
     (case stStartedAt (fiStatus fi) of
        None \<Rightarrow> True
      | Some t0 \<Rightarrow> list_all (\<lambda>p. settled r fi now p ops \<or> awaited fi p ops \<and> due_within (now + 2 * second) next)
          (fst (buildPodFaultPlans fi now t0))))"
proof (cases "podFaults fi = []")
  case True
  then show ?thesis by (auto simp: applyPodFaults_def buildPodFaultPlans_def intro!: runs_return split: option.split)
next
  case False
  show ?thesis
  proof (cases "stStartedAt (fiStatus fi)")
    case None
    then show ?thesis using False by (auto simp: applyPodFaults_def intro!: runs_return)
  next
    case (Some t0)
    obtain plans due perr where b: "buildPodFaultPlans fi now t0 = (plans, due, perr)" by (cases "buildPodFaultPlans fi now t0") auto
    show ?thesis
    proof (cases perr)
      case None
      show ?thesis
        using False None
        apply (simp add: applyPodFaults_def Some b)
        apply (rule runs_bind, rule runs_conseq [OF runs_told_loop], rule runs_return)
        apply (auto simp: list_all_iff due_soon split: sum.splits if_splits)
        done
    qed (use False in \<open>auto simp: applyPodFaults_def Some b intro!: runs_return\<close>)
  qed
qed

text \<open>
  A lease that is not stale keeps the plan from being launched, also when its holder is this very
  operator, whose creation of the Job failed: the step reports no error and asks for nothing.
\<close>

lemma fresh_lease_idles:
  assumes "\<And>w. fst (rcGetLease r (lease_namespace fi p) (plLeaseName p) w) = Inr l" "\<not> lease_stale l now"
  shows "result_of (launch_step r fi p now) s = Inr False"
proof -
  have get: "\<exists>s'. run_state (getLease r (lease_namespace fi p) (plLeaseName p)) s = (Inr l, s')" for s
    using assms(1) [of "world s"] by (auto simp: call_defs call_def split: prod.split)
  have "\<exists>reason s'. run_state (tryAcquireOrTakeoverLease r fi p now) s = ((False, reason, None), s')" for s
    using get [of s] assms(2)
    by (auto simp: tryAcquireOrTakeoverLease_def Let_def lease_namespace_def [symmetric])
  then have "\<exists>reason. result_of (tryAcquireOrTakeoverLease r fi p now) s = (False, reason, None)" for s
    unfolding result_of_def by (metis fst_conv)
  then obtain reason where "result_of (tryAcquireOrTakeoverLease r fi p now)
      (snd (run_state (recordPodFaultPlanned r fi p now) s)) = (False, reason, None)"
    by blast
  then show ?thesis
    unfolding launch_step_def result_bind by (simp add: result_bind) (simp add: result_of_def)
qed

end
