(* ===== verification/Settle.thy ===== *)
theory Settle
  imports MeshOps
begin

text \<open>
  Repeated reconciles: the edit that \<open>inject_target\<close> makes to a VirtualService, as a function, and
  that it settles: on an object that holds its result, a second pass makes no request. The route
  of an injected rule is then the one it got first, whatever the rules of others have become.
\<close>

section \<open>The edit of a target\<close>

text \<open>Object and base route before the patch; none for an unsafe target.\<close>

definition ready :: "vsDesired \<Rightarrow> vsObj \<Rightarrow> (vsObj \<times> jval list) option" where
  "ready d vs =
     (let vs1 = fst (ensureManagedOutboundVSGatewaysMesh vs (dsManaged d)) in
      case findAnyExistingRoute vs1 of
        Some base \<Rightarrow> Some (vs1, base)
      | None \<Rightarrow>
          if dsManaged d
          then Some (ensureVSHasAtLeastOneDefaultRouteRule vs1 (dsHosts d),
                     buildManagedOutboundDefaultRoute (dsHosts d))
          else None)"

definition target_edit :: "faultInjection \<Rightarrow> vsDesired \<Rightarrow> vsObj \<Rightarrow> vsObj option" where
  "target_edit fi d vs =
     map_option (\<lambda>(vs1, base). fst (patchVirtualServiceHTTP vs1 (fiRuleNamePrefix fi) (routed_rules d base)))
       (ready d vs)"

text \<open>What \<open>inject_target\<close> sends is this edit.\<close>

definition sends_edit :: "faultInjection \<Rightarrow> vsDesired \<Rightarrow> vsObj \<Rightarrow> op \<Rightarrow> bool" where
  "sends_edit fi d vs x \<longleftrightarrow>
     (case x of OpUpdateVS vs' _ \<Rightarrow> target_edit fi d vs = Some vs'
      | OpEvent _ _ _ \<Rightarrow> True
      | OpStatusUpdateFI _ _ \<Rightarrow> target_edit fi d vs = None
      | _ \<Rightarrow> False)"

lemma patch_target_sends:
  assumes "ready d vs = Some (vs1, base)"
  shows "emits (sends_edit fi d vs) (patch_target r fi d vs1 created gw base)"
proof -
  obtain vs' ch where p: "patchVirtualServiceHTTP vs1 (fiRuleNamePrefix fi) (routed_rules d base) = (vs', ch)"
    by fastforce
  then have "target_edit fi d vs = Some vs'" using assms by (simp add: target_edit_def)
  then show ?thesis
    unfolding patch_target_def routed_rules_def [symmetric] p Let_def prod.case
    by (intro always_intro each.always_eventf; simp add: call_defs always_call sends_edit_def)
qed

lemma inject_target_sends: "emits (sends_edit fi d vs) (inject_target r fi ns n d vs created)"
proof -
  obtain vs1 gw where g: "ensureManagedOutboundVSGatewaysMesh vs (dsManaged d) = (vs1, gw)" by fastforce
  show ?thesis
  proof (cases "findAnyExistingRoute vs1")
    case (Some base)
    then have "ready d vs = Some (vs1, base)" by (simp add: ready_def g)
    from patch_target_sends [OF this] show ?thesis by (simp add: inject_target_def g Some)
  next
    case None
    show ?thesis
    proof (cases "dsManaged d")
      case True
      then have "ready d vs = Some (ensureVSHasAtLeastOneDefaultRouteRule vs1 (dsHosts d),
          buildManagedOutboundDefaultRoute (dsHosts d))"
        using g None by (simp add: ready_def)
      from patch_target_sends [OF this] show ?thesis
        unfolding inject_target_def g prod.case Let_def None option.case if_P [OF True]
        by (intro each.always_bind each.always_eventf) (simp_all add: sends_edit_def)
    next
      case False
      then have "target_edit fi d vs = None" using g None by (simp add: target_edit_def ready_def)
      then show ?thesis using False
        unfolding inject_target_def g prod.case Let_def None option.case if_False
        by (intro always_intro each.always_eventf; simp add: call_defs always_call sends_edit_def)
    qed
  qed
qed

section \<open>It settles\<close>

lemma gateways_stable:
  assumes "mget ''gateways'' (spec_of vs') = mget ''gateways'' (spec_of (fst (ensureManagedOutboundVSGatewaysMesh vs b)))"
  shows "ensureManagedOutboundVSGatewaysMesh vs' b = (vs', False)"
proof (cases b)
  case True
  have "\<exists>arr. as_list (mget ''gateways'' (spec_of (fst (ensureManagedOutboundVSGatewaysMesh vs True)))) = Some arr
      \<and> JStr ''mesh'' \<in> set arr"
    by (auto simp: ensureManagedOutboundVSGatewaysMesh_def Let_def spec_of_def split: option.split)
  then show ?thesis using assms True
    by (auto simp: ensureManagedOutboundVSGatewaysMesh_def [of vs'] Let_def)
qed (simp add: ensureManagedOutboundVSGatewaysMesh_def)

lemma ready_facts:
  assumes "ready d vs = Some (vs1, base)"
  shows "base \<noteq> []"
    and "mget ''gateways'' (spec_of vs1) = mget ''gateways'' (spec_of (fst (ensureManagedOutboundVSGatewaysMesh vs (dsManaged d))))"
proof -
  show "base \<noteq> []"
    using assms find_route_sound
    by (auto simp: ready_def Let_def findAnyExistingRoute_http buildManagedOutboundDefaultRoute_def
        split: option.splits if_splits)
  show "mget ''gateways'' (spec_of vs1) = mget ''gateways'' (spec_of (fst (ensureManagedOutboundVSGatewaysMesh vs (dsManaged d))))"
    using assms ensure_default_facts(5)
    by (auto simp: ready_def Let_def split: option.splits if_splits)
qed

lemma find_route_routed:
  assumes "dsRules d \<noteq> []" "base \<noteq> []" "\<forall>rule \<in> set (dsRules d). \<exists>a. buildInjectedHTTPRule fi a = Some rule"
  shows "find_route (map JMap (routed_rules d base) @ others) = Some base"
proof -
  obtain rule rules where r: "dsRules d = rule # rules" using assms(1) by (cases "dsRules d") auto
  then obtain a where a: "buildInjectedHTTPRule fi a = Some rule" using assms(3) by auto
  have "mget ''route'' (ensureHTTPRuleHasRoute (cloneMap rule) base) = Some (JList base)"
    using rule_built_not_routable [OF a] cloneMap_eq [OF buildInjectedHTTPRule_fields(5) [OF a]]
    by (simp add: ensure_route_new)
  then show ?thesis using assms(2) by (simp add: routed_rules_def r)
qed

lemma routed_injected:
  assumes "\<forall>rule \<in> set (dsRules d). \<exists>a. buildInjectedHTTPRule fi a = Some rule"
  shows "\<forall>x \<in> set (routed_rules d base). injected (fiRuleNamePrefix fi) (JMap x)"
proof -
  have "HasPrefix (rule_name (ensureHTTPRuleHasRoute (cloneMap rule) base)) (fiRuleNamePrefix fi)"
    if r: "rule \<in> set (dsRules d)" for rule
  proof -
    obtain a where a: "buildInjectedHTTPRule fi a = Some rule" using assms r by blast
    show ?thesis using rule_built_prefix [OF a] cloneMap_eq [OF buildInjectedHTTPRule_fields(5) [OF a]] by simp
  qed
  then show ?thesis by (auto simp: routed_rules_def)
qed

lemma set_http_same: "vsSpec vs = Some (JMap m) \<Longrightarrow> mget ''http'' m = Some (JList l) \<Longrightarrow> set_http vs l = vs"
  by (cases vs) (simp add: set_http_def spec_of_def mput_same)

lemma settles:
  assumes d: "dsRules d \<noteq> []" "\<forall>rule \<in> set (dsRules d). \<exists>a. buildInjectedHTTPRule fi a = Some rule"
    and e: "target_edit fi d vs = Some vs'" "vsSpec vs'' = vsSpec vs'"
  shows "inject_target r fi ns n d vs'' False = State_Monad.return (Inr False)"
proof -
  obtain vs1 base where rd: "ready d vs = Some (vs1, base)"
    and vs': "vs' = fst (patchVirtualServiceHTTP vs1 (fiRuleNamePrefix fi) (routed_rules d base))"
    using e(1) by (auto simp: target_edit_def)
  note facts = ready_facts [OF rd]
  let ?others = "filter (\<lambda>x. \<not> injected (fiRuleNamePrefix fi) x) (http_of vs1)"
  let ?l = "map JMap (routed_rules d base) @ ?others"
  note inj = routed_injected [OF d(2), of base]
  have s: "vsSpec vs'' = Some (JMap (mput ''http'' (JList ?l) (spec_of vs1)))"
    using e(2) vs' by (simp add: patchVirtualServiceHTTP_def Let_def set_http_def)
  then have spec: "spec_of vs'' = mput ''http'' (JList ?l) (spec_of vs1)" and http: "http_of vs'' = ?l"
    by (simp_all add: spec_of_def http_of_def)
  have gw: "ensureManagedOutboundVSGatewaysMesh vs'' (dsManaged d) = (vs'', False)"
    by (rule gateways_stable [of vs'' vs]) (simp add: spec facts(2))
  have base: "findAnyExistingRoute vs'' = Some base"
    unfolding findAnyExistingRoute_http http by (rule find_route_routed [OF d(1) facts(1) d(2)])
  have "filter (\<lambda>x. \<not> injected (fiRuleNamePrefix fi) x) ?l = ?others"
    using inj by (simp add: filter_empty_conv)
  then have patch: "patchVirtualServiceHTTP vs'' (fiRuleNamePrefix fi) (routed_rules d base) = (vs'', False)"
    using set_http_same [OF s, of ?l] by (simp add: patchVirtualServiceHTTP_def Let_def http deepEqualHTTP_def)
  show ?thesis
    unfolding inject_target_def gw prod.case Let_def base option.case patch_target_def
      routed_rules_def [symmetric] patch
    by simp
qed

text \<open>The route of the first pass stays, whatever the rules of others have become.\<close>

lemma route_kept:
  assumes "dsRules d \<noteq> []" "\<forall>rule \<in> set (dsRules d). \<exists>a. buildInjectedHTTPRule fi a = Some rule"
    and "ready d vs = Some (vs1, base)" "http_of vs2 = map JMap (routed_rules d base) @ others"
  shows "\<exists>vs3. ready d vs2 = Some (vs3, base)"
proof -
  have "findAnyExistingRoute (fst (ensureManagedOutboundVSGatewaysMesh vs2 (dsManaged d))) = Some base"
    unfolding findAnyExistingRoute_http ensure_gateways_facts(2) assms(4)
    by (rule find_route_routed [OF assms(1) ready_facts(1) [OF assms(3)] assms(2)])
  then show ?thesis by (simp add: ready_def Let_def)
qed

section \<open>What was sent\<close>

lemma desired_nonempty:
  assumes "buildDesiredByVSTarget fi = Some (m, mg)" "mget k m = Some d"
  shows "dsRules d \<noteq> []"
proof -
  obtain m0 where loop: "desired_loop fi (meshFaults fi) [] [] = Some (m0, mg)"
    and m: "m = map (\<lambda>(k, d). (k, sort_desired d)) m0"
    using assms(1) by (auto simp: buildDesiredByVSTarget_def)
  obtain d0 where d0: "mget k m0 = Some d0" "d = sort_desired d0"
    using assms(2) m by (auto simp: mget_map_val)
  have "k \<in> set (mkeys m0)" using d0(1) by (metis mget_None_iff option.distinct(1))
  then obtain a where a: "a \<in> set (meshFaults fi)" "action_target fi a = Some k"
    using desired_loop_keys [OF loop] by (auto simp: mkeys_def)
  have "d0 = desired_spec fi k zero_desired (meshFaults fi)"
    using desired_loop_spec [OF loop, of k] d0 by (simp add: desired_at_def)
  then have "dsRules d0 = map (\<lambda>a. the (buildInjectedHTTPRule fi a))
      (filter (\<lambda>a. action_target fi a = Some k) (meshFaults fi))"
    by (simp only: desired_spec_def zero_desired_def Let_def vsDesired.select_convs append_Nil)
  moreover have "a \<in> set (filter (\<lambda>a. action_target fi a = Some k) (meshFaults fi))" using a by simp
  ultimately have "dsRules d0 \<noteq> []" by (metis empty_iff empty_set list.map_disc_iff)
  moreover have "length (dsRules d) = length (dsRules d0)" by (simp add: d0(2) sort_desired_def)
  ultimately show ?thesis by auto
qed

lemma sent_settles:
  assumes "buildDesiredByVSTarget fi = Some (m, mg)" "mget k m = Some d"
    and "OpUpdateVS vs' e \<in> set (ops_of (inject_target r fi ns n d vs created) s)" "vsSpec vs'' = vsSpec vs'"
  shows "inject_target r' fi ns' n' d vs'' False = State_Monad.return (Inr False)"
proof -
  have built: "\<forall>rule \<in> set (dsRules d). \<exists>a. buildInjectedHTTPRule fi a = Some rule"
    using desired_rule_action [OF assms(1,2)] by blast
  have "target_edit fi d vs = Some vs'"
    using always_ops_of [OF inject_target_sends [of fi d vs r ns n created], of s] assms(3)
    by (auto simp: list_all_iff sends_edit_def)
  then show ?thesis by (rule settles [OF desired_nonempty [OF assms(1,2)] built _ assms(4)])
qed

text \<open>The injected rules stay as they are, with the route of the first pass.\<close>

lemma sent_routes_kept:
  assumes "buildDesiredByVSTarget fi = Some (m, mg)" "mget k m = Some d"
    and "OpUpdateVS vs1 e \<in> set (ops_of (inject_target r fi ns n d vs created) s)"
    and "http_of vs2 = filter (injected (fiRuleNamePrefix fi)) (http_of vs1) @ others"
    and "OpUpdateVS vs3 e' \<in> set (ops_of (inject_target r fi ns n d vs2 created') s')"
  shows "filter (injected (fiRuleNamePrefix fi)) (http_of vs3) = filter (injected (fiRuleNamePrefix fi)) (http_of vs1)"
proof -
  let ?p = "fiRuleNamePrefix fi"
  have built: "\<forall>rule \<in> set (dsRules d). \<exists>a. buildInjectedHTTPRule fi a = Some rule"
    using desired_rule_action [OF assms(1,2)] by blast
  have ne: "dsRules d \<noteq> []" by (rule desired_nonempty [OF assms(1,2)])
  have edit: "target_edit fi d x = Some y"
    if "OpUpdateVS y e \<in> set (ops_of (inject_target r fi ns n d x c) s)" for x y e c s
    using always_ops_of [OF inject_target_sends [of fi d x r ns n c], of s] that
    by (auto simp: list_all_iff sends_edit_def)
  have own: "filter (injected ?p) (http_of y) = map JMap (routed_rules d base)"
    if "ready d x = Some (z, base)" "target_edit fi d x = Some y" for x y z base
  proof -
    have "y = fst (patchVirtualServiceHTTP z ?p (routed_rules d base))"
      using that by (simp add: target_edit_def)
    then have "http_of y = map JMap (routed_rules d base) @ filter (\<lambda>x. \<not> injected ?p x) (http_of z)"
      by (simp add: patchVirtualServiceHTTP_def Let_def)
    moreover have "filter (injected ?p) (map JMap (routed_rules d base)) = map JMap (routed_rules d base)"
      using routed_injected [OF built, of base] by (auto simp: filter_id_conv)
    ultimately show ?thesis by simp
  qed
  obtain z base where z: "ready d vs = Some (z, base)"
    using edit [OF assms(3)] by (auto simp: target_edit_def)
  obtain z2 where z2: "ready d vs2 = Some (z2, base)"
    using route_kept [OF ne built z, of vs2 others] own [OF z edit [OF assms(3)]] assms(4) by auto
  show ?thesis by (simp add: own [OF z edit [OF assms(3)]] own [OF z2 edit [OF assms(5)]])
qed

end
