(* ===== verification/Live.thy ===== *)
theory Live
  imports Server Settle
begin

text \<open>
  What a reconcile that applies the mesh faults leaves in the cluster, on a server that behaves as
  documented: every target holds the desired rules, with a route, in front of rules of others.
\<close>

section \<open>Creation\<close>

text \<open>
  What the server documents of a creation: it succeeds only where nothing is stored, and stores
  the object. Setting the owner's reference does not change the name.
\<close>

definition create_law ::
  "('w \<Rightarrow> string \<times> string \<Rightarrow> vsObj option) \<Rightarrow> vsObj \<Rightarrow> ('w \<Rightarrow> (apiError + vsObj) \<times> 'w) \<Rightarrow> bool" where
  "create_law look vs f \<longleftrightarrow>
     (\<forall>w. case fst (f w) of
           Inr vs' \<Rightarrow> stored_as vs vs' \<and> look w (vs_key vs) = None
             \<and> look (snd (f w)) = (look w)(vs_key vs \<mapsto> vs')
         | Inl _ \<Rightarrow> look (snd (f w)) = look w)"

definition vs_creates :: "'w reconciler \<Rightarrow> ('w \<Rightarrow> string \<times> string \<Rightarrow> vsObj option) \<Rightarrow> bool" where
  "vs_creates r look \<longleftrightarrow>
     (\<forall>vs. create_law look vs (rcCreateVS r vs))
     \<and> (\<forall>owner m. case rcSetControllerReference r owner m of
           Inr m' \<Rightarrow> oNamespace m' = oNamespace m \<and> oName m' = oName m | Inl _ \<Rightarrow> True)"

text \<open>A list of rules that reads like the desired ones in front of rules of others.\<close>

definition reads_desired :: "faultInjection \<Rightarrow> vsDesired \<Rightarrow> vsObj \<Rightarrow> bool" where
  "reads_desired fi d vs \<longleftrightarrow>
     (\<exists>base others. base \<noteq> [] \<and> list_all (\<lambda>x. \<not> injected (fiRuleNamePrefix fi) x) others
        \<and> deepEqualHTTP (http_of vs) (map JMap (routed_rules d base) @ others))"

definition target_live ::
  "('w \<Rightarrow> string \<times> string \<Rightarrow> vsObj option) \<Rightarrow> faultInjection \<Rightarrow> vsDesired \<Rightarrow> string \<Rightarrow> 'w \<Rightarrow> bool" where
  "target_live look fi d k w \<longleftrightarrow>
     (case look w (splitKey k) of None \<Rightarrow> False | Some vs \<Rightarrow> reads_desired fi d vs)"

lemma stored_as_key: "stored_as vs vs' \<Longrightarrow> vs_key vs' = vs_key vs \<and> http_of vs' = http_of vs"
  by (auto simp: stored_as_def vs_key_def http_of_def spec_of_def)

lemma vs_key_http [simp]: "vs_key (set_http vs l) = vs_key vs"
  by (simp add: vs_key_def)

lemma vs_key_patch [simp]: "vs_key (fst (patchVirtualServiceHTTP vs p ds)) = vs_key vs"
  by (simp add: vs_key_def)

lemma patched_desired:
  "base \<noteq> [] \<Longrightarrow> reads_desired fi d (fst (patchVirtualServiceHTTP vs (fiRuleNamePrefix fi) (routed_rules d base)))"
  unfolding reads_desired_def
  by (intro exI [of _ base] exI [of _ "filter (\<lambda>x. \<not> injected (fiRuleNamePrefix fi) x) (http_of vs)"])
    (simp add: patchVirtualServiceHTTP_def Let_def deepEqualHTTP_def list_all_iff)

lemma unchanged_desired:
  "base \<noteq> [] \<Longrightarrow> \<not> snd (patchVirtualServiceHTTP vs (fiRuleNamePrefix fi) (routed_rules d base)) \<Longrightarrow>
   http_of vs' = http_of vs \<Longrightarrow> reads_desired fi d vs'"
  unfolding reads_desired_def
  by (intro exI [of _ base] exI [of _ "filter (\<lambda>x. \<not> injected (fiRuleNamePrefix fi) x) (http_of vs)"])
    (simp add: patchVirtualServiceHTTP_def Let_def list_all_iff)

lemma server_update:
  assumes "vs_server r look"
  shows "triple P (updateVS r vs) (\<lambda>e w. e = None \<longrightarrow> (\<exists>vs'. stored_as vs vs' \<and> look w (vs_key vs) = Some vs'))"
    and "vs_key vs \<noteq> k \<Longrightarrow> holds_on (\<lambda>w. I (look w k)) (updateVS r vs)"
proof -
  have "update_law look vs (rcUpdateVS r vs)" using assms unfolding vs_server_def by blast
  then have law: "case fst (rcUpdateVS r vs w) of
        None \<Rightarrow> \<exists>vs'. stored_as vs vs' \<and> look (snd (rcUpdateVS r vs w)) = (look w)(vs_key vs \<mapsto> vs')
      | Some _ \<Rightarrow> look (snd (rcUpdateVS r vs w)) = look w" for w
    by (simp add: update_law_def)
  show "triple P (updateVS r vs) (\<lambda>e w. e = None \<longrightarrow> (\<exists>vs'. stored_as vs vs' \<and> look w (vs_key vs) = Some vs'))"
    unfolding call_defs
  proof (rule triple_call, rule impI)
    fix w assume "fst (rcUpdateVS r vs w) = None"
    then show "\<exists>vs'. stored_as vs vs' \<and> look (snd (rcUpdateVS r vs w)) (vs_key vs) = Some vs'"
      using law [of w] by auto
  qed
  show "vs_key vs \<noteq> k \<Longrightarrow> holds_on (\<lambda>w. I (look w k)) (updateVS r vs)"
    unfolding call_defs
  proof (rule triple_call)
    fix w assume "vs_key vs \<noteq> k" "I (look w k)"
    then show "I (look (snd (rcUpdateVS r vs w)) k)" using law [of w] by (auto split: option.splits)
  qed
qed

section \<open>One target\<close>

lemma patch_target_live:
  assumes "vs_server r look" "vs_key vs1 = splitKey k" "base \<noteq> []"
    and "\<And>w. P w \<Longrightarrow> \<not> snd (patchVirtualServiceHTTP vs1 (fiRuleNamePrefix fi) (routed_rules d base)) \<Longrightarrow>
      \<exists>vs. look w (splitKey k) = Some vs \<and> http_of vs = http_of vs1"
  shows "triple P (patch_target r fi d vs1 created gw base) (\<lambda>x w. x = Inr False \<longrightarrow> target_live look fi d k w)"
proof -
  obtain vs' ch where p: "patchVirtualServiceHTTP vs1 (fiRuleNamePrefix fi) (routed_rules d base) = (vs', ch)"
    by fastforce
  then have key: "vs_key vs' = splitKey k" and want: "reads_desired fi d vs'"
    using assms(2) patched_desired [OF assms(3), of fi d vs1] vs_key_patch [of vs1 "fiRuleNamePrefix fi" "routed_rules d base"]
    by simp_all
  let ?Q = "\<lambda>x w. x = Inr False \<longrightarrow> target_live look fi d k w"
  have upd: "triple P (updateVS r vs') (\<lambda>e w. e = None \<longrightarrow> target_live look fi d k w)"
  proof (rule triple_conseq [OF server_update(1) [OF assms(1), of P vs']])
    fix e w assume e: "e = None \<longrightarrow> (\<exists>x. stored_as vs' x \<and> look w (vs_key vs') = Some x)"
    show "e = None \<longrightarrow> target_live look fi d k w"
    proof
      assume "e = None"
      then obtain x where "stored_as vs' x" "look w (splitKey k) = Some x" using e key by auto
      then show "target_live look fi d k w"
        using want stored_as_key by (simp add: target_live_def reads_desired_def)
    qed
  qed
  have some: "triple P' (do { eventf r t1 x1 a1; State_Monad.return (Inl err) }) ?Q" for P' t1 x1 a1 err
    by (rule triple_bind [where R = "\<lambda>_ _. True"], simp add: triple_def, rule triple_return, simp)
  have none: "triple (target_live look fi d k) (do {
      (if created then eventf r t1 x1 a1 else eventf r t2 x2 a2); State_Monad.return (Inr False) }) ?Q" for t1 x1 a1 t2 x2 a2
    by (rule triple_bind [where R = "\<lambda>_. target_live look fi d k"]) (auto intro!: triple_intro)
  have idle: "triple P (State_Monad.return (Inr False)) ?Q" if same: "\<not> ch"
  proof (rule triple_return, rule impI)
    fix w assume "P w"
    from assms(4) [OF this] obtain vs where "look w (splitKey k) = Some vs" "http_of vs = http_of vs1"
      using p same by auto
    then show "target_live look fi d k w"
      using unchanged_desired [OF assms(3), of vs1 fi d vs] p same by (simp add: target_live_def)
  qed
  show ?thesis
    unfolding patch_target_def routed_rules_def [symmetric] p Let_def prod.case
  proof (rule triple_if, rule triple_bind [OF upd], rule triple_case_option, goal_cases)
    case (1 u)
    then show ?case using none by (simp only: simp_thms)
  next
    case (2 u e)
    show ?case by (rule some)
  next
    case 3
    then show ?case using idle by blast
  qed
qed

text \<open>A default rule that is put in always shows: the injected rules come in front of it.\<close>

lemma default_changed:
  assumes "http_of vs = []" "dsRules d \<noteq> []" "\<forall>rule \<in> set (dsRules d). \<exists>a. buildInjectedHTTPRule fi a = Some rule"
  shows "snd (patchVirtualServiceHTTP (ensureVSHasAtLeastOneDefaultRouteRule vs hs) (fiRuleNamePrefix fi) (routed_rules d base))"
proof (rule ccontr)
  let ?p = "fiRuleNamePrefix fi" and ?vs = "ensureVSHasAtLeastOneDefaultRouteRule vs hs"
  let ?l = "map JMap (routed_rules d base) @ filter (\<lambda>x. \<not> injected ?p x) (http_of ?vs)"
  assume "\<not> snd (patchVirtualServiceHTTP ?vs ?p (routed_rules d base))"
  then have eq: "deepEqualHTTP (http_of ?vs) ?l" by (simp add: patchVirtualServiceHTTP_def Let_def)
  have own: "filter (\<lambda>x. \<not> injected ?p x) (http_of ?vs) = http_of ?vs"
    using ensure_default_facts(3) [OF assms(1), of fi hs] by (simp add: user_rules_def)
  have inj: "\<forall>x \<in> set (routed_rules d base). injected ?p (JMap x)" by (rule routed_injected [OF assms(3)])
  have "filter (\<lambda>x. \<not> injected ?p x) ?l = http_of ?vs"
    using inj own by (simp add: filter_empty_conv)
  then have "deepEqualHTTP ?l (filter (\<lambda>x. \<not> injected ?p x) ?l)"
    using eq by (simp add: deepEqualHTTP_def)
  moreover have "list_all (\<lambda>x. \<not> injected ?p x \<or> sprint_v x \<noteq> []) ?l"
    using injected_printed [of ?p] by (auto simp: list_all_iff)
  ultimately have "filter (\<lambda>x. \<not> injected ?p x) ?l = ?l" by (intro deepEqual_filter)
  then have "\<forall>x \<in> set ?l. \<not> injected ?p x" by (simp only: filter_id_conv)
  moreover have "routed_rules d base \<noteq> []" using assms(2) by (simp add: routed_rules_def)
  ultimately show False using inj by (cases "routed_rules d base") auto
qed

lemma inject_target_live:
  assumes "vs_server r look" "dsRules d \<noteq> []" "\<forall>rule \<in> set (dsRules d). \<exists>a. buildInjectedHTTPRule fi a = Some rule"
  shows "triple (\<lambda>w. look w (splitKey k) = Some vs \<and> vs_key vs = splitKey k) (inject_target r fi ns n d vs created)
    (\<lambda>x w. x = Inr False \<longrightarrow> target_live look fi d k w)" (is "triple ?P _ ?Q")
proof (cases "vs_key vs = splitKey k")
  case key: True
  obtain vs1 gw where g: "ensureManagedOutboundVSGatewaysMesh vs (dsManaged d) = (vs1, gw)" by fastforce
  have f: "vsMeta vs1 = vsMeta vs" "http_of vs1 = http_of vs"
    using ensure_gateways_facts(1,2) [of vs "dsManaged d"] g by simp_all
  have k1: "vs_key vs1 = splitKey k" using key f(1) by (simp add: vs_key_def)
  show ?thesis
  proof (cases "findAnyExistingRoute vs1")
    case (Some base)
    then have "base \<noteq> []" using find_route_sound by (auto simp: findAnyExistingRoute_http)
    then show ?thesis
      unfolding inject_target_def g prod.case Let_def Some option.case
      by (rule patch_target_live [OF assms(1) k1]) (simp add: f(2))
  next
    case None
    show ?thesis
    proof (cases "dsManaged d")
      case True
      let ?vs2 = "ensureVSHasAtLeastOneDefaultRouteRule vs1 (dsHosts d)"
      have k2: "vs_key ?vs2 = splitKey k"
        using k1 ensure_default_facts(1) [of vs1 "dsHosts d"] by (simp add: vs_key_def)
      have base: "buildManagedOutboundDefaultRoute (dsHosts d) \<noteq> []"
        by (simp add: buildManagedOutboundDefaultRoute_def)
      have "triple ?P (patch_target r fi d ?vs2 created gw (buildManagedOutboundDefaultRoute (dsHosts d))) ?Q"
      proof (rule patch_target_live [OF assms(1) k2 base])
        fix w assume w: "?P w"
          and "\<not> snd (patchVirtualServiceHTTP ?vs2 (fiRuleNamePrefix fi)
            (routed_rules d (buildManagedOutboundDefaultRoute (dsHosts d))))"
        then have "http_of vs1 \<noteq> []" using default_changed [OF _ assms(2,3)] by blast
        then show "\<exists>vs. look w (splitKey k) = Some vs \<and> http_of vs = http_of ?vs2"
          using w f(2) by (simp add: ensure_default_facts(2))
      qed
      then show ?thesis
        unfolding inject_target_def g prod.case Let_def None option.case if_P [OF True]
        by (intro triple_bind [where R = "\<lambda>_. ?P"] triple_eventf)
    next
      case False
      show ?thesis
        unfolding inject_target_def g prod.case Let_def None option.case if_not_P [OF False]
        by (rule triple_bind [where R = "\<lambda>_ _. True"], simp add: triple_def,
            rule triple_bind [where R = "\<lambda>_ _. True"], simp add: triple_def, rule triple_return, simp)
    qed
  qed
qed (simp add: triple_def)

lemma server_create:
  assumes "vs_creates r look"
  shows "triple P (createVS r vs) (\<lambda>c w. case c of Inl _ \<Rightarrow> True
      | Inr vs' \<Rightarrow> look w (vs_key vs) = Some vs' \<and> vs_key vs' = vs_key vs)"
    and "vs_key vs \<noteq> k \<Longrightarrow> triple (\<lambda>w. I (look w k)) (createVS r vs) (\<lambda>c w. I (look w k)
      \<and> (case c of Inl _ \<Rightarrow> True | Inr vs' \<Rightarrow> vs_key vs' = vs_key vs))"
proof -
  have "create_law look vs (rcCreateVS r vs)" using assms unfolding vs_creates_def by blast
  then have law: "case fst (rcCreateVS r vs w) of
        Inr vs' \<Rightarrow> stored_as vs vs' \<and> look w (vs_key vs) = None
          \<and> look (snd (rcCreateVS r vs w)) = (look w)(vs_key vs \<mapsto> vs')
      | Inl _ \<Rightarrow> look (snd (rcCreateVS r vs w)) = look w" for w
    by (simp add: create_law_def)
  show "triple P (createVS r vs) (\<lambda>c w. case c of Inl _ \<Rightarrow> True
      | Inr vs' \<Rightarrow> look w (vs_key vs) = Some vs' \<and> vs_key vs' = vs_key vs)"
    unfolding call_defs
  proof (rule triple_call)
    fix w
    show "case fst (rcCreateVS r vs w) of Inl _ \<Rightarrow> True
      | Inr vs' \<Rightarrow> look (snd (rcCreateVS r vs w)) (vs_key vs) = Some vs' \<and> vs_key vs' = vs_key vs"
      using law [of w] stored_as_key [of vs] by (auto split: sum.splits)
  qed
  show "vs_key vs \<noteq> k \<Longrightarrow> triple (\<lambda>w. I (look w k)) (createVS r vs) (\<lambda>c w. I (look w k)
      \<and> (case c of Inl _ \<Rightarrow> True | Inr vs' \<Rightarrow> vs_key vs' = vs_key vs))"
    unfolding call_defs
  proof (rule triple_call)
    fix w assume "vs_key vs \<noteq> k" "I (look w k)"
    then show "I (look (snd (rcCreateVS r vs w)) k)
      \<and> (case fst (rcCreateVS r vs w) of Inl _ \<Rightarrow> True | Inr vs' \<Rightarrow> vs_key vs' = vs_key vs)"
      using law [of w] stored_as_key [of vs] by (auto split: sum.splits)
  qed
qed

lemma created_key:
  assumes "vs_creates r look" "rcSetControllerReference r (fiMeta fi) (vsMeta (new_managed_vs fi ns n d)) = Inr m"
  shows "vs_key ((new_managed_vs fi ns n d)\<lparr>vsMeta := m\<rparr>) = (ns, n)"
proof -
  have "case rcSetControllerReference r (fiMeta fi) (vsMeta (new_managed_vs fi ns n d)) of
      Inr m' \<Rightarrow> oNamespace m' = oNamespace (vsMeta (new_managed_vs fi ns n d))
        \<and> oName m' = oName (vsMeta (new_managed_vs fi ns n d)) | Inl _ \<Rightarrow> True"
    using assms(1) unfolding vs_creates_def by blast
  then show ?thesis using assms(2) by (simp add: vs_key_def new_managed_vs_def new_meta_def)
qed

lemma getOrCreate_at:
  assumes "vs_server r look" "vs_creates r look"
  shows "triple P (getOrCreateVirtualService r fi ns n d) (\<lambda>g w. case g of
      Inl _ \<Rightarrow> True | Inr (vs, _) \<Rightarrow> look w (ns, n) = Some vs \<and> vs_key vs = (ns, n))"
    and "k \<noteq> (ns, n) \<Longrightarrow> triple (\<lambda>w. I (look w k)) (getOrCreateVirtualService r fi ns n d) (\<lambda>g w.
      I (look w k) \<and> (case g of Inl _ \<Rightarrow> True | Inr (vs, _) \<Rightarrow> vs_key vs = (ns, n)))"
proof -
  note key = created_key [OF assms(2), of fi ns n d]
  have new: "triple P' (do {
      c \<leftarrow> createVS r ((new_managed_vs fi ns n d)\<lparr>vsMeta := m\<rparr>);
      (case c of Inl e \<Rightarrow> State_Monad.return (Inl (EApi e)) | Inr vs \<Rightarrow> State_Monad.return (Inr (vs, True))) })
      (\<lambda>g w. case g of Inl _ \<Rightarrow> True | Inr (vs, _) \<Rightarrow> look w (ns, n) = Some vs \<and> vs_key vs = (ns, n))"
    if "rcSetControllerReference r (fiMeta fi) (vsMeta (new_managed_vs fi ns n d)) = Inr m" for m and P'
    by (rule triple_bind [OF server_create(1) [OF assms(2)]], rule triple_case_sum; rule triple_return;
        use key [OF that] in simp)
  have old: "triple (\<lambda>w. I (look w k)) (do {
      c \<leftarrow> createVS r ((new_managed_vs fi ns n d)\<lparr>vsMeta := m\<rparr>);
      (case c of Inl e \<Rightarrow> State_Monad.return (Inl (EApi e)) | Inr vs \<Rightarrow> State_Monad.return (Inr (vs, True))) })
      (\<lambda>g w. I (look w k) \<and> (case g of Inl _ \<Rightarrow> True | Inr (vs, _) \<Rightarrow> vs_key vs = (ns, n)))"
    if "rcSetControllerReference r (fiMeta fi) (vsMeta (new_managed_vs fi ns n d)) = Inr m" "k \<noteq> (ns, n)" for m
    by (rule triple_bind [OF server_create(2) [OF assms(2), where k = k]], use key [OF that(1)] that(2) in simp,
        rule triple_case_sum; rule triple_return; use key [OF that(1)] in simp)
  show "triple P (getOrCreateVirtualService r fi ns n d) (\<lambda>g w. case g of
      Inl _ \<Rightarrow> True | Inr (vs, _) \<Rightarrow> look w (ns, n) = Some vs \<and> vs_key vs = (ns, n))"
    unfolding getOrCreateVirtualService_def Let_def
    by (rule triple_bind [OF server_get [OF assms(1)]], rule triple_case_sum, rule triple_if, rule triple_return, simp,
        rule triple_if, rule triple_return, simp, rule triple_case_sum, rule triple_return, simp, rule new, assumption,
        rule triple_return, simp)
  show "k \<noteq> (ns, n) \<Longrightarrow> triple (\<lambda>w. I (look w k)) (getOrCreateVirtualService r fi ns n d) (\<lambda>g w.
      I (look w k) \<and> (case g of Inl _ \<Rightarrow> True | Inr (vs, _) \<Rightarrow> vs_key vs = (ns, n)))"
    unfolding getOrCreateVirtualService_def Let_def
    by (rule triple_bind [OF triple_conj [OF server_get [OF assms(1)] server_keeps(1) [OF assms(1), where I = "\<lambda>v. I (v k)"],
          where P = "\<lambda>w. I (look w k)", simplified conj_absorb]],
        rule triple_case_sum, rule triple_if, rule triple_return, simp,
        rule triple_if, rule triple_return, simp, rule triple_case_sum, rule triple_return, simp,
        rule triple_conseq [OF old], assumption, assumption, simp, simp, rule triple_return, simp)
qed

lemma apply_target_live:
  assumes "vs_server r look" "vs_creates r look" "dsRules d \<noteq> []"
    and "\<forall>rule \<in> set (dsRules d). \<exists>a. buildInjectedHTTPRule fi a = Some rule"
  shows "triple P (apply_target r fi k d) (\<lambda>x w. x = Inr False \<longrightarrow> target_live look fi d k w)"
proof -
  obtain ns n where k: "splitKey k = (ns, n)" by fastforce
  show ?thesis
    unfolding apply_target_def k Let_def prod.case
  proof (rule triple_bind [OF getOrCreate_at(1) [OF assms(1,2)]], rule triple_case_sum, goal_cases)
    case (1 a e)
    show ?case
      by (rule triple_bind [where R = "\<lambda>_ _. True"], simp add: triple_def,
          rule triple_bind [where R = "\<lambda>_ _. True"], simp add: triple_def, rule triple_return, simp)
  next
    case (2 a g)
    obtain vs c where g: "g = (vs, c)" by fastforce
    show ?case
      unfolding 2 g prod.case sum.case k [symmetric] by (rule inject_target_live [OF assms(1,3,4)])
  qed
qed

section \<open>All targets\<close>

lemma inject_target_keeps:
  assumes "vs_server r look" "vs_key vs \<noteq> k"
  shows "holds_on (\<lambda>w. I (look w k)) (inject_target r fi ns n d vs created)"
proof -
  have patch: "holds_on (\<lambda>w. I (look w k)) (patch_target r fi d vs1 created gw base)" if v: "vs_key vs1 \<noteq> k" for vs1 gw base
  proof -
    have "holds_on (\<lambda>w. I (look w k)) (updateVS r vs')"
      if "patchVirtualServiceHTTP vs1 p ds = (vs', ch)" for p ds vs' ch
      using server_update(2) [OF assms(1), of vs' k I] vs_key_patch [of vs1 p ds] that v by simp
    then show ?thesis unfolding patch_target_def Let_def by (intro triple_intro) simp_all
  qed
  have v1: "vs_key (fst (ensureManagedOutboundVSGatewaysMesh vs (dsManaged d))) \<noteq> k"
    using assms(2) by (simp add: vs_key_def ensure_gateways_facts(1))
  then have "vs_key (ensureVSHasAtLeastOneDefaultRouteRule (fst (ensureManagedOutboundVSGatewaysMesh vs (dsManaged d))) (dsHosts d)) \<noteq> k"
    by (simp add: vs_key_def ensure_default_facts(1))
  note patches = patch [OF v1] patch [OF this]
  show ?thesis
  proof (cases "ensureManagedOutboundVSGatewaysMesh vs (dsManaged d)")
    case (Pair vs1 gw)
    show ?thesis
      using patches server_keeps(3) [OF assms(1), where I = "\<lambda>v. I (v k)"]
      unfolding inject_target_def Pair Let_def prod.case fst_conv
      by (intro triple_intro) simp_all
  qed
qed

lemma apply_target_keeps:
  assumes "vs_server r look" "vs_creates r look" "splitKey k' \<noteq> splitKey k"
  shows "holds_on (target_live look fi d k) (apply_target r fi k' d')"
proof -
  obtain ns n where k': "splitKey k' = (ns, n)" by fastforce
  let ?I = "\<lambda>x. case x of None \<Rightarrow> False | Some vs \<Rightarrow> reads_desired fi d vs"
  have I: "target_live look fi d k = (\<lambda>w. ?I (look w (splitKey k)))" by (rule ext) (simp add: target_live_def)
  have ne: "splitKey k \<noteq> (ns, n)" using assms(3) k' by simp
  show ?thesis
    unfolding I apply_target_def k' Let_def prod.case
  proof (rule triple_bind [OF getOrCreate_at(2) [OF assms(1,2) ne, where I = ?I]], rule triple_case_sum, goal_cases)
    case (1 a e)
    have "holds_on (\<lambda>w. ?I (look w (splitKey k))) (do {
        eventf r ''Warning'' ''VirtualServiceGetOrCreateFailed'' ''vs-get-or-create'';
        _ \<leftarrow> statusUpdateFI r (set_error fi (MsgVSFailed ns n e));
        State_Monad.return (Inl e) })"
      by (intro triple_intro server_keeps(3) [OF assms(1), where I = "\<lambda>v. ?I (v (splitKey k))"]) simp_all
    then show ?case by (rule triple_conseq) simp_all
  next
    case (2 a g)
    obtain vs c where g: "g = (vs, c)" by fastforce
    show ?case
    proof (cases "vs_key vs = (ns, n)")
      case True
      then have "vs_key vs \<noteq> splitKey k" using ne by simp
      from inject_target_keeps [OF assms(1) this, where I = ?I] show ?thesis
        unfolding g prod.case by (rule triple_conseq) simp_all
    qed (simp add: 2 g triple_def)
  qed
qed

lemma apply_loop_live:
  assumes "vs_server r look" "vs_creates r look" "inj_on splitKey (set ks)" "distinct ks"
    and "\<forall>k \<in> set ks. dsRules (desired_at k m) \<noteq> []
      \<and> (\<forall>rule \<in> set (dsRules (desired_at k m)). \<exists>a. buildInjectedHTTPRule fi a = Some rule)"
  shows "triple P (apply_loop r fi m ks) (\<lambda>x w. x = Inr False \<longrightarrow> (\<forall>k \<in> set ks. target_live look fi (desired_at k m) k w))"
  using assms(3-5)
proof (induction ks arbitrary: P)
  case Nil
  show ?case by (simp add: triple_def)
next
  case (Cons k ks)
  have keep: "holds_on (target_live look fi (desired_at k m) k) (apply_loop r fi m js)" if "set js \<subseteq> set ks" for js
    using that
  proof (induction js)
    case (Cons j js)
    have "splitKey j \<noteq> splitKey k"
      using Cons.prems \<open>inj_on splitKey (set (k # ks))\<close> \<open>distinct (k # ks)\<close>
      by (auto simp: image_iff)
    from apply_target_keeps [OF assms(1,2) this] Cons show ?case by (auto intro!: triple_intro)
  qed (auto intro!: triple_intro)
  have IH: "triple (target_live look fi (desired_at k m) k) (apply_loop r fi m ks)
      (\<lambda>x w. x = Inr False \<longrightarrow> (\<forall>k \<in> set ks. target_live look fi (desired_at k m) k w))"
    using Cons.prems by (intro Cons.IH) auto
  have tail: "triple (target_live look fi (desired_at k m) k) (apply_loop r fi m ks)
      (\<lambda>x w. x = Inr False \<longrightarrow> (\<forall>j \<in> set (k # ks). target_live look fi (desired_at j m) j w))"
    by (rule triple_conseq [OF triple_conj [OF IH keep [OF subset_refl]]]) auto
  have "triple P (apply_target r fi k (desired_at k m)) (\<lambda>x w. x = Inr False \<longrightarrow> target_live look fi (desired_at k m) k w)"
    using Cons.prems by (intro apply_target_live assms(1,2)) auto
  then show ?case
    unfolding apply_loop.simps
  proof (rule triple_bind, intro triple_case_sum triple_if, goal_cases)
    case (3 a v)
    then show ?case using tail by (simp only: simp_thms)
  qed (auto intro!: triple_return)
qed

text \<open>The keys of the targets hold a slash, so that different keys are different objects.\<close>

lemma splitKey_slash:
  assumes "CHR ''/'' \<in> set k" "splitKey k = (ns, n)"
  shows "k = ns @ ''/'' @ n"
proof -
  obtain a b where k: "k = a @ CHR ''/'' # b" "CHR ''/'' \<notin> set a" using split_list_first [OF assms(1)] by blast
  then have "splitKey (joinKey a b) = (a, b)" using splitKey_joinKey_iff by blast
  then show ?thesis using k(1) assms(2) by (simp add: joinKey_def)
qed

lemma splitKey_inj: "inj_on splitKey {k. CHR ''/'' \<in> set k}"
proof (rule inj_onI)
  fix j k assume "j \<in> {k. CHR ''/'' \<in> set k}" "k \<in> {k. CHR ''/'' \<in> set k}" "splitKey j = splitKey k"
  then show "j = k" using splitKey_slash [of j] splitKey_slash [of k] by (cases "splitKey k") auto
qed

lemma desired_keys:
  assumes "buildDesiredByVSTarget fi = Some (m, mg)"
  shows "distinct (mkeys m)" and "set (mkeys m) \<subseteq> {k. CHR ''/'' \<in> set k}"
    and "set (mkeys m) = {k. \<exists>a \<in> set (meshFaults fi). action_target fi a = Some k}"
proof -
  obtain m0 where loop: "desired_loop fi (meshFaults fi) [] [] = Some (m0, mg)"
    and m: "m = map (\<lambda>(k, d). (k, sort_desired d)) m0"
    using assms by (auto simp: buildDesiredByVSTarget_def)
  have "distinct (mkeys m0)" using desired_loop_distinct [OF loop] by (simp add: mkeys_def)
  then show "distinct (mkeys m)" by (simp only: m mkeys_map_val)
  show "set (mkeys m) = {k. \<exists>a \<in> set (meshFaults fi). action_target fi a = Some k}"
    using desired_loop_keys [OF loop] unfolding m mkeys_map_val by (simp add: mkeys_def)
  then show "set (mkeys m) \<subseteq> {k. CHR ''/'' \<in> set k}"
    by (auto simp: action_target_def joinKey_def split: if_splits)
qed

lemma applyDesired_live:
  assumes "vs_server r look" "vs_creates r look" "buildDesiredByVSTarget fi = Some (m, mg)"
  shows "triple P (applyDesiredTargets r fi m) (\<lambda>x w. x = Inr False \<longrightarrow>
    (\<forall>a \<in> set (meshFaults fi). case action_target fi a of
        None \<Rightarrow> True | Some k \<Rightarrow> target_live look fi (desired_at k m) k w))"
proof -
  note keys = desired_keys [OF assms(3)]
  have d: "\<exists>d. mget k m = Some d \<and> desired_at k m = d" if "k \<in> set (mkeys m)" for k
    using that mget_None_iff [of k m] by (auto simp: desired_at_def split: option.split)
  have rules: "dsRules (desired_at k m) \<noteq> []
      \<and> (\<forall>rule \<in> set (dsRules (desired_at k m)). \<exists>a. buildInjectedHTTPRule fi a = Some rule)"
    if "k \<in> set (mkeys m)" for k
    using d [OF that] desired_nonempty [OF assms(3)] desired_rule_action [OF assms(3)] by blast
  have dist: "distinct (range_keys r (mkeys m))"
    using keys(1) mset_range_keys [of r "mkeys m"] by (metis mset_eq_imp_distinct_iff)
  have inj: "inj_on splitKey (set (range_keys r (mkeys m)))"
    using inj_on_subset [OF splitKey_inj keys(2)] by simp
  show ?thesis
    unfolding applyDesiredTargets_def
    by (rule triple_conseq [OF apply_loop_live [OF assms(1,2) inj dist]])
      (use rules keys(3) in \<open>auto split: option.split\<close>)
qed

end
