(* ===== verification/Cluster.thy ===== *)
theory Cluster
  imports Live
begin

text \<open>
  An experiment from its start to its end, on one VirtualService of somebody else: the reconciles
  in between, of whatever versions the spec goes through and whatever happens elsewhere in the
  cluster, keep what the object had, and the reconcile that ends the experiment gives it back.
\<close>

section \<open>The server\<close>

text \<open>
  What the server documents beyond \<open>vs_server\<close> and \<open>vs_creates\<close>: a list holds stored objects of
  the namespace with the labels asked for, a deletion takes away the object of its name only, a
  FaultInjection comes with the name it was asked for, and no other request changes a
  VirtualService. A request may fail at any time; an operator that crashes is one whose
  requests all fail from there on.
\<close>

definition list_law ::
  "('w \<Rightarrow> string \<times> string \<Rightarrow> vsObj option) \<Rightarrow> string gomap \<Rightarrow> ('w \<Rightarrow> (apiError + vsObj list) \<times> 'w) \<Rightarrow> bool" where
  "list_law look ls f \<longleftrightarrow>
     (\<forall>w. case fst (f w) of
           Inr vss \<Rightarrow> (\<forall>vs \<in> set vss. look w (vs_key vs) = Some vs \<and> (\<forall>(a, b) \<in> set ls. vsLabel vs a = Some b))
         | Inl _ \<Rightarrow> True)"

definition vs_store ::
  "'w reconciler \<Rightarrow> ('w \<Rightarrow> string \<times> string \<Rightarrow> vsObj option) \<Rightarrow> string \<Rightarrow> string \<Rightarrow> bool" where
  "vs_store r look ns n \<longleftrightarrow>
     vs_server r look \<and> vs_creates r look
     \<and> (\<forall>ns ls. list_law look ls (rcListVS r ns ls))
     \<and> (\<forall>vs w k. k \<noteq> vs_key vs \<longrightarrow> look (snd (rcDeleteVS r vs w)) k = look w k)
     \<and> (\<forall>w. case fst (rcGetFI r ns n w) of Inr fi \<Rightarrow> fiNamespace fi = ns \<and> fiName fi = n | Inl _ \<Rightarrow> True)
     \<and> keeps_vs look (rcNow r)
     \<and> (\<forall>ns n. keeps_vs look (rcGetJob r ns n) \<and> keeps_vs look (rcGetLease r ns n))
     \<and> (\<forall>j. keeps_vs look (rcCreateJob r j))
     \<and> (\<forall>l. keeps_vs look (rcCreateLease r l) \<and> keeps_vs look (rcUpdateLease r l))"

text \<open>
  The histories of a cluster: reconciles of the FaultInjection, in any state of it, and steps of
  others, which may change anything but the VirtualService \<open>k\<close>.
\<close>

inductive history ::
  "'w reconciler \<Rightarrow> ('w \<Rightarrow> string \<times> string \<Rightarrow> vsObj option) \<Rightarrow> string \<Rightarrow> string \<Rightarrow> string \<times> string \<Rightarrow> 'w \<Rightarrow> 'w \<Rightarrow> bool"
  for r look ns n k w where
  start: "history r look ns n k w w"
| reconciled: "history r look ns n k w w1 \<Longrightarrow>
    history r look ns n k w (world (snd (run_state (Reconcile r ns n) \<lparr>world = w1, trace = t\<rparr>)))"
| others: "history r look ns n k w w1 \<Longrightarrow> look w2 k = look w1 k \<Longrightarrow> history r look ns n k w w2"

text \<open>What the object keeps: its labels, the rules of others, and the fields the operator has no rules for.\<close>

definition kept :: "faultInjection \<Rightarrow> vsObj \<Rightarrow> vsObj \<Rightarrow> bool" where
  "kept fi vs0 vs \<longleftrightarrow>
     oLabels (vsMeta vs) = oLabels (vsMeta vs0) \<and> user_rules fi vs = user_rules fi vs0
     \<and> (\<forall>f. f \<noteq> ''http'' \<longrightarrow> f \<noteq> ''gateways'' \<longrightarrow> mget f (spec_of vs) = mget f (spec_of vs0))"

section \<open>Edits keep it\<close>

lemma same_name:
  assumes "fiName fi' = fiName fi"
  shows "user_rules fi' = user_rules fi" and "managed_by_fi fi' = managed_by_fi fi"
    and "fiRuleNamePrefix fi' = fiRuleNamePrefix fi" and "kept fi' = kept fi"
  using assms by (auto simp: fun_eq_iff user_rules_def fiRuleNamePrefix_def managed_by_fi_def kept_def)

lemma kept_refl: "kept fi vs vs"
  by (simp add: kept_def)

lemma kept_same:
  assumes "oLabels (vsMeta vs') = oLabels (vsMeta vs)" "user_rules fi vs' = user_rules fi vs"
    and "\<And>f. f \<noteq> ''http'' \<Longrightarrow> f \<noteq> ''gateways'' \<Longrightarrow> mget f (spec_of vs') = mget f (spec_of vs)"
  shows "kept fi vs0 vs' \<longleftrightarrow> kept fi vs0 vs"
  unfolding kept_def by (simp add: assms cong: imp_cong)

lemma kept_stored: "stored_as vs vs' \<Longrightarrow> kept fi vs0 vs' \<longleftrightarrow> kept fi vs0 vs"
  by (rule kept_same) (auto simp: stored_as_def user_rules_def http_of_def spec_of_def)

lemma kept_remove:
  assumes "kept fi vs0 vs" "remove_update fi vs vs'"
  shows "kept fi vs0 vs'"
proof -
  have "user_rules fi vs' = user_rules fi vs"
    using assms(2) by (simp only: remove_update_def user_rules_def) (simp only: filter_filter conj_absorb)
  then show ?thesis using assms kept_same [of vs' vs fi vs0] unfolding remove_update_def by metis
qed

lemma kept_prepared:
  assumes "user_rules fi vs0 \<noteq> []" "kept fi vs0 vs" "prepared vs vs1"
  shows "kept fi vs0 vs1"
proof -
  have "http_of vs \<noteq> []" using assms(1,2) by (metis filter.simps(1) kept_def user_rules_def)
  then have "user_rules fi vs1 = user_rules fi vs" "vsMeta vs1 = vsMeta vs"
    using assms(3) unfolding prepared_def user_rules_def by simp_all
  then show ?thesis using assms kept_same [of vs1 vs fi vs0] unfolding prepared_def by metis
qed

lemma kept_patch:
  assumes "kept fi vs0 vs" "rules_of_spec fi d"
  shows "kept fi vs0 (fst (patchVirtualServiceHTTP vs (fiRuleNamePrefix fi) (routed_rules d base)))"
proof -
  let ?vs' = "fst (patchVirtualServiceHTTP vs (fiRuleNamePrefix fi) (routed_rules d base))"
  have "user_rules fi ?vs' = user_rules fi vs"
    unfolding user_rules_def by (rule http.others_kept [OF routed_rules_injected(2) [OF assms(2)]])
  then show ?thesis
    using assms(1) kept_same [of ?vs' vs fi vs0] patch_frame [of _ vs] by simp
qed

lemma kept_managed: "kept fi vs0 vs \<Longrightarrow> managed_by_fi fi vs \<longleftrightarrow> managed_by_fi fi vs0"
  by (simp add: kept_def managed_by_fi_def)

section \<open>Requests that leave VirtualServices alone\<close>

lemma triple_fact: "(p \<Longrightarrow> triple P m Q) \<Longrightarrow> triple (\<lambda>w. P w \<and> p) m Q"
  by (auto simp: triple_def)

lemma store_keeps:
  assumes "vs_store r look ns n"
  shows "holds_on (\<lambda>w. I (look w)) (time_now r)" and "holds_on (\<lambda>w. I (look w)) (getJob r a b)"
    and "holds_on (\<lambda>w. I (look w)) (getLease r a b)" and "holds_on (\<lambda>w. I (look w)) (createJob r j)"
    and "holds_on (\<lambda>w. I (look w)) (createLease r l)" and "holds_on (\<lambda>w. I (look w)) (updateLease r l)"
proof -
  have k: "keeps_vs look (rcNow r)" "keeps_vs look (rcGetJob r a b)" "keeps_vs look (rcGetLease r a b)"
    "keeps_vs look (rcCreateJob r j)" "keeps_vs look (rcCreateLease r l)" "keeps_vs look (rcUpdateLease r l)"
    using assms unfolding vs_store_def by blast+
  then have "look (snd (rcNow r w)) = look w" for w by (simp add: keeps_vs_def)
  then show "holds_on (\<lambda>w. I (look w)) (time_now r)"
    by (simp add: triple_def time_now_def split: prod.split) (metis snd_conv)
  show "holds_on (\<lambda>w. I (look w)) (getJob r a b)" "holds_on (\<lambda>w. I (look w)) (getLease r a b)"
    "holds_on (\<lambda>w. I (look w)) (createJob r j)" "holds_on (\<lambda>w. I (look w)) (createLease r l)"
    "holds_on (\<lambda>w. I (look w)) (updateLease r l)"
    unfolding call_defs by (intro triple_keeps k)+
qed

lemma store_documented: "vs_store r look ns n \<Longrightarrow> vs_server r look" "vs_store r look ns n \<Longrightarrow> vs_creates r look"
  by (simp_all add: vs_store_def)

lemma checks_keep:
  assumes "vs_store r look ns n"
  shows "holds_on (\<lambda>w. I (look w)) (validateSpec r fi)"
    and "holds_on (\<lambda>w. I (look w)) (markRunning r fi)" and "holds_on (\<lambda>w. I (look w)) (requeue_step r fi due)"
proof -
  note keep = store_keeps [OF assms, where I = I] server_keeps [OF store_documented(1) [OF assms], where I = I]
  have each: "holds_on (\<lambda>w. I (look w)) (each_until_error f xs)"
    if "\<And>x. holds_on (\<lambda>w. I (look w)) (f x)" for f :: "'x \<Rightarrow> ('a, goerr option) eff" and xs
    by (induction xs) (auto intro!: triple_intro that)
  show "holds_on (\<lambda>w. I (look w)) (validateSpec r fi)"
    unfolding validateSpec_def validatePodFaults_def validate_mesh_action_def validate_pod_action_def
      countPods_def Let_def
    by (intro triple_intro each keep) simp_all
  show "holds_on (\<lambda>w. I (look w)) (markRunning r fi)"
    unfolding markRunning_def running_attempt_def by (intro triple_intro holds_on_retry keep) simp_all
  show "holds_on (\<lambda>w. I (look w)) (requeue_step r fi due)"
    unfolding requeue_step_def time_until_def Let_def by (intro triple_intro keep) simp_all
qed

lemma lifecycle_keeps:
  assumes "vs_store r look ns n"
  shows "triple (\<lambda>w. I (look w)) (ensureLifecycle r fi) (\<lambda>x w. I (look w) \<and> fiMeta (fst x) = fiMeta fi)"
proof -
  have refresh: "triple P (refresh_expiry r fi' t b) (\<lambda>x w. P w \<and> fiMeta (fst x) = fiMeta fi')" for P fi' t b
    unfolding refresh_expiry_def
    by (intro triple_if triple_bind [where R = "\<lambda>_. P"] triple_eventf triple_return) (simp_all add: set_expires_def)
  have refresh': "triple P (refresh_expiry r fi' t b) (\<lambda>x w. P w \<and> fiMeta (fst x) = fiMeta fi)"
    if "fiMeta fi' = fiMeta fi" for P fi' t b
    using refresh [of P fi' t b] that by simp
  show ?thesis
    unfolding ensureLifecycle_def
    by (intro triple_bind [where R = "\<lambda>_ w. I (look w)"] store_keeps(1) [OF assms] triple_if triple_case_option
        triple_eventf triple_return refresh') (simp_all add: set_started_def)
qed

lemma store_getFI:
  assumes "vs_store r look ns n"
  shows "triple (\<lambda>w. I (look w)) (getFI r ns n)
    (\<lambda>g w. I (look w) \<and> (case g of Inl _ \<Rightarrow> True | Inr fi \<Rightarrow> fiNamespace fi = ns \<and> fiName fi = n))"
proof -
  have "keeps_vs look (rcGetFI r ns n)" using store_documented(1) [OF assms] unfolding vs_server_def by blast
  moreover have "case fst (rcGetFI r ns n w) of Inr fi \<Rightarrow> fiNamespace fi = ns \<and> fiName fi = n | Inl _ \<Rightarrow> True" for w
    using assms unfolding vs_store_def by blast
  ultimately show ?thesis unfolding call_defs
    by (intro triple_call) (simp add: keeps_vs_def split: sum.splits)
qed

section \<open>Pod faults and status\<close>

lemma pods_keep:
  assumes "vs_store r look ns n"
  shows "holds_on (\<lambda>w. I (look w)) (applyPodFaults r fi now)"
proof -
  note vs = server_keeps [OF store_documented(1) [OF assms], where I = I]
  note keep = store_keeps [OF assms, where I = I] vs artifacts_keep(3) [OF store_documented(1) [OF assms], where I = I]
  have lease: "holds_on (\<lambda>w. I (look w)) (tryAcquireOrTakeoverLease r fi p now)" for p
    unfolding tryAcquireOrTakeoverLease_def create_lease_def takeover_lease_def takeover_attempt_def Let_def
    by (intro triple_intro keep holds_on_retry) simp_all
  have start: "holds_on (\<lambda>w. I (look w)) (start_job r fi p)" for p
    unfolding start_job_def createPodFaultJobIfNotExists_def unless_panic_def
    by (intro triple_intro keep) simp_all
  have launch: "holds_on (\<lambda>w. I (look w)) (launch_step r fi p now)" for p
    unfolding launch_step_def recordPodFaultPlanned_def unless_panic_def
    by (intro triple_intro keep lease start) simp_all
  have select: "holds_on (\<lambda>w. I (look w)) (select_step r fi p now)" for p
    unfolding select_step_def select_from_def listCandidatePods_def setFIStatusPhaseMessage_def Let_def
    by (intro triple_intro keep launch) simp_all
  have body: "holds_on (\<lambda>w. I (look w)) (plan_body r fi now p)" for p
    unfolding plan_body_def job_complete_step_def job_failed_step_def recordPodFaultExecuted_def
      setFIStatusPhaseMessage_def
    by (intro triple_intro keep select) simp_all
  have loop: "holds_on (\<lambda>w. I (look w)) (plans_loop r fi now ps b)" for ps b
    by (induction ps arbitrary: b) (auto intro!: triple_intro body)
  show ?thesis
    unfolding applyPodFaults_def Let_def by (intro triple_intro loop) simp_all
qed

section \<open>Requests on an object\<close>

text \<open>
  An object with a property is stored at \<open>k\<close>; and an object in the hands of the operator that, if
  it is the one at \<open>k\<close>, has it.
\<close>

definition slot_holds :: "(vsObj \<Rightarrow> bool) \<Rightarrow> vsObj option \<Rightarrow> bool" where
  "slot_holds K x \<longleftrightarrow> (case x of Some vs \<Rightarrow> K vs | None \<Rightarrow> False)"

definition own_holds :: "(vsObj \<Rightarrow> bool) \<Rightarrow> string \<times> string \<Rightarrow> vsObj \<Rightarrow> bool" where
  "own_holds K k vs \<longleftrightarrow> (vs_key vs = k \<longrightarrow> K vs)"

abbreviation slot ::
  "('w \<Rightarrow> string \<times> string \<Rightarrow> vsObj option) \<Rightarrow> (vsObj \<Rightarrow> bool) \<Rightarrow> string \<times> string \<Rightarrow> 'w \<Rightarrow> bool" where
  "slot look K k \<equiv> \<lambda>w. slot_holds K (look w k)"

lemma slot_own: "slot_holds K (look w k) \<Longrightarrow> look w (vs_key vs) = Some vs \<Longrightarrow> own_holds K k vs"
  by (auto simp: slot_holds_def own_holds_def)

text \<open>
  A property of somebody else's object that the edits of a FaultInjection keep: the gateways and
  the default rule, the patch with its rules, the patch without, and being stored.
\<close>

locale foreign_property =
  fixes K :: "faultInjection \<Rightarrow> vsObj \<Rightarrow> bool"
  assumes K_stored: "K fi vs \<Longrightarrow> stored_as vs vs' \<Longrightarrow> K fi vs'"
    and K_prepared: "K fi vs \<Longrightarrow> prepared vs vs1 \<Longrightarrow> K fi vs1"
    and K_patch: "K fi vs \<Longrightarrow> rules_of_spec fi d \<Longrightarrow>
      K fi (fst (patchVirtualServiceHTTP vs (fiRuleNamePrefix fi) (routed_rules d base)))"
    and K_clean: "K fi vs \<Longrightarrow> K fi (fst (patchVirtualServiceHTTP vs (fiRuleNamePrefix fi) []))"
    and K_foreign: "K fi vs \<Longrightarrow> \<not> managed_by_fi fi vs"
    and K_name: "fiName fi' = fiName fi \<Longrightarrow> K fi' = K fi"
begin

lemma store_get:
  assumes "vs_store r look ns n"
  shows "triple (slot look (K fi) k) (getVS r a b)
    (\<lambda>g w. slot look (K fi) k w \<and> (case g of Inl _ \<Rightarrow> True | Inr vs \<Rightarrow> own_holds (K fi) k vs))"
  by (rule triple_conseq [OF triple_conj [OF server_get [OF store_documented(1) [OF assms], where P = "slot look (K fi) k"]
        server_keeps(1) [OF store_documented(1) [OF assms], where I = "\<lambda>v. slot_holds (K fi) (v k)"]]])
    (auto intro: slot_own split: sum.splits)

lemma store_update:
  assumes "vs_store r look ns n" "own_holds (K fi) k vs"
  shows "holds_on (slot look (K fi) k) (updateVS r vs)"
proof -
  have "update_law look vs (rcUpdateVS r vs)" using store_documented(1) [OF assms(1)] unfolding vs_server_def by blast
  then have law: "case fst (rcUpdateVS r vs w) of
        None \<Rightarrow> \<exists>vs'. stored_as vs vs' \<and> look (snd (rcUpdateVS r vs w)) = (look w)(vs_key vs \<mapsto> vs')
      | Some _ \<Rightarrow> look (snd (rcUpdateVS r vs w)) = look w" for w
    by (simp add: update_law_def)
  show ?thesis
    unfolding call_defs
  proof (rule triple_call)
    fix w assume "slot_holds (K fi) (look w k)"
    then show "slot_holds (K fi) (look (snd (rcUpdateVS r vs w)) k)"
      using law [of w] assms(2) K_stored [of fi vs]
      by (cases "fst (rcUpdateVS r vs w)") (auto simp: own_holds_def slot_holds_def)
  qed
qed

lemma store_create:
  assumes "vs_store r look ns n"
  shows "triple (slot look (K fi) k) (createVS r vs)
    (\<lambda>c w. slot look (K fi) k w \<and> (case c of Inl _ \<Rightarrow> True | Inr vs' \<Rightarrow> own_holds (K fi) k vs'))"
proof -
  have "create_law look vs (rcCreateVS r vs)" using store_documented(2) [OF assms] unfolding vs_creates_def by blast
  then have law: "case fst (rcCreateVS r vs w) of
        Inr vs' \<Rightarrow> stored_as vs vs' \<and> look w (vs_key vs) = None
          \<and> look (snd (rcCreateVS r vs w)) = (look w)(vs_key vs \<mapsto> vs')
      | Inl _ \<Rightarrow> look (snd (rcCreateVS r vs w)) = look w" for w
    by (simp add: create_law_def)
  show ?thesis
    unfolding call_defs
  proof (rule triple_call)
    fix w assume w: "slot_holds (K fi) (look w k)"
    then have "look w k \<noteq> None" by (auto simp: slot_holds_def split: option.splits)
    then show "slot_holds (K fi) (look (snd (rcCreateVS r vs w)) k)
      \<and> (case fst (rcCreateVS r vs w) of Inl _ \<Rightarrow> True | Inr vs' \<Rightarrow> own_holds (K fi) k vs')"
      using law [of w] w stored_as_key [of vs] by (auto simp: own_holds_def split: sum.splits)
  qed
qed

lemma store_delete:
  assumes "vs_store r look ns n" "vs_key vs \<noteq> k"
  shows "holds_on (slot look (K fi) k) (deleteVS r vs)"
proof -
  have "look (snd (rcDeleteVS r vs w)) k = look w k" for w
    using assms unfolding vs_store_def by metis
  then show ?thesis unfolding call_defs by (intro triple_call) simp
qed

lemma store_list:
  assumes "vs_store r look ns n"
  shows "triple (slot look (K fi) k) (listVS r a ls)
    (\<lambda>l w. slot look (K fi) k w \<and> (case l of Inl _ \<Rightarrow> True
       | Inr vss \<Rightarrow> \<forall>vs \<in> set vss. own_holds (K fi) k vs \<and> (\<forall>(x, y) \<in> set ls. vsLabel vs x = Some y)))"
proof -
  have "list_law look ls (rcListVS r a ls)" using assms unfolding vs_store_def by blast
  then have law: "case fst (rcListVS r a ls w) of
        Inr vss \<Rightarrow> (\<forall>vs \<in> set vss. look w (vs_key vs) = Some vs \<and> (\<forall>(x, y) \<in> set ls. vsLabel vs x = Some y))
      | Inl _ \<Rightarrow> True" for w
    by (simp add: list_law_def)
  have "keeps_vs look (rcListVS r a ls)" using store_documented(1) [OF assms] unfolding vs_server_def by blast
  then have keep: "look (snd (rcListVS r a ls w)) = look w" for w by (simp add: keeps_vs_def)
  show ?thesis
    unfolding call_defs
  proof (rule triple_call)
    fix w assume w: "slot_holds (K fi) (look w k)"
    show "slot_holds (K fi) (look (snd (rcListVS r a ls w)) k) \<and> (case fst (rcListVS r a ls w) of Inl _ \<Rightarrow> True
       | Inr vss \<Rightarrow> \<forall>vs \<in> set vss. own_holds (K fi) k vs \<and> (\<forall>(x, y) \<in> set ls. vsLabel vs x = Some y))"
      unfolding keep using law [of w] w slot_own [of "K fi" look w k] by (auto split: sum.splits)
  qed
qed

section \<open>Mesh faults\<close>

lemma own_prepared: "own_holds (K fi) k vs \<Longrightarrow> prepared vs vs1 \<Longrightarrow> own_holds (K fi) k vs1"
  using K_prepared by (auto simp: own_holds_def vs_key_def prepared_def)

lemma own_patch:
  "own_holds (K fi) k vs \<Longrightarrow> rules_of_spec fi d \<Longrightarrow>
   own_holds (K fi) k (fst (patchVirtualServiceHTTP vs (fiRuleNamePrefix fi) (routed_rules d base)))"
  using K_patch by (auto simp: own_holds_def)

lemma own_clean:
  "own_holds (K fi) k vs \<Longrightarrow> own_holds (K fi) k (fst (patchVirtualServiceHTTP vs (fiRuleNamePrefix fi) []))"
  using K_clean by (auto simp: own_holds_def)

lemma own_foreign: "own_holds (K fi) k vs \<Longrightarrow> managed_by_fi fi vs \<Longrightarrow> vs_key vs \<noteq> k"
  using K_foreign by (auto simp: own_holds_def)

lemma slot_patch_target:
  assumes "vs_store r look ns n" "own_holds (K fi) k vs" "rules_of_spec fi d"
  shows "holds_on (slot look (K fi) k) (patch_target r fi d vs c gw base)"
proof -
  obtain vs' ch where p: "patchVirtualServiceHTTP vs (fiRuleNamePrefix fi) (routed_rules d base) = (vs', ch)"
    by fastforce
  then have "own_holds (K fi) k vs'" using own_patch [OF assms(2,3), of base] by simp
  note upd = store_update [OF assms(1) this]
  show ?thesis
    unfolding patch_target_def routed_rules_def [symmetric] p Let_def prod.case
    by (intro triple_intro upd) simp_all
qed

lemma slot_inject_target:
  assumes "vs_store r look ns n" "own_holds (K fi) k vs" "rules_of_spec fi d"
  shows "holds_on (slot look (K fi) k) (inject_target r fi a b d vs c)"
proof -
  obtain vs1 gw where g: "ensureManagedOutboundVSGatewaysMesh vs (dsManaged d) = (vs1, gw)" by fastforce
  then have p: "prepared vs vs1" using prepared_gateways [of vs "dsManaged d"] by simp
  note patch = slot_patch_target [OF assms(1) own_prepared [OF assms(2)] assms(3)]
  note keep = server_keeps(3) [OF store_documented(1) [OF assms(1)], where I = "\<lambda>v. slot_holds (K fi) (v k)"]
  show ?thesis
    unfolding inject_target_def g prod.case Let_def
    by (intro triple_intro patch keep p prepared_default) simp_all
qed

lemma slot_getOrCreate:
  assumes "vs_store r look ns n"
  shows "triple (slot look (K fi) k) (getOrCreateVirtualService r fi a b d)
    (\<lambda>g w. slot look (K fi) k w \<and> (case g of Inl _ \<Rightarrow> True | Inr (vs, _) \<Rightarrow> own_holds (K fi) k vs))"
  unfolding getOrCreateVirtualService_def Let_def
  by (rule triple_bind [OF store_get [OF assms]], rule triple_case_sum, rule triple_if, rule triple_return, simp,
      rule triple_if, rule triple_return, simp, rule triple_case_sum, rule triple_return, simp,
      rule triple_bind, rule triple_conseq [OF store_create [OF assms]], simp, assumption,
      rule triple_case_sum; rule triple_return; simp)

lemma slot_apply_target:
  assumes "vs_store r look ns n" "rules_of_spec fi d"
  shows "holds_on (slot look (K fi) k) (apply_target r fi key d)"
proof -
  obtain a b where key: "splitKey key = (a, b)" by fastforce
  note keep = server_keeps(3) [OF store_documented(1) [OF assms(1)], where I = "\<lambda>v. slot_holds (K fi) (v k)"]
  have fail: "holds_on (slot look (K fi) k) (do {
      eventf r t x y; _ \<leftarrow> statusUpdateFI r f; State_Monad.return v })" for t x y f and v :: "goerr + bool"
    by (intro triple_intro keep) simp_all
  show ?thesis
    unfolding apply_target_def key Let_def prod.case
  proof (rule triple_bind [OF slot_getOrCreate [OF assms(1)]], rule triple_case_sum, goal_cases)
    case (1 g e)
    then show ?case using fail by simp
  next
    case (2 g x)
    obtain vs c where x: "x = (vs, c)" by fastforce
    show ?case
      unfolding 2 x sum.case prod.case
      by (rule triple_fact) (rule slot_inject_target [OF assms(1) _ assms(2)])
  qed
qed

lemma slot_applyDesired:
  assumes "vs_store r look ns n" "buildDesiredByVSTarget fi = Some (m, mg)"
  shows "holds_on (slot look (K fi) k) (applyDesiredTargets r fi m)"
proof -
  have "holds_on (slot look (K fi) k) (apply_loop r fi m ks)" for ks
    by (induction ks)
      (auto intro!: triple_intro slot_apply_target [OF assms(1)] desired_rules_of_spec [OF assms(2)])
  then show ?thesis by (simp add: applyDesiredTargets_def)
qed

lemma slot_orphans:
  assumes "vs_store r look ns n"
  shows "holds_on (slot look (K fi) k) (cleanupOrphanedManagedVS r fi wanted)"
proof -
  have loop: "holds_on (slot look (K fi) k) (orphan_loop r wanted vss)" if "\<forall>vs \<in> set vss. vs_key vs \<noteq> k" for vss
    using that by (induction vss) (auto intro!: triple_intro store_delete [OF assms(1)])
  have away: "vs_key vs \<noteq> k"
    if "own_holds (K fi) k vs" "\<forall>(x, y) \<in> set [(''managed-by'', ''fi-operator''), (''chaos.sghaida.io/fi'', fiName fi)]. vsLabel vs x = Some y"
    for vs
    using own_foreign [OF that(1)] that(2) by (simp add: managed_by_fi_def)
  show ?thesis
    unfolding cleanupOrphanedManagedVS_def
  proof (rule triple_bind [OF store_list [OF assms(1)]], rule triple_case_sum, goal_cases)
    case (2 l vss)
    show ?case unfolding 2 sum.case by (rule triple_fact, rule loop) (use away in blast)
  qed (rule triple_return, simp)
qed

section \<open>Cleanup\<close>

lemma slot_cleanup_target:
  assumes "vs_store r look ns n"
  shows "holds_on (slot look (K fi) k) (cleanup_target r fi key)"
proof -
  obtain a b where key: "splitKey key = (a, b)" by fastforce
  show ?thesis
    unfolding cleanup_target_def key Let_def prod.case
  proof (rule triple_bind [OF store_get [OF assms(1)]], rule triple_case_sum, goal_cases)
    case (2 g vs1)
    obtain vs ch where p: "patchVirtualServiceHTTP vs1 (fiRuleNamePrefix fi) [] = (vs, ch)" by fastforce
    show ?case
      unfolding 2 sum.case p prod.case
    proof (rule triple_fact)
      assume "own_holds (K fi) k vs1"
      then have own: "own_holds (K fi) k vs" using own_clean [of fi k vs1] p by simp
      show "holds_on (slot look (K fi) k) (if managed_by_fi fi vs then do {
               d \<leftarrow> deleteVS r vs;
               (if delete_failed d then eventf r ''Warning'' ''VirtualServiceDeleteFailed'' ''vs-delete''
                else eventf r ''Normal'' ''VirtualServiceDeleted'' ''vs-delete'');
               State_Monad.return None
             }
             else if ch then do {
               u \<leftarrow> updateVS r vs;
               (case u of
                  Some e \<Rightarrow> do {
                    eventf r ''Warning'' ''CleanupUpdateFailed'' ''vs-update'';
                    State_Monad.return (Some (EApi e))
                  }
                | None \<Rightarrow> do {
                    eventf r ''Normal'' ''RulesRemoved'' ''cleanup'';
                    State_Monad.return None
                  })
             }
             else State_Monad.return None)"
        by (intro triple_intro store_delete [OF assms(1)] store_update [OF assms(1) own] own_foreign [OF own])
          simp_all
    qed
  qed (rule triple_return, simp)
qed

lemma slot_cleanupAll:
  assumes "vs_store r look ns n"
  shows "holds_on (slot look (K fi) k) (cleanupAll r fi)"
proof -
  have loop: "holds_on (slot look (K fi) k) (each_until_error (cleanup_target r fi) ks)" for ks
    by (induction ks) (auto intro!: triple_intro slot_cleanup_target [OF assms])
  note keep = server_keeps(4) [OF store_documented(1) [OF assms(1)], where I = "\<lambda>v. slot_holds (K fi) (v k)"]
    artifacts_keep [OF store_documented(1) [OF assms(1)], where I = "\<lambda>v. slot_holds (K fi) (v k)"]
  show ?thesis
    unfolding cleanupAll_def by (intro triple_intro keep loop) simp_all
qed

section \<open>The whole reconcile\<close>

lemma slot_loaded:
  assumes "vs_store r look ns n"
  shows "holds_on (slot look (K fi) k) (reconcile_loaded r ns n fi now)"
proof -
  let ?I = "\<lambda>v. slot_holds (K fi) (v k)"
  note vs = store_documented(1) [OF assms(1)]
  note keep = store_keeps [OF assms(1), where I = ?I] server_keeps [OF vs, where I = ?I]
    artifacts_keep(3) [OF vs, where I = ?I] checks_keep [OF assms(1), where I = ?I] pods_keep [OF assms(1), where I = ?I]
    slot_cleanupAll [OF assms(1)]
  have life: "holds_on (slot look (K fi) k) (ensureLifecycle r fi)"
    by (rule triple_conseq [OF lifecycle_keeps [OF assms(1), where I = ?I]]) simp_all
  have ends: "holds_on (slot look (K fi) k) (handleCancellation r ns n fi now)"
    "holds_on (slot look (K fi) k) (handleExpiry r fi)" "holds_on (slot look (K fi) k) (handleValidationError r fi e)" for e
    unfolding handleCancellation_def handleExpiry_def handleValidationError_def
    by (intro triple_intro keep; simp)+
  have run: "holds_on (slot look (K fi) k) (run_step r ns n fi now)"
    unfolding run_step_def by (intro triple_intro keep) simp_all
  have inject: "holds_on (slot look (K fi) k) (apply_step r ns n fi now)"
    unfolding apply_step_def
    by (intro triple_intro slot_applyDesired [OF assms(1)] slot_orphans [OF assms(1)] run) simp_all
  show ?thesis
    unfolding reconcile_loaded_def by (intro triple_intro life ends inject keep) simp_all
qed

lemma slot_Reconcile:
  assumes "vs_store r look ns n" "fiName fi = n"
  shows "holds_on (slot look (K fi) k) (Reconcile r ns n)"
proof -
  let ?I = "\<lambda>v. slot_holds (K fi) (v k)"
  note vs = store_documented(1) [OF assms(1)]
  have loaded: "holds_on (slot look (K fi) k) (reconcile_loaded r ns n fi' now)" if "fiName fi' = n" for fi' now
  proof -
    have "K fi' = K fi" using that assms(2) by (intro K_name) simp
    then show ?thesis using slot_loaded [OF assms(1), of fi' k now] by simp
  qed
  have again: "holds_on (slot look (K fi) k) (do {
      g2 \<leftarrow> getFI r ns n;
      (case g2 of
         Inl e \<Rightarrow> State_Monad.return (no_requeue, ignoreNotFound e)
       | Inr fi2 \<Rightarrow> reconcile_loaded r ns n fi2 now) })" for now
    by (rule triple_bind [OF store_getFI [OF assms(1), where I = ?I]], rule triple_case_sum, rule triple_return, simp,
        simp, rule triple_fact, rule loaded, simp)
  have rest: "holds_on (slot look (K fi) k) (if changed then do {
             u \<leftarrow> update_status r ns n (\<lambda>st. Some (lifecycle_status fi1 st));
             (case u of
                Some e \<Rightarrow> do {
                  eventf r ''Warning'' ''StatusUpdateFailed'' ''status-update'';
                  State_Monad.return (no_requeue, Some e)
                }
              | None \<Rightarrow> do {
                  g2 \<leftarrow> getFI r ns n;
                  (case g2 of
                     Inl e \<Rightarrow> State_Monad.return (no_requeue, ignoreNotFound e)
                   | Inr fi2 \<Rightarrow> reconcile_loaded r ns n fi2 now)
                })
           }
           else reconcile_loaded r ns n fi1 now)" if "fiName fi1 = n" for changed fi1 now
    by (intro triple_if loaded [OF that] holds_on_bind artifacts_keep(3) [OF vs, where I = ?I] triple_case_option again
        triple_eventf triple_return) simp_all
  show ?thesis
    unfolding Reconcile_def
  proof (rule triple_bind [OF store_getFI [OF assms(1), where I = ?I]], rule triple_case_sum, goal_cases)
    case (2 g fi0)
    show ?case
      unfolding 2 sum.case
      apply (rule triple_fact, rule holds_on_bind [OF store_keeps(1) [OF assms(1), where I = ?I]])
      apply (rule triple_bind [OF lifecycle_keeps [OF assms(1), where I = ?I]], rule triple_case_prod)
      apply (rule triple_fact, rule rest, simp)
      done
  qed (rule triple_return, simp)
qed

section \<open>From start to end\<close>

lemma history_holds:
  assumes "vs_store r look ns n" "fiName fi = n" "slot look (K fi) k w" "history r look ns n k w w1"
  shows "slot look (K fi) k w1"
  using assms(4)
proof induction
  case (reconciled w1 t)
  show ?case
    using tripleD [OF slot_Reconcile [OF assms(1,2), where k = k], of "\<lparr>world = w1, trace = t\<rparr>"] reconciled by simp
qed (use assms(3) in simp_all)

end

text \<open>That an object is not the operator's is such a property, and that it has what another one had.\<close>

interpretation foreign: foreign_property "\<lambda>fi vs. \<not> managed_by_fi fi vs"
proof unfold_locales
  show "\<not> managed_by_fi fi vs'" if "\<not> managed_by_fi fi vs" "stored_as vs vs'" for fi vs vs'
    using that stored_as_facts by blast
  show "\<not> managed_by_fi fi vs1" if "\<not> managed_by_fi fi vs" "prepared vs vs1" for fi vs vs1
    using that by (simp add: prepared_def managed_by_fi_def)
qed (simp_all add: managed_by_fi_def)

definition borrowed :: "vsObj \<Rightarrow> faultInjection \<Rightarrow> vsObj \<Rightarrow> bool" where
  "borrowed vs0 fi vs \<longleftrightarrow> user_rules fi vs0 \<noteq> [] \<and> \<not> managed_by_fi fi vs0 \<and> kept fi vs0 vs"

interpretation lent: foreign_property "borrowed vs0" for vs0
proof unfold_locales
  show "borrowed vs0 fi vs1" if "borrowed vs0 fi vs" "prepared vs vs1" for fi vs vs1
    using that kept_prepared [of fi vs0 vs vs1] by (simp add: borrowed_def)
  show "borrowed vs0 fi (fst (patchVirtualServiceHTTP vs (fiRuleNamePrefix fi) []))" if "borrowed vs0 fi vs" for fi vs
    using that kept_remove [OF _ remove_update_patch] by (simp add: borrowed_def)
  show "borrowed vs0 fi' = borrowed vs0 fi" if "fiName fi' = fiName fi" for fi' fi
    by (simp add: fun_eq_iff borrowed_def same_name [OF that])
qed (auto simp: borrowed_def kept_stored kept_patch dest: kept_managed)

lemma user_rules_all:
  "list_all (\<lambda>x. \<not> injected (fiRuleNamePrefix fi) x) (http_of vs) \<Longrightarrow> user_rules fi vs = http_of vs"
  by (simp add: user_rules_def filter_id_conv list_all_iff)

lemma no_trace:
  assumes "vs_store r look ns n" "http_of vs0 \<noteq> []" "\<not> managed_by_fi fi vs0" "fiName fi = n"
    and "list_all (\<lambda>x. \<not> injected (fiRuleNamePrefix fi) x) (http_of vs0)"
    and "look w (splitKey key) = Some vs0" "history r look ns n (splitKey key) w (world s)"
    and "fst (rcGetFI r ns n (world s)) = Inr fi" "dated fi"
    and "has_to_end (fst (rcNow r (snd (rcGetFI r ns n (world s))))) fi"
    and "key \<in> set (spec_targets fi)" "snd (result_of (Reconcile r ns n) s) = None"
  shows "\<exists>vs. look (world (snd (run_state (Reconcile r ns n) s))) (splitKey key) = Some vs
    \<and> http_of vs = http_of vs0 \<and> kept fi vs0 vs"
proof -
  have u: "user_rules fi vs0 = http_of vs0" by (rule user_rules_all [OF assms(5)])
  let ?w = "world (snd (run_state (Reconcile r ns n) s))"
  have "slot look (borrowed vs0 fi) (splitKey key) w"
    using assms(2,3,6) u by (simp add: slot_holds_def borrowed_def kept_refl)
  then have "slot look (borrowed vs0 fi) (splitKey key) (world s)"
    by (rule lent.history_holds [OF assms(1,4) _ assms(7)])
  then have "slot look (borrowed vs0 fi) (splitKey key) ?w"
    by (rule tripleD [OF lent.slot_Reconcile [OF assms(1,4)]])
  then obtain vs where vs: "look ?w (splitKey key) = Some vs" "kept fi vs0 vs"
    by (auto simp: slot_holds_def borrowed_def split: option.splits)
  have "targets_clean look fi ?w"
    by (rule reconcile_ends_clean [OF store_documented(1) [OF assms(1)] assms(8-10,12)])
  then have "slot_clean fi (Some vs)"
    using assms(11) vs(1) unfolding targets_clean_def target_clean_def by (auto simp: list_all_iff)
  then have "list_all (\<lambda>x. \<not> injected (fiRuleNamePrefix fi) x) (http_of vs)"
    using kept_managed [OF vs(2)] assms(3) by (simp add: slot_clean_Some)
  then have "http_of vs = user_rules fi vs" by (simp add: user_rules_all)
  then have "http_of vs = http_of vs0" using vs(2) u by (simp add: kept_def)
  then show ?thesis using vs by blast
qed

end
