(* ===== verification/Running.thy ===== *)
theory Running
  imports Cluster
begin

text \<open>
  What a reconcile that asks to come back has achieved: every target of the mesh faults holds the
  desired rules at its end. The orphan cleanup, the status updates and the pod faults that follow
  the application leave them in place.
\<close>

section \<open>The orphan cleanup spares the targets\<close>

text \<open>A slot the cleanup spares: one of the keys still wanted, or an object that is not the operator's.\<close>

definition spared ::
  "('w \<Rightarrow> string \<times> string \<Rightarrow> vsObj option) \<Rightarrow> faultInjection \<Rightarrow> string list \<Rightarrow> string \<Rightarrow> 'w \<Rightarrow> bool" where
  "spared look fi wanted k w \<longleftrightarrow>
     k \<in> set wanted \<or> slot look (\<lambda>vs. \<not> managed_by_fi fi vs) (splitKey k) w"

lemma delete_elsewhere:
  assumes "vs_store r look ns n" "vs_key vs \<noteq> k"
  shows "holds_on (\<lambda>w. J (look w k)) (deleteVS r vs)"
proof -
  have "look (snd (rcDeleteVS r vs w)) k = look w k" for w using assms unfolding vs_store_def by metis
  then show ?thesis unfolding call_defs by (intro triple_call) simp
qed

lemma orphan_loop_spares:
  assumes "vs_store r look ns n" "\<forall>vs \<in> set vss. vs_key vs = k \<longrightarrow> joinKey (oNamespace (vsMeta vs)) (oName (vsMeta vs)) \<in> set wanted"
  shows "holds_on (\<lambda>w. J (look w k)) (orphan_loop r wanted vss)"
  using assms(2)
proof (induction vss)
  case (Cons vs vss)
  have del: "holds_on (\<lambda>w. J (look w k)) (deleteVS r vs)"
    if "joinKey (oNamespace (vsMeta vs)) (oName (vsMeta vs)) \<notin> set wanted"
    using Cons.prems that by (intro delete_elsewhere [OF assms(1)]) auto
  have rest: "holds_on (\<lambda>w. J (look w k)) (orphan_loop r wanted vss)" using Cons by simp
  show ?case unfolding orphan_loop.simps by (intro triple_intro rest del) simp_all
qed (simp add: triple_def)

lemma orphans_spare:
  assumes "vs_store r look ns n" "CHR ''/'' \<in> set k"
  shows "triple (\<lambda>w. J (look w (splitKey k)) \<and> spared look fi wanted k w)
    (cleanupOrphanedManagedVS r fi wanted) (\<lambda>_ w. J (look w (splitKey k)))"
proof -
  let ?ls = "[(''managed-by'', ''fi-operator''), (''chaos.sghaida.io/fi'', fiName fi)]"
  let ?safe = "\<lambda>vss. \<forall>vs \<in> set vss. vs_key vs = splitKey k \<longrightarrow> joinKey (oNamespace (vsMeta vs)) (oName (vsMeta vs)) \<in> set wanted"
  have list: "triple (\<lambda>w. J (look w (splitKey k)) \<and> spared look fi wanted k w) (listVS r a ?ls)
      (\<lambda>l w. J (look w (splitKey k)) \<and> (case l of Inl _ \<Rightarrow> True | Inr vss \<Rightarrow> ?safe vss))" for a
    unfolding call_defs
  proof (rule triple_call)
    fix w assume w: "J (look w (splitKey k)) \<and> spared look fi wanted k w"
    have "keeps_vs look (rcListVS r a ?ls)" using store_documented(1) [OF assms(1)] unfolding vs_server_def by blast
    then have same: "look (snd (rcListVS r a ?ls w)) = look w" by (simp add: keeps_vs_def)
    have "list_law look ?ls (rcListVS r a ?ls)" using assms(1) unfolding vs_store_def by blast
    then have law: "case fst (rcListVS r a ?ls w) of
        Inr vss \<Rightarrow> (\<forall>vs \<in> set vss. look w (vs_key vs) = Some vs \<and> managed_by_fi fi vs) | Inl _ \<Rightarrow> True"
      unfolding list_law_def by (drule_tac x = w in spec) (simp add: managed_by_fi_def split: sum.splits)
    have "?safe vss" if "fst (rcListVS r a ?ls w) = Inr vss" for vss
    proof (intro ballI impI)
      fix vs assume vs: "vs \<in> set vss" "vs_key vs = splitKey k"
      have "\<not> slot look (\<lambda>vs. \<not> managed_by_fi fi vs) (splitKey k) w"
        using law that vs by (auto simp: slot_holds_def)
      then have "k \<in> set wanted" using w by (simp add: spared_def)
      moreover have "joinKey (oNamespace (vsMeta vs)) (oName (vsMeta vs)) = k"
        using splitKey_slash [OF assms(2)] vs(2) by (metis joinKey_def vs_key_def)
      ultimately show "joinKey (oNamespace (vsMeta vs)) (oName (vsMeta vs)) \<in> set wanted" by simp
    qed
    then show "J (look (snd (rcListVS r a ?ls w)) (splitKey k))
        \<and> (case fst (rcListVS r a ?ls w) of Inl _ \<Rightarrow> True | Inr vss \<Rightarrow> ?safe vss)"
      using w by (simp add: same split: sum.split)
  qed
  show ?thesis
    unfolding cleanupOrphanedManagedVS_def
    by (rule triple_bind [OF list], rule triple_case_sum, rule triple_return, simp, simp, rule triple_fact,
        rule orphan_loop_spares [OF assms(1)])
qed

section \<open>The application\<close>

text \<open>The targets of the mesh faults hold the desired rules.\<close>

definition faults_live ::
  "('w \<Rightarrow> string \<times> string \<Rightarrow> vsObj option) \<Rightarrow> faultInjection \<Rightarrow> vsDesired gomap \<Rightarrow> 'w \<Rightarrow> bool" where
  "faults_live look fi m w \<longleftrightarrow>
     list_all (\<lambda>a. case action_target fi a of None \<Rightarrow> True | Some k \<Rightarrow> target_live look fi (desired_at k m) k w) (meshFaults fi)"

text \<open>The objects that INBOUND actions refer to are there, and not the operator's own.\<close>

definition inbound_foreign ::
  "('w \<Rightarrow> string \<times> string \<Rightarrow> vsObj option) \<Rightarrow> faultInjection \<Rightarrow> 'w \<Rightarrow> bool" where
  "inbound_foreign look fi w \<longleftrightarrow>
     list_all (\<lambda>a. maDirection a = INBOUNDDirection \<longrightarrow>
       (case action_target fi a of None \<Rightarrow> True
        | Some k \<Rightarrow> slot look (\<lambda>vs. \<not> managed_by_fi fi vs) (splitKey k) w)) (meshFaults fi)"

text \<open>A result that asks to come back after some time, without an error.\<close>

definition comes_back :: "ctrlResult \<times> goerr option \<Rightarrow> bool" where
  "comes_back x \<longleftrightarrow> snd x = None \<and> crRequeueAfter (fst x) \<noteq> 0"

text \<open>If the result asks to come back, the targets hold the desired rules.\<close>

definition back_live ::
  "('w \<Rightarrow> string \<times> string \<Rightarrow> vsObj option) \<Rightarrow> faultInjection \<Rightarrow> ctrlResult \<times> goerr option \<Rightarrow> 'w \<Rightarrow> bool" where
  "back_live look fi x w \<longleftrightarrow> (comes_back x \<longrightarrow>
     (\<exists>m mg. buildDesiredByVSTarget fi = Some (m, mg) \<and> faults_live look fi m w))"

lemma triple_over_list:
  "(\<And>a. a \<in> set as \<Longrightarrow> holds_on (P a) m) \<Longrightarrow> holds_on (\<lambda>w. list_all (\<lambda>a. P a w) as) m"
  by (induction as) (auto simp: triple_def)

lemma inbound_kept:
  assumes "vs_store r look ns n" "buildDesiredByVSTarget fi = Some (m, mg)"
  shows "holds_on (inbound_foreign look fi) (applyDesiredTargets r fi m)"
proof -
  have "holds_on (\<lambda>w. maDirection a = INBOUNDDirection \<longrightarrow> (case action_target fi a of None \<Rightarrow> True
      | Some k \<Rightarrow> slot look (\<lambda>vs. \<not> managed_by_fi fi vs) (splitKey k) w)) (applyDesiredTargets r fi m)" for a
  proof (cases "maDirection a = INBOUNDDirection")
    case True
    show ?thesis
    proof (cases "action_target fi a")
      case (Some k)
      show ?thesis
        using True Some foreign.slot_applyDesired [OF assms, where k = "splitKey k"] by simp
    qed (simp add: triple_def)
  qed (simp add: triple_def)
  then show ?thesis unfolding inbound_foreign_def [abs_def] by (rule triple_over_list)
qed

lemma orphans_keep_live:
  assumes "vs_store r look ns n" "buildDesiredByVSTarget fi = Some (m, mg)"
  shows "triple (\<lambda>w. faults_live look fi m w \<and> inbound_foreign look fi w) (cleanupOrphanedManagedVS r fi mg)
    (\<lambda>_. faults_live look fi m)"
proof -
  have one: "triple (\<lambda>w. faults_live look fi m w \<and> inbound_foreign look fi w) (cleanupOrphanedManagedVS r fi mg)
      (\<lambda>_ w. case action_target fi a of None \<Rightarrow> True | Some k \<Rightarrow> target_live look fi (desired_at k m) k w)"
    if a: "a \<in> set (meshFaults fi)" for a
  proof (cases "action_target fi a")
    case (Some k)
    let ?J = "\<lambda>x. case x of None \<Rightarrow> False | Some vs \<Rightarrow> reads_desired fi (desired_at k m) vs"
    have live: "target_live look fi (desired_at k m) k w \<longleftrightarrow> ?J (look w (splitKey k))" for w
      by (simp add: target_live_def)
    have key: "CHR ''/'' \<in> set k" using Some by (auto simp: action_target_def joinKey_def split: if_splits)
    obtain m0 where loop: "desired_loop fi (meshFaults fi) [] [] = Some (m0, mg)"
      using assms(2) by (auto simp: buildDesiredByVSTarget_def)
    have "maDirection a = INBOUNDDirection \<or> maDirection a = OUTBOUNDDirection"
      using Some by (auto simp: action_target_def split: if_splits)
    then have spare: "spared look fi mg k w" if "inbound_foreign look fi w" for w
      using that a Some desired_loop_managed [OF loop] by (auto simp: spared_def inbound_foreign_def list_all_iff)
    have "triple (\<lambda>w. faults_live look fi m w \<and> inbound_foreign look fi w) (cleanupOrphanedManagedVS r fi mg)
        (\<lambda>_ w. ?J (look w (splitKey k)))"
      by (rule triple_conseq [OF orphans_spare [OF assms(1) key, where J = ?J and fi = fi and wanted = mg]])
        (use spare a Some in \<open>auto simp: faults_live_def list_all_iff live\<close>)
    then show ?thesis by (simp add: Some live)
  qed (simp add: triple_def)
  show ?thesis
    using one unfolding faults_live_def list_all_iff triple_def by blast
qed

lemma triple_any: "(\<And>a. triple (\<lambda>_. True) (f a) Q) \<Longrightarrow> triple P (State_Monad.bind m f) Q"
  by (rule triple_bind [where R = "\<lambda>_ _. True"]) (simp_all add: triple_def)

text \<open>The other ways through the reconcile never come back by themselves.\<close>

lemma no_way_back: "\<not> comes_back (no_requeue, e)"
  by (simp add: comes_back_def no_requeue_def)

lemma ends_stay:
  "triple P (handleCancellation r ns n fi now) (\<lambda>x w. \<not> comes_back x)"
  "triple P (handleExpiry r fi) (\<lambda>x w. \<not> comes_back x)"
  "triple P (handleValidationError r fi e) (\<lambda>x w. \<not> comes_back x)"
  unfolding handleCancellation_def handleExpiry_def handleValidationError_def
  by (intro triple_if triple_any triple_case_option triple_return; simp only: no_way_back simp_thms)+

lemma apply_step_live:
  assumes "vs_store r look ns n"
  shows "triple (inbound_foreign look fi) (apply_step r ns n fi now)
    (back_live look fi)"
    (is "triple _ _ ?Q")
proof -
  note vs = store_documented [OF assms]
  have stay: "triple P (State_Monad.return (no_requeue, e)) ?Q" for P e
    by (rule triple_return) (simp add: no_way_back back_live_def)
  show ?thesis
  proof (cases "buildDesiredByVSTarget fi")
    case None
    show ?thesis unfolding apply_step_def None option.case by (rule stay)
  next
    case (Some x)
    obtain m mg where x: "x = (m, mg)" by fastforce
    note built = Some [unfolded x]
    let ?I = "\<lambda>v. list_all (\<lambda>a. case action_target fi a of None \<Rightarrow> True | Some k \<Rightarrow>
      (case v (splitKey k) of None \<Rightarrow> False | Some vs \<Rightarrow> reads_desired fi (desired_at k m) vs)) (meshFaults fi)"
    have live: "faults_live look fi m = (\<lambda>w. ?I (look w))"
      unfolding faults_live_def [abs_def] target_live_def ..
    have run: "holds_on (faults_live look fi m) (run_step r ns n fi now)"
      unfolding run_step_def live
      by (intro triple_intro checks_keep [OF assms, where I = ?I] pods_keep [OF assms, where I = ?I]
          server_keeps [OF vs(1), where I = ?I]) simp_all
    have run': "triple (faults_live look fi m) (run_step r ns n fi now) ?Q"
      by (rule triple_conseq [OF run]) (use built in \<open>auto simp: back_live_def\<close>)
    have applied: "triple (inbound_foreign look fi) (applyDesiredTargets r fi m)
        (\<lambda>x w. inbound_foreign look fi w \<and> (x = Inr False \<longrightarrow> faults_live look fi m w))"
      by (rule triple_conseq [OF triple_conj [OF inbound_kept [OF assms built]
            applyDesired_live [OF vs built, where P = "inbound_foreign look fi"]]])
        (auto simp: faults_live_def list_all_iff)
    have orphans: "triple (\<lambda>w. inbound_foreign look fi w \<and> faults_live look fi m w)
        (cleanupOrphanedManagedVS r fi mg) (\<lambda>_. faults_live look fi m)"
      by (rule triple_conseq [OF orphans_keep_live [OF assms built]]) simp_all
    show ?thesis
      unfolding apply_step_def built option.case prod.case
    proof (rule triple_bind [OF applied], rule triple_case_sum, rule stay, rule triple_if, rule stay, goal_cases)
      case (1 a stop)
      show ?case
        unfolding 1(1)
        apply (rule triple_conseq [where P' = "\<lambda>w. inbound_foreign look fi w \<and> faults_live look fi m w", rotated])
        using 1(2) apply simp
         apply assumption
        apply (rule triple_bind [OF orphans], rule triple_bind [where R = "\<lambda>_. faults_live look fi m"])
         apply (intro triple_intro; assumption)
        apply (rule run')
        done
    qed
  qed
qed

lemma loaded_live:
  assumes "vs_store r look ns n"
  shows "triple (inbound_foreign look fi) (reconcile_loaded r ns n fi now)
    (back_live look fi)"
    (is "triple _ _ ?Q")
proof -
  have stay: "triple P m ?Q" if "triple P m (\<lambda>x w. \<not> comes_back x)" for P m
    by (rule triple_conseq [OF that]) (simp_all add: back_live_def)
  let ?I = "\<lambda>v. list_all (\<lambda>a. maDirection a = INBOUNDDirection \<longrightarrow>
       (case action_target fi a of None \<Rightarrow> True
        | Some k \<Rightarrow> slot_holds (\<lambda>vs. \<not> managed_by_fi fi vs) (v (splitKey k)))) (meshFaults fi)"
  have inb: "inbound_foreign look fi = (\<lambda>w. ?I (look w))" unfolding inbound_foreign_def [abs_def] ..
  have life: "triple P (do {
        (_, changed) \<leftarrow> ensureLifecycle r fi;
        State_Monad.return
          (if changed then (\<lparr>crRequeue = True, crRequeueAfter = 0\<rparr>, None) else (no_requeue, None)) })
      (\<lambda>x w. \<not> comes_back x)" for P
    by (intro triple_any triple_case_prod triple_return) (simp add: comes_back_def no_requeue_def)
  have check: "holds_on (inbound_foreign look fi) (validateSpec r fi)"
    unfolding inb by (rule checks_keep(1) [OF assms, where I = ?I])
  show ?thesis
    unfolding reconcile_loaded_def
    by (intro triple_if stay ends_stay life triple_bind [OF check] triple_case_option apply_step_live [OF assms])
qed

lemma back_is_live:
  assumes "vs_store r look ns n" "fst (rcGetFI r ns n (world s)) = Inr fi" "dated fi"
    and "inbound_foreign look fi (world s)" "comes_back (result_of (Reconcile r ns n) s)"
  shows "\<exists>m mg. buildDesiredByVSTarget fi = Some (m, mg)
    \<and> faults_live look fi m (world (snd (run_state (Reconcile r ns n) s)))"
proof -
  let ?Q = "back_live look fi"
  let ?I = "\<lambda>v. list_all (\<lambda>a. maDirection a = INBOUNDDirection \<longrightarrow>
       (case action_target fi a of None \<Rightarrow> True
        | Some k \<Rightarrow> slot_holds (\<lambda>vs. \<not> managed_by_fi fi vs) (v (splitKey k)))) (meshFaults fi)"
  have inb: "inbound_foreign look fi = (\<lambda>w. ?I (look w))" unfolding inbound_foreign_def [abs_def] ..
  let ?s1 = "snd (run_state (getFI r ns n) s)"
  have g: "result_of (getFI r ns n) s = Inr fi"
    using assms(2) by (auto simp: getFI_def call_def result_of_def split: prod.split)
  have 1: "inbound_foreign look fi (world ?s1)"
    using tripleD [OF store_getFI [OF assms(1), where I = ?I], where s = s] assms(4)
    unfolding inb by blast
  have life: "triple (inbound_foreign look fi) (ensureLifecycle r fi)
      (\<lambda>x w. inbound_foreign look fi w \<and> x = (fi, False))"
  proof -
    have "result_of (ensureLifecycle r fi) t = (fi, False)" for t
      by (simp add: ensureLifecycle_result lifecycle_dated [OF assms(3)])
    then show ?thesis
      using lifecycle_keeps [OF assms(1), where I = ?I and fi = fi] unfolding inb triple_def result_of_def by simp
  qed
  have now: "holds_on (inbound_foreign look fi) (time_now r)"
    unfolding inb by (rule store_keeps(1) [OF assms(1), where I = ?I])
  let ?rest = "do {
      now \<leftarrow> time_now r;
      (fi1, changed) \<leftarrow> ensureLifecycle r fi;
      (if changed then do {
         u \<leftarrow> update_status r ns n (\<lambda>st. Some (lifecycle_status fi1 st));
         (case u of
            Some e \<Rightarrow> do {
              eventf r ''Warning'' ''StatusUpdateFailed'' ''status-update'';
              State_Monad.return (no_requeue, Some e)
            }
          | None \<Rightarrow> do {
              g2 \<leftarrow> getFI r ns n;
              (case g2 of
                 Inl e \<Rightarrow> State_Monad.return (no_requeue, ignoreNotFound e)
               | Inr fi2 \<Rightarrow> reconcile_loaded r ns n fi2 now)
            })
       }
       else reconcile_loaded r ns n fi1 now) }"
  have rest: "triple (inbound_foreign look fi) ?rest ?Q"
    apply (rule triple_bind [OF now], rule triple_bind [OF life], rule triple_fact)
    apply (simp only: prod.case if_False)
    apply (rule loaded_live [OF assms(1)])
    done
  have run: "run_state (Reconcile r ns n) s = run_state ?rest ?s1"
    by (simp only: Reconcile_def result_bind_run g sum.case)
  show ?thesis
    using tripleD [OF rest 1] assms(5) unfolding result_of_def run back_live_def by blast
qed

end
