(* ===== verification/Watch.thy ===== *)
theory Watch
  imports Outcomes
begin

text \<open>
  The registration with the manager, the last statement of \<open>SetupWithManager\<close>: which objects the
  controller watches, and that what it creates comes back to it. How controller-runtime turns an
  event into requests is a parameter.
\<close>

section \<open>Registration\<close>

datatype objKind = KFaultInjection | KJob | KLease | KVirtualService | KPod | KDeployment

record registration =
  rgFor :: objKind
  rgOwns :: "objKind list"
  rgNamed :: string

definition controller_registration :: registration where
  "controller_registration = \<lparr>rgFor = KFaultInjection, rgOwns = [KJob, KLease], rgNamed = ''faultinjection''\<rparr>"

text \<open>
  What controller-runtime documents: an event on a watched object makes a request of its own name
  for the kind of \<open>For\<close>, and one for the controller among its owners for a kind of \<open>Owns\<close>.
\<close>

definition watch_law :: "registration \<Rightarrow> (objKind \<Rightarrow> objMeta \<Rightarrow> (string \<times> string) set) \<Rightarrow> bool" where
  "watch_law g requests \<longleftrightarrow>
     (\<forall>m. (oNamespace m, oName m) \<in> requests (rgFor g) m)
     \<and> (\<forall>kind \<in> set (rgOwns g). \<forall>m. \<forall>ow \<in> set (oOwners m).
          orController ow \<and> orKind ow = ''FaultInjection'' \<longrightarrow> (oNamespace m, orName ow) \<in> requests kind m)"

text \<open>
  What \<open>SetControllerReference\<close> documents: it adds the owner as the controller and changes neither
  name nor namespace; an owner in another namespace is an error.
\<close>

definition owner_law :: "'w reconciler \<Rightarrow> bool" where
  "owner_law r \<longleftrightarrow>
     (\<forall>owner m. case rcSetControllerReference r owner m of
        Inl _ \<Rightarrow> True
      | Inr m' \<Rightarrow> oNamespace m' = oNamespace m \<and> oName m' = oName m \<and> oNamespace owner = oNamespace m
          \<and> (\<exists>ow \<in> set (oOwners m'). orController ow \<and> orKind ow = ''FaultInjection''
               \<and> orName ow = oName owner \<and> orUID ow = oUID owner))"

section \<open>Owned objects\<close>

text \<open>A new Job or VirtualService has the owner reference of the FaultInjection, and a VirtualService the spec of the code.\<close>

definition owned :: "'w reconciler \<Rightarrow> faultInjection \<Rightarrow> op \<Rightarrow> bool" where
  "owned r fi x \<longleftrightarrow>
     (case x of
        OpCreateJob j _ \<Rightarrow> rcScheme r \<longrightarrow> (\<exists>m. rcSetControllerReference r (fiMeta fi) m = Inr (jbMeta j))
      | OpCreateVS vs _ \<Rightarrow> (\<exists>m. rcSetControllerReference r (fiMeta fi) m = Inr (vsMeta vs))
          \<and> (\<exists>ns n d. vsSpec vs = vsSpec (new_managed_vs fi ns n d))
      | _ \<Rightarrow> True)"

definition owned_law :: "'w reconciler \<Rightarrow> op list \<Rightarrow> op \<Rightarrow> bool" where
  "owned_law r before x \<longleftrightarrow>
     (case x of OpCreateJob _ _ \<Rightarrow> (\<exists>fi. got before fi \<and> owned r fi x)
      | OpCreateVS _ _ \<Rightarrow> (\<exists>fi. got before fi \<and> owned r fi x)
      | _ \<Rightarrow> True)"

lemma owned_quiet: "\<not> injects x \<Longrightarrow> owned r fi x" "\<not> injects x \<Longrightarrow> owned_law r before x"
  by (cases x; simp add: owned_def owned_law_def)+

lemma emits_owned_quiet: "emits (\<lambda>x. \<not> injects x) m \<Longrightarrow> emits (owned r fi) m"
  by (erule emits_mono) (erule owned_quiet(1))

lemma owned_lease: "lease_op x \<Longrightarrow> owned r fi x"
  by (cases x) (simp_all add: owned_def)

lemma emits_owned_event [always_intro]: "emits (owned r fi) (eventf r' t x a)"
  by (rule emits_owned_quiet [OF quiet_events])

lemma emits_owned_status [always_intro]: "emits (owned r fi) (update_status r' ns n edit)"
  by (rule emits_owned_quiet [OF quiet_status])

lemma emits_owned_job: "emits (owned r fi) (createPodFaultJobIfNotExists r fi p)"
  unfolding createPodFaultJobIfNotExists_def call_defs
  by (intro always_intro always_call) (auto simp: owned_def split: if_splits)

lemma emits_owned_pods: "emits (owned r fi) (applyPodFaults r fi now)"
proof -
  have lease: "emits (owned r fi) (tryAcquireOrTakeoverLease r fi p now)" for p
    by (rule emits_mono [OF emits_lease owned_lease])
  have launch: "emits (owned r fi) (launch_step r fi p now)" for p
    unfolding launch_step_def start_job_def recordPodFaultPlanned_def unless_panic_def
    by (intro always_intro lease emits_owned_job)
  have select: "emits (owned r fi) (select_step r fi p now)" for p
    unfolding select_step_def select_from_def listCandidatePods_def setFIStatusPhaseMessage_def call_defs Let_def
    by (intro always_intro always_call launch) (simp add: owned_def)
  have body: "emits (owned r fi) (plan_body r fi now p)" for p
    unfolding plan_body_def job_complete_step_def job_failed_step_def recordPodFaultExecuted_def
      setFIStatusPhaseMessage_def call_defs
    by (intro always_intro always_call select) (simp_all add: owned_def)
  have loop: "emits (owned r fi) (plans_loop r fi now ps b)" for ps b
    by (induction ps arbitrary: b) (auto intro!: always_intro body)
  show ?thesis unfolding applyPodFaults_def Let_def by (intro always_intro loop)
qed

lemma emits_owned_mesh: "emits (owned r fi) (applyDesiredTargets r fi m)"
proof -
  have target: "emits (owned r fi) (apply_target r fi k d)" for k d
    unfolding apply_target_def inject_target_def patch_target_def getOrCreateVirtualService_def call_defs Let_def
    by (intro always_intro always_call) (auto simp: owned_def)
  have "emits (owned r fi) (apply_loop r fi m ks)" for ks
    by (induction ks) (auto intro!: always_intro target)
  then show ?thesis by (simp add: applyDesiredTargets_def)
qed

section \<open>The whole reconcile\<close>

lemma after_owned: "list_all (owned r fi) ops \<Longrightarrow> got pre fi \<Longrightarrow> after (owned_law r) pre ops"
proof (induction ops arbitrary: pre)
  case (Cons x ops)
  have "owned_law r pre x" using Cons.prems by (cases x) (auto simp: owned_law_def)
  then show ?case using Cons by simp
qed simp

lemma runs_owned: "emits (owned r fi) m \<Longrightarrow> got pre fi \<Longrightarrow> runs m (\<lambda>_ ops. after (owned_law r) pre ops)"
  by (drule always_runs, erule runs_conseq) (erule after_owned)

lemma runs_unowned: "emits (\<lambda>x. \<not> injects x) m \<Longrightarrow> runs m (\<lambda>_ ops. after (owned_law r) pre ops)"
  by (drule always_runs, erule runs_conseq, rule after_free) (auto simp: list_all_iff owned_quiet(2))

lemma unowned_mono: "emits A m \<Longrightarrow> (\<And>x. A x \<Longrightarrow> \<not> injects x) \<Longrightarrow> runs m (\<lambda>_ ops. after (owned_law r) pre ops)"
  by (rule runs_unowned) (erule emits_mono)

lemma runs_owned_read:
  "runs (getFI r ns n) (\<lambda>g ops. after (owned_law r) pre ops \<and> (\<forall>fi. g = Inr fi \<longrightarrow> got ops fi))"
  by (rule runs_getFI) (auto simp: owned_law_def got_def)

lemma runs_owned_return: "runs (State_Monad.return v) (\<lambda>_ ops. after (owned_law r) pre ops)"
  by (rule runs_return) simp

lemma quiet_running: "emits (\<lambda>x. \<not> injects x) (markRunning r fi)"
proof -
  have attempt: "emits (\<lambda>x. \<not> injects x) (running_attempt r fi b)" for b
    unfolding running_attempt_def call_defs by (intro always_intro always_call) simp_all
  show ?thesis unfolding markRunning_def by (intro always_intro attempt)
qed

lemma quiet_orphans: "emits (\<lambda>x. \<not> injects x) (cleanupOrphanedManagedVS r fi wanted)"
proof -
  have "emits (\<lambda>x. \<not> injects x) (orphan_loop r wanted vss)" for vss
  proof (induction vss)
    case (Cons vs vss)
    then show ?case unfolding orphan_loop.simps call_defs by (intro always_intro always_call) simp_all
  qed (simp add: each.always_return)
  then show ?thesis
    unfolding cleanupOrphanedManagedVS_def call_defs by (intro always_intro always_call) simp_all
qed

lemma runs_owned_run_step: "runs (run_step r ns n fi now) (\<lambda>_ ops. after (owned_law r) pre ops)"
proof -
  have requeue: "runs (requeue_step r fi' due) (\<lambda>_ ops. after (owned_law r) pre' ops)" for fi' due pre'
    unfolding requeue_step_def time_until_def by (intro runs_unowned always_intro)
  show ?thesis
    unfolding run_step_def
    apply (rule runs_seq [OF runs_unowned [OF quiet_running]], rule runs_case_option)
     apply (rule runs_bind_after [OF runs_owned_read], rule runs_case_sum, rule runs_owned_return)
     apply (rule runs_seq [OF runs_owned [OF emits_owned_pods]], simp)
     apply (intro runs_case_prod runs_case_option runs_if runs_owned_return requeue)
    apply (rule runs_owned_return)
    done
qed

lemma runs_owned_apply_step:
  assumes "got pre fi"
  shows "runs (apply_step r ns n fi now) (\<lambda>_ ops. after (owned_law r) pre ops)"
  unfolding apply_step_def
  apply (rule runs_case_option, rule runs_owned_return, rule runs_case_prod)
  apply (rule runs_seq [OF runs_owned [OF emits_owned_mesh assms]])
  apply (rule runs_case_sum, rule runs_owned_return, rule runs_if, rule runs_owned_return)
  apply (rule runs_seq [OF runs_unowned [OF quiet_orphans]], rule runs_seq, rule runs_unowned)
   apply (intro always_intro)
  apply (rule runs_owned_run_step)
  done

lemma runs_owned_loaded:
  assumes "got pre fi"
  shows "runs (reconcile_loaded r ns n fi now) (\<lambda>_ ops. after (owned_law r) pre ops)"
proof -
  have life: "runs (ensureLifecycle r fi) (\<lambda>_ ops. after (owned_law r) pre' ops)" for pre'
    by (rule unowned_mono [OF emits_lifecycle event_op_not_injects])
  have check: "runs (validateSpec r fi) (\<lambda>_ ops. after (owned_law r) pre' ops)" for pre'
    by (rule unowned_mono [OF emits_validateSpec]) (simp add: quiet_kinds)
  show ?thesis
    unfolding reconcile_loaded_def
    apply (rule runs_if, rule runs_unowned [OF quiet_ends(1)])
    apply (rule runs_if, rule runs_seq [OF life], rule runs_case_prod, rule runs_owned_return)
    apply (rule runs_if, rule runs_unowned [OF quiet_ends(2)])
    apply (rule runs_seq [OF check], rule runs_case_option)
     apply (rule runs_owned_apply_step, simp add: assms)
    apply (rule runs_unowned [OF quiet_ends(3)])
    done
qed

lemma runs_owned_Reconcile: "runs (Reconcile r ns n) (\<lambda>_ ops. after (owned_law r) [] ops)"
proof -
  have life: "runs (ensureLifecycle r fi) (\<lambda>x ops. after (owned_law r) pre ops \<and> (\<not> snd x \<longrightarrow> fst x = fi))" for fi pre
    by (rule runs_conseq [OF runs_conj [OF unowned_mono [OF emits_lifecycle event_op_not_injects, where r = r] lifecycle_unchanged]])
      (auto split: if_splits)
  have ev: "runs (do { eventf r t x a; State_Monad.return v }) (\<lambda>_ ops. after (owned_law r) pre ops)"
    for t x a pre and v :: "ctrlResult \<times> goerr option"
    by (intro runs_unowned always_intro)
  have now: "runs (time_now r) (\<lambda>_ ops. after (owned_law r) pre ops)" for pre
    by (rule runs_time_now) simp
  show ?thesis
    unfolding Reconcile_def
    apply (rule runs_bind_after [OF runs_owned_read], rule runs_case_sum, rule runs_owned_return)
    apply (rule runs_seq [OF now], rule runs_bind_after [OF life], rule runs_case_prod)
    apply (rule runs_if, rule runs_seq [OF runs_unowned [OF quiet_status]], rule runs_case_option)
      apply (rule runs_bind_after [OF runs_owned_read], rule runs_case_sum, rule runs_owned_return)
      apply (rule runs_owned_loaded, simp)
     apply (rule ev)
    apply (rule runs_owned_loaded, simp)
    done
qed

section \<open>Events come back\<close>

text \<open>An event on a Job makes a request of the FaultInjection it was created for.\<close>

definition wakes :: "(objKind \<Rightarrow> objMeta \<Rightarrow> (string \<times> string) set) \<Rightarrow> op list \<Rightarrow> op \<Rightarrow> bool" where
  "wakes requests before x \<longleftrightarrow>
     (case x of
        OpCreateJob j _ \<Rightarrow> (\<exists>fi. got before fi \<and> (fiNamespace fi, fiName fi) \<in> requests KJob (jbMeta j))
      | _ \<Rightarrow> True)"

lemma owned_wakes:
  assumes "watch_law controller_registration requests" "owner_law r" "rcScheme r" "owned_law r before x"
  shows "wakes requests before x"
proof (cases x)
  case (OpCreateJob j e)
  then obtain fi m where fi: "got before fi" "rcSetControllerReference r (fiMeta fi) m = Inr (jbMeta j)"
    using assms(3,4) by (auto simp: owned_law_def owned_def)
  have "case rcSetControllerReference r (fiMeta fi) m of Inl _ \<Rightarrow> True
      | Inr m' \<Rightarrow> oNamespace m' = oNamespace m \<and> oName m' = oName m \<and> fiNamespace fi = oNamespace m
          \<and> (\<exists>ow \<in> set (oOwners m'). orController ow \<and> orKind ow = ''FaultInjection''
               \<and> orName ow = fiName fi \<and> orUID ow = fiUID fi)"
    using assms(2) unfolding owner_law_def by blast
  then obtain ow where ow: "oNamespace (jbMeta j) = fiNamespace fi" "ow \<in> set (oOwners (jbMeta j))" "orController ow"
      "orKind ow = ''FaultInjection''" "orName ow = fiName fi"
    using fi(2) by auto
  have "KJob \<in> set (rgOwns controller_registration)" by (simp add: controller_registration_def)
  then have "(oNamespace (jbMeta j), orName ow) \<in> requests KJob (jbMeta j)"
    using assms(1) ow unfolding watch_law_def by blast
  then show ?thesis using fi(1) ow by (auto simp: OpCreateJob wakes_def)
qed (simp_all add: wakes_def)

lemma created_jobs_wake:
  assumes "watch_law controller_registration requests" "owner_law r" "rcScheme r"
  shows "after (wakes requests) [] (ops_of (Reconcile r ns n) s)"
  by (rule after_weaken [OF runs_ops_of [OF runs_owned_Reconcile]]) (rule owned_wakes [OF assms])

end
