(* ===== verification/Returns.thy ===== *)
theory Returns
  imports Progress Running Watch
begin

text \<open>
  A whole reconcile that asks to come back, and the pod faults: every plan of the FaultInjection read
  last is settled or its Job is awaited, and the delay it returns leads to the next thing to do.
\<close>

section \<open>The clock and the delay\<close>

text \<open>Of two readings of the clock in a row, the second is not earlier.\<close>

definition clock_forward :: "'w reconciler \<Rightarrow> bool" where
  "clock_forward r \<longleftrightarrow> (\<forall>w. fst (rcNow r w) \<le> fst (rcNow r (snd (rcNow r w))))"

text \<open>The delay \<open>d\<close>, counted from the reading \<open>t\<close> of the clock, ends by \<open>T\<close>, or after one second.\<close>

definition back_by :: "time \<Rightarrow> time \<Rightarrow> int \<Rightarrow> bool" where
  "back_by t T d \<longleftrightarrow> d \<le> max second (T - t)"

lemma back_by_mono: "back_by t T d \<Longrightarrow> T \<le> T' \<Longrightarrow> back_by t T' d"
  by (simp add: back_by_def)

lemma requeue_after_back:
  "back_by t1 e (requeue_after t1 t2 t3 e due)"
  "t1 \<le> t2 \<Longrightarrow> t2 \<le> t3 \<Longrightarrow> back_by t1 u (requeue_after t1 t2 t3 e (Some u))"
  by (auto simp: back_by_def requeue_after_def time_sub_def second_def split: option.split)

lemma requeue_step_back:
  assumes "clock_forward r"
  shows "case run_state (requeue_step r fi due) s of (x, s') \<Rightarrow> trace s' = trace s
    \<and> (snd x = None \<longrightarrow>
        (case stExpiresAt (fiStatus fi) of
           None \<Rightarrow> False
         | Some e \<Rightarrow> back_by (fst (rcNow r (world s))) e (crRequeueAfter (fst x)))
        \<and> (case due of None \<Rightarrow> True | Some u \<Rightarrow> back_by (fst (rcNow r (world s))) u (crRequeueAfter (fst x))))"
proof (cases "stExpiresAt (fiStatus fi)")
  case None
  then show ?thesis by (simp add: requeue_step_def)
next
  case (Some e)
  obtain t1 w1 where 1: "rcNow r (world s) = (t1, w1)" by fastforce
  obtain t2 w2 where 2: "rcNow r w1 = (t2, w2)" by fastforce
  obtain t3 w3 where 3: "rcNow r w2 = (t3, w3)" by fastforce
  have "fst (rcNow r w) \<le> fst (rcNow r (snd (rcNow r w)))" for w
    using assms by (simp add: clock_forward_def)
  from this [of "world s"] this [of w1] have le: "t1 \<le> t2" "t2 \<le> t3" by (simp_all add: 1 2 3)
  have no_ops: "runs (requeue_step r fi due) (\<lambda>_ ops. ops = [])"
    unfolding requeue_step_def time_until_def by (intro runs_intro) simp_all
  have "fst (run_state (requeue_step r fi due) s)
      = (\<lparr>crRequeue = False, crRequeueAfter = requeue_after t1 t2 t3 e due\<rparr>, None)"
    using requeue_step_result [OF Some 1 2 3, of due] by (simp add: result_of_def)
  moreover have "trace (snd (run_state (requeue_step r fi due) s)) = trace s"
    using runsD [OF no_ops, of s] by auto
  ultimately show ?thesis
    using requeue_after_back(1) [of t1 e t2 t3 due] requeue_after_back(2) [OF le]
    by (auto simp: Some 1 split: prod.split option.split)
qed

section \<open>The pod faults of a reconcile\<close>

text \<open>The next due time the plans were built with is not forgotten.\<close>

lemma due_kept: "due_within u (Some u)" "due_within u (updateEarliestDue (Some u) x)"
  by (simp_all add: due_within_def updateEarliestDue_def split: option.split)

lemma runs_told_due:
  "runs (applyPodFaults r fi now) (\<lambda>(stop, next, err) ops. stop \<or> err \<noteq> None \<or>
     (case stStartedAt (fiStatus fi) of
        None \<Rightarrow> True
      | Some t0 \<Rightarrow> (case fst (snd (buildPodFaultPlans fi now t0)) of None \<Rightarrow> True | Some u \<Rightarrow> due_within u next)))"
proof (cases "podFaults fi = []")
  case True
  then show ?thesis by (auto simp: applyPodFaults_def buildPodFaultPlans_def intro!: runs_return split: option.split)
next
  case False
  show ?thesis
  proof (cases "stStartedAt (fiStatus fi)")
    case None
    then show ?thesis using False by (auto simp: applyPodFaults_def intro!: runs_return)
  next
    case (Some t0)
    obtain plans due perr where b: "buildPodFaultPlans fi now t0 = (plans, due, perr)" by (cases "buildPodFaultPlans fi now t0") auto
    show ?thesis
    proof (cases perr)
      case None
      show ?thesis
        using False None
        apply (simp add: applyPodFaults_def Some b)
        apply (rule runs_bind, rule runs_conseq [OF runs_told_loop], rule runs_return)
        apply (auto simp: due_kept split: sum.splits option.splits)
        done
    qed (use False in \<open>auto simp: applyPodFaults_def Some b intro!: runs_return\<close>)
  qed
qed

text \<open>
  What is told by a result that asks to come back after \<open>d\<close>, counted from the reading \<open>t\<close> of the
  clock: it leads to the expiry, to the next due tick and, while a Job is awaited, to two seconds after
  the start \<open>now\<close> of the reconcile.
\<close>

definition told_back :: "'w reconciler \<Rightarrow> faultInjection \<Rightarrow> time \<Rightarrow> time \<Rightarrow> int \<Rightarrow> op list \<Rightarrow> bool" where
  "told_back r fi now t d ops \<longleftrightarrow>
     (case stExpiresAt (fiStatus fi) of None \<Rightarrow> False | Some e \<Rightarrow> back_by t e d)
     \<and> (case stStartedAt (fiStatus fi) of
          None \<Rightarrow> True
        | Some t0 \<Rightarrow>
            (case fst (snd (buildPodFaultPlans fi now t0)) of None \<Rightarrow> True | Some u \<Rightarrow> back_by t u d)
            \<and> list_all (\<lambda>p. settled r fi now p ops \<or> awaited fi p ops \<and> back_by t (now + 2 * second) d)
                (fst (buildPodFaultPlans fi now t0)))"

text \<open>
  The turn of the pod faults in a run that ends in \<open>z\<close>: a FaultInjection is read, \<open>applyPodFaults\<close> goes
  through for it, and what is left of the run is the computation of the delay.
\<close>

definition pods_turn ::
  "'w reconciler \<Rightarrow> string \<Rightarrow> string \<Rightarrow> time \<Rightarrow> 'w sys \<Rightarrow> (ctrlResult \<times> goerr option) \<times> 'w sys
   \<Rightarrow> faultInjection \<Rightarrow> op list \<Rightarrow> 'w sys \<Rightarrow> bool" where
  "pods_turn r ns n now s z fi before s1 \<longleftrightarrow>
     trace s1 = trace s @ before @ [OpGetFI ns n (Inr fi)]
     \<and> (\<exists>due. result_of (applyPodFaults r fi now) s1 = (False, due, None)
          \<and> z = run_state (requeue_step r fi due) (snd (run_state (applyPodFaults r fi now) s1)))"

lemma pods_turn_told:
  assumes "clock_forward r" "pods_turn r ns n now s z fi before s1" "comes_back (fst z)"
  shows "trace (snd z) = trace s @ before @ OpGetFI ns n (Inr fi) # ops_of (applyPodFaults r fi now) s1
    \<and> told_back r fi now (fst (rcNow r (world (snd (run_state (applyPodFaults r fi now) s1)))))
        (crRequeueAfter (fst (fst z))) (ops_of (applyPodFaults r fi now) s1)"
proof -
  let ?ops = "ops_of (applyPodFaults r fi now) s1" and ?s2 = "snd (run_state (applyPodFaults r fi now) s1)"
  let ?t = "fst (rcNow r (world ?s2))" and ?d = "crRequeueAfter (fst (fst z))"
  obtain due where s1: "trace s1 = trace s @ before @ [OpGetFI ns n (Inr fi)]"
      and due: "result_of (applyPodFaults r fi now) s1 = (False, due, None)" "z = run_state (requeue_step r fi due) ?s2"
    using assms(2) unfolding pods_turn_def by blast
  obtain x s' where z: "z = (x, s')" by fastforce
  have "snd x = None" "run_state (requeue_step r fi due) ?s2 = (x, s')"
    using assms(3) due(2) by (simp_all add: comes_back_def z)
  with requeue_step_back [OF assms(1), where fi = fi and due = due and s = ?s2]
  have leads: "trace (snd z) = trace ?s2" "case stExpiresAt (fiStatus fi) of None \<Rightarrow> False | Some e \<Rightarrow> back_by ?t e ?d"
      "case due of None \<Rightarrow> True | Some u \<Rightarrow> back_by ?t u ?d"
    unfolding z fst_conv snd_conv by simp_all
  have within: "back_by ?t u ?d" if "due_within u due" for u
    using that leads(3) back_by_mono [of ?t _ ?d u] by (auto simp: due_within_def split: option.splits)
  have told: "case stStartedAt (fiStatus fi) of
        None \<Rightarrow> True
      | Some t0 \<Rightarrow> (case fst (snd (buildPodFaultPlans fi now t0)) of None \<Rightarrow> True | Some u \<Rightarrow> due_within u due)
          \<and> list_all (\<lambda>p. settled r fi now p ?ops \<or> awaited fi p ?ops \<and> due_within (now + 2 * second) due)
          (fst (buildPodFaultPlans fi now t0))"
    using runs_ops_of [OF runs_told_pods [where r = r and fi = fi and now = now], of s1] runs_ops_of [OF runs_told_due [where r = r and fi = fi and now = now], of s1]
    by (cases "stStartedAt (fiStatus fi)") (simp_all add: due(1) split: option.splits)
  have "told_back r fi now ?t ?d ?ops"
    using told leads(2) within unfolding told_back_def list_all_iff by (fastforce split: option.splits)
  moreover have "runs (applyPodFaults r fi now) (\<lambda>_ _. True)" by (rule runs_conseq [OF runs_told_due]) simp
  then have "trace ?s2 = trace s1 @ ?ops" using runs_grows [of _ _ s1] unfolding ops_of_def by fastforce
  ultimately show ?thesis using s1 leads(1) by simp
qed

section \<open>The whole reconcile\<close>

text \<open>Of a computation: it comes back only through the turn of the pod faults.\<close>

definition back_turn :: "'w reconciler \<Rightarrow> string \<Rightarrow> string \<Rightarrow> time \<Rightarrow> ('w, ctrlResult \<times> goerr option) eff \<Rightarrow> bool" where
  "back_turn r ns n now m \<longleftrightarrow>
     (\<forall>s. comes_back (fst (run_state m s)) \<longrightarrow> (\<exists>fi before s1. pods_turn r ns n now s (run_state m s) fi before s1))"

lemma turn_never: "triple (\<lambda>_. True) m (\<lambda>x w. \<not> comes_back x) \<Longrightarrow> back_turn r ns n now m"
  by (simp add: triple_def back_turn_def)

lemma turn_return: "\<not> comes_back x \<Longrightarrow> back_turn r ns n now (State_Monad.return x)"
  by (simp add: back_turn_def)

lemmas turn_stay = turn_return [OF no_way_back]

lemma turn_tail:
  assumes "runs m Q" "\<And>a. back_turn r ns n now (f a)"
  shows "back_turn r ns n now (State_Monad.bind m f)"
  unfolding back_turn_def
proof (intro allI impI)
  fix s assume c: "comes_back (fst (run_state (State_Monad.bind m f) s))"
  obtain a s' where m: "run_state m s = (a, s')" by fastforce
  then obtain ops where ops: "trace s' = trace s @ ops" using runs_grows [OF assms(1), of s] by auto
  obtain fi before s1 where "pods_turn r ns n now s' (run_state (f a) s') fi before s1"
    using assms(2) [of a] c m unfolding back_turn_def by auto
  then have "pods_turn r ns n now s (run_state (State_Monad.bind m f) s) fi (ops @ before) s1"
    using m ops by (simp add: pods_turn_def)
  then show "\<exists>fi before s1. pods_turn r ns n now s (run_state (State_Monad.bind m f) s) fi before s1" by blast
qed

lemma turn_if: "(b \<Longrightarrow> back_turn r ns n now m) \<Longrightarrow> (\<not> b \<Longrightarrow> back_turn r ns n now m') \<Longrightarrow>
    back_turn r ns n now (if b then m else m')"
  by simp

lemma turn_case_sum:
  "(\<And>e. back_turn r ns n now (f e)) \<Longrightarrow> (\<And>v. back_turn r ns n now (g v)) \<Longrightarrow>
   back_turn r ns n now (case x of Inl e \<Rightarrow> f e | Inr v \<Rightarrow> g v)"
  by (cases x) auto

lemma turn_case_option:
  "back_turn r ns n now m \<Longrightarrow> (\<And>v. back_turn r ns n now (g v)) \<Longrightarrow>
   back_turn r ns n now (case x of None \<Rightarrow> m | Some v \<Rightarrow> g v)"
  by (cases x) auto

lemma turn_case_prod: "(\<And>a b. back_turn r ns n now (f a b)) \<Longrightarrow> back_turn r ns n now (case x of (a, b) \<Rightarrow> f a b)"
  by (cases x) auto

text \<open>Where the pod faults have their turn.\<close>

lemma turn_pods:
  "back_turn r ns n now (do {
     g \<leftarrow> getFI r ns n;
     (case g of
        Inl e \<Rightarrow> State_Monad.return (no_requeue, ignoreNotFound e)
      | Inr fi' \<Rightarrow> do {
          (podStop, nextDue, perr) \<leftarrow> applyPodFaults r fi' now;
          (case perr of
             Some e \<Rightarrow> State_Monad.return (no_requeue, Some e)
           | None \<Rightarrow> if podStop then State_Monad.return (no_requeue, None) else requeue_step r fi' nextDue)
        })
   })" (is "back_turn r ns n now ?m")
  unfolding back_turn_def
proof (intro allI impI)
  fix s assume c: "comes_back (fst (run_state ?m s))"
  obtain g s1 where g: "run_state (getFI r ns n) s = (g, s1)" by fastforce
  then have s1: "trace s1 = trace s @ [OpGetFI ns n g]" by (auto simp: getFI_def call_def split: prod.splits)
  show "\<exists>fi before s1. pods_turn r ns n now s (run_state ?m s) fi before s1"
  proof (cases g)
    case (Inl e)
    then show ?thesis using c g by (simp add: no_way_back)
  next
    case (Inr fi)
    obtain stop due err s2 where f: "run_state (applyPodFaults r fi now) s1 = ((stop, due, err), s2)"
      by (metis prod.collapse)
    then have "err = None" "\<not> stop" using c g Inr by (auto simp: no_way_back split: option.splits if_splits)
    then have "pods_turn r ns n now s (run_state ?m s) fi [] s1"
      using f g Inr s1 by (simp add: pods_turn_def result_of_def)
    then show ?thesis by blast
  qed
qed

lemma turn_apply: "back_turn r ns n now (apply_step r ns n fi now)"
proof -
  have event: "runs (if b then eventf r t x a else State_Monad.return ()) (\<lambda>_ _. True)" for b t x a
    by (intro runs_intro) simp_all
  show ?thesis
    unfolding apply_step_def run_step_def
    by (intro turn_case_option turn_case_prod turn_case_sum turn_if turn_stay turn_pods event
        turn_tail [OF always_runs [OF emits_mesh_apply]] turn_tail [OF runs_cleanupOrphaned] turn_tail [OF event]
        turn_tail [OF always_runs [OF quiet_running]])
qed

lemma turn_loaded: "back_turn r ns n now (reconcile_loaded r ns n fi now)"
proof -
  have again: "\<not> comes_back (if b then (\<lparr>crRequeue = True, crRequeueAfter = 0\<rparr>, None) else (no_requeue, None))" for b
    by (simp add: comes_back_def no_requeue_def)
  show ?thesis
    unfolding reconcile_loaded_def
    by (intro turn_if turn_case_option turn_case_prod turn_never [OF ends_stay(1)] turn_never [OF ends_stay(2)]
        turn_never [OF ends_stay(3)] turn_return [OF again] turn_apply
        turn_tail [OF always_runs [OF emits_lifecycle]] turn_tail [OF runs_validateSpec])
qed

text \<open>The time this reconcile starts with: the reading after its first read.\<close>

definition started_at :: "'w reconciler \<Rightarrow> string \<Rightarrow> string \<Rightarrow> 'w sys \<Rightarrow> time" where
  "started_at r ns n s = fst (rcNow r (snd (rcGetFI r ns n (world s))))"

lemma reconcile_turn:
  assumes "comes_back (result_of (Reconcile r ns n) s)"
  shows "\<exists>fi before s1. pods_turn r ns n (started_at r ns n s) s (run_state (Reconcile r ns n) s) fi before s1"
proof (cases "fst (rcGetFI r ns n (world s))")
  case (Inl e)
  have "result_of (Reconcile r ns n) s = (no_requeue, ignoreNotFound e)"
    using Inl by (simp add: Reconcile_def getFI_def call_def result_of_def case_prod_beta)
  then show ?thesis using assms by (simp add: no_way_back)
next
  case (Inr fi0)
  let ?now = "started_at r ns n s"
  let ?s2 = "snd (run_state (time_now r) (snd (run_state (getFI r ns n) s)))"
  let ?rest = "do {
      (fi1, changed) \<leftarrow> ensureLifecycle r fi0;
      (if changed then do {
         u \<leftarrow> update_status r ns n (\<lambda>st. Some (lifecycle_status fi1 st));
         (case u of
            Some e \<Rightarrow> do {
              eventf r ''Warning'' ''StatusUpdateFailed'' ''status-update'';
              State_Monad.return (no_requeue, Some e)
            }
          | None \<Rightarrow> do {
              g2 \<leftarrow> getFI r ns n;
              (case g2 of
                 Inl e \<Rightarrow> State_Monad.return (no_requeue, ignoreNotFound e)
               | Inr fi2 \<Rightarrow> reconcile_loaded r ns n fi2 ?now)
            })
       }
       else reconcile_loaded r ns n fi1 ?now) }"
  have get: "runs (getFI r ns n) (\<lambda>_ _. True)" by (rule runs_getFI) simp
  have rest: "back_turn r ns n ?now ?rest"
    by (intro turn_if turn_case_option turn_case_prod turn_case_sum turn_stay turn_loaded turn_tail [OF get]
        turn_tail [OF always_runs [OF emits_lifecycle]] turn_tail [OF runs_update_status]
        turn_tail [OF always_runs [OF quiet_events]])
  have run: "run_state (Reconcile r ns n) s = run_state ?rest ?s2"
  proof -
    have g: "result_of (getFI r ns n) s = Inr fi0" "result_of (time_now r) (snd (run_state (getFI r ns n) s)) = ?now"
      using Inr by (simp_all add: getFI_def call_def time_now_def result_of_def case_prod_beta started_at_def)
    show ?thesis by (simp only: Reconcile_def result_bind_run g sum.case)
  qed
  have "comes_back (fst (run_state ?rest ?s2))" using assms unfolding result_of_def run .
  then obtain fi before s1 where turn: "pods_turn r ns n ?now ?s2 (run_state ?rest ?s2) fi before s1"
    using rest unfolding back_turn_def by blast
  have "trace ?s2 = trace s @ [OpGetFI ns n (Inr fi0)]"
    using Inr by (simp add: getFI_def call_def time_now_def case_prod_beta)
  then have "pods_turn r ns n ?now s (run_state (Reconcile r ns n) s) fi (OpGetFI ns n (Inr fi0) # before) s1"
    using turn unfolding run pods_turn_def by simp
  then show ?thesis by blast
qed

lemma reconcile_back_told:
  assumes "clock_forward r" "comes_back (result_of (Reconcile r ns n) s)"
  shows "\<exists>fi before s1. pods_turn r ns n (started_at r ns n s) s (run_state (Reconcile r ns n) s) fi before s1
    \<and> ops_of (Reconcile r ns n) s
        = before @ OpGetFI ns n (Inr fi) # ops_of (applyPodFaults r fi (started_at r ns n s)) s1
    \<and> told_back r fi (started_at r ns n s)
        (fst (rcNow r (world (snd (run_state (applyPodFaults r fi (started_at r ns n s)) s1)))))
        (crRequeueAfter (fst (result_of (Reconcile r ns n) s))) (ops_of (applyPodFaults r fi (started_at r ns n s)) s1)"
proof -
  obtain fi before s1 where turn: "pods_turn r ns n (started_at r ns n s) s (run_state (Reconcile r ns n) s) fi before s1"
    using reconcile_turn [OF assms(2)] by blast
  then show ?thesis
    using pods_turn_told [OF assms(1) turn] assms(2) unfolding result_of_def
    by (intro exI [of _ fi] exI [of _ before] exI [of _ s1]) (simp add: ops_of_def)
qed

end
