(* ===== verification/GoHeap.thy ===== *)
theory GoHeap
  imports Prelude
begin

text \<open>
  Go values with references: a heap of cells, the values that point into it, and the forms of
  statement that generated deep copies are made of. A value is read off the heap as a tree, by
  recursion on the tree; a copier is right for a type when what it returns reads as the same tree
  and reaches new cells only, while the old cells stay as they were.
\<close>

section \<open>Values, cells and the heap\<close>

datatype scalar = SInt int | SBool bool | SStr string | SFloat rat

text \<open>
  A pointer, a slice (array, offset and length) and a map hold the address of a cell; a nil
  pointer, slice or map is \<open>GNil\<close>. A struct lists its fields in the order of the declaration.
\<close>

datatype gval =
    GScalar scalar
  | GNil
  | GPtr nat
  | GSlice nat nat nat
  | GMap nat
  | GStruct "(string \<times> gval) list"

text \<open>What a pointer points to, the array of a slice, the entries of a map in the order of a range.\<close>

datatype cell = CVal gval | CArr "gval list" | CMap "(string \<times> gval) list"

text \<open>An address is an index into the heap; an allocation appends a cell.\<close>

type_synonym mem = "cell list"

definition load :: "mem \<Rightarrow> nat \<Rightarrow> cell option" where
  "load m a = (if a < length m then Some (m ! a) else None)"

section \<open>Trees and types\<close>

datatype gtree =
    TScalar scalar
  | TNil
  | TPtr gtree
  | TSlice "gtree list"
  | TMap "(string \<times> gtree) list"
  | TStruct "(string \<times> gtree) list"

text \<open>\<open>YInt w\<close> is a signed integer of \<open>w\<close> bits.\<close>

datatype gty =
    YInt nat
  | YBool
  | YStr
  | YFloat
  | YPtr gty
  | YSlice gty
  | YMap gty
  | YStruct "(string \<times> gty) list"

text \<open>The value reads as the tree, and every address on the way has the property.\<close>

fun reads :: "(nat \<Rightarrow> bool) \<Rightarrow> mem \<Rightarrow> gtree \<Rightarrow> gval \<Rightarrow> bool" where
  "reads P m (TScalar s) v \<longleftrightarrow> v = GScalar s"
| "reads P m TNil v \<longleftrightarrow> v = GNil"
| "reads P m (TPtr t) v \<longleftrightarrow>
     (case v of GPtr a \<Rightarrow> P a \<and> (case load m a of Some (CVal u) \<Rightarrow> reads P m t u | _ \<Rightarrow> False) | _ \<Rightarrow> False)"
| "reads P m (TSlice ts) v \<longleftrightarrow>
     (case v of GSlice a off n \<Rightarrow> P a \<and> (case load m a of
          Some (CArr us) \<Rightarrow> off + n \<le> length us \<and> list_all2 (reads P m) ts (take n (drop off us))
        | _ \<Rightarrow> False) | _ \<Rightarrow> False)"
| "reads P m (TMap kts) v \<longleftrightarrow>
     (case v of GMap a \<Rightarrow> P a \<and> (case load m a of
          Some (CMap kvs) \<Rightarrow> list_all2 (\<lambda>kt kv. fst kt = fst kv \<and> reads P m (snd kt) (snd kv)) kts kvs
        | _ \<Rightarrow> False) | _ \<Rightarrow> False)"
| "reads P m (TStruct fts) v \<longleftrightarrow>
     (case v of GStruct fvs \<Rightarrow> list_all2 (\<lambda>ft fv. fst ft = fst fv \<and> reads P m (snd ft) (snd fv)) fts fvs
      | _ \<Rightarrow> False)"

fun typed :: "gty \<Rightarrow> gtree \<Rightarrow> bool" where
  "typed (YInt w) t \<longleftrightarrow> (case t of TScalar (SInt i) \<Rightarrow> - (2 ^ (w - 1)) \<le> i \<and> i < 2 ^ (w - 1) | _ \<Rightarrow> False)"
| "typed YBool t \<longleftrightarrow> (case t of TScalar (SBool b) \<Rightarrow> True | _ \<Rightarrow> False)"
| "typed YStr t \<longleftrightarrow> (case t of TScalar (SStr s) \<Rightarrow> True | _ \<Rightarrow> False)"
| "typed YFloat t \<longleftrightarrow> (case t of TScalar (SFloat f) \<Rightarrow> True | _ \<Rightarrow> False)"
| "typed (YPtr T) t \<longleftrightarrow> (case t of TNil \<Rightarrow> True | TPtr u \<Rightarrow> typed T u | _ \<Rightarrow> False)"
| "typed (YSlice T) t \<longleftrightarrow> (case t of TNil \<Rightarrow> True | TSlice ts \<Rightarrow> list_all (typed T) ts | _ \<Rightarrow> False)"
| "typed (YMap T) t \<longleftrightarrow>
     (case t of TNil \<Rightarrow> True | TMap kts \<Rightarrow> distinct (map fst kts) \<and> list_all (\<lambda>kt. typed T (snd kt)) kts | _ \<Rightarrow> False)"
| "typed (YStruct fTs) t \<longleftrightarrow>
     (case t of TStruct fts \<Rightarrow> list_all2 (\<lambda>fT ft. fst fT = fst ft \<and> typed (snd fT) (snd ft)) fTs fts | _ \<Rightarrow> False)"

text \<open>Types without references: an assignment copies their values.\<close>

fun flat :: "gty \<Rightarrow> bool" where
  "flat (YPtr T) \<longleftrightarrow> False"
| "flat (YSlice T) \<longleftrightarrow> False"
| "flat (YMap T) \<longleftrightarrow> False"
| "flat (YStruct fTs) \<longleftrightarrow> list_all (\<lambda>fT. flat (snd fT)) fTs"
| "flat _ \<longleftrightarrow> True"

text \<open>The zero value of a type.\<close>

fun zero_of :: "gty \<Rightarrow> gval" where
  "zero_of (YInt w) = GScalar (SInt 0)"
| "zero_of YBool = GScalar (SBool False)"
| "zero_of YStr = GScalar (SStr [])"
| "zero_of YFloat = GScalar (SFloat 0)"
| "zero_of (YStruct fTs) = GStruct (map (\<lambda>fT. (fst fT, zero_of (snd fT))) fTs)"
| "zero_of _ = GNil"

section \<open>Statements\<close>

text \<open>
  A copier takes the value to copy and gives the one to write, allocating on the way; it is
  \<open>None\<close> where the code would panic. The place that is written is new, a local variable or a part
  of one of them, so that a copier is given none.
\<close>

type_synonym copier = "gval \<Rightarrow> mem \<Rightarrow> (gval \<times> mem) option"

text \<open>\<open>out.F = in.F\<close>, and \<open>*out = *in\<close> for a whole struct.\<close>

definition assign :: copier where
  "assign v m = Some (v, m)"

text \<open>\<open>if in.F != nil { ... }\<close> after \<open>*out = *in\<close>.\<close>

definition if_not_nil :: "copier \<Rightarrow> copier" where
  "if_not_nil g v m = (if v = GNil then Some (GNil, m) else g v m)"

text \<open>\<open>*out = new(T)\<close>, then \<open>(*in).DeepCopyInto(*out)\<close> or \<open>**out = **in\<close>.\<close>

definition new_into :: "gty \<Rightarrow> copier \<Rightarrow> copier" where
  "new_into T g v m =
     (case v of
        GPtr a \<Rightarrow>
          (case load m a of
             Some (CVal u) \<Rightarrow>
               (case g u (m @ [CVal (zero_of T)]) of
                  None \<Rightarrow> None
                | Some (y, m') \<Rightarrow> Some (GPtr (length m), m'[length m := CVal y]))
           | _ \<Rightarrow> None)
      | _ \<Rightarrow> None)"

text \<open>\<open>for i := range *in { (*in)[i].DeepCopyInto(&(*out)[i]) }\<close>, with \<open>k\<close> elements to go.\<close>

fun each_into :: "copier \<Rightarrow> nat \<Rightarrow> nat \<Rightarrow> nat \<Rightarrow> nat \<Rightarrow> nat \<Rightarrow> mem \<Rightarrow> mem option" where
  "each_into g a off a' i 0 m = Some m"
| "each_into g a off a' i (Suc k) m =
     (case load m a of
        Some (CArr us) \<Rightarrow>
          if off + i < length us then
            (case g (us ! (off + i)) m of
               None \<Rightarrow> None
             | Some (y, m') \<Rightarrow>
                 (case load m' a' of
                    Some (CArr ys) \<Rightarrow> each_into g a off a' (Suc i) k (m'[a' := CArr (ys[i := y])])
                  | _ \<Rightarrow> None))
          else None
      | _ \<Rightarrow> None)"

text \<open>\<open>*out = make([]T, len(*in))\<close> and the loop.\<close>

definition make_into :: "gty \<Rightarrow> copier \<Rightarrow> copier" where
  "make_into T g v m =
     (case v of
        GSlice a off n \<Rightarrow>
          (case each_into g a off (length m) 0 n (m @ [CArr (replicate n (zero_of T))]) of
             None \<Rightarrow> None
           | Some m' \<Rightarrow> Some (GSlice (length m) 0 n, m'))
      | _ \<Rightarrow> None)"

text \<open>\<open>*out = make([]T, len(*in)); copy(*out, *in)\<close>.\<close>

definition make_copy :: "gty \<Rightarrow> copier" where
  "make_copy T v m =
     (case v of
        GSlice a off n \<Rightarrow>
          (case load m a of
             Some (CArr us) \<Rightarrow>
               let src = take n (drop off us); dst = replicate n (zero_of T)
               in Some (GSlice (length m) 0 n, m @ [CArr (take n src @ drop (length src) dst)])
           | _ \<Rightarrow> None)
      | _ \<Rightarrow> None)"

text \<open>\<open>*out = make(map[string]T, len(*in)); for key, val := range *in { (*out)[key] = val }\<close>.\<close>

definition make_map :: copier where
  "make_map v m =
     (case v of
        GMap a \<Rightarrow>
          (case load m a of
             Some (CMap kvs) \<Rightarrow>
               Some (GMap (length m), m @ [CMap (foldl (\<lambda>out (key, val). AList.update key val out) [] kvs)])
           | _ \<Rightarrow> None)
      | _ \<Rightarrow> None)"

text \<open>
  The body of a struct's \<open>DeepCopyInto\<close>: \<open>*out = *in\<close>, then statements that each set one field of
  \<open>out\<close> from the same field of \<open>in\<close>.
\<close>

definition set_field :: "string \<Rightarrow> gval \<Rightarrow> gval \<Rightarrow> gval" where
  "set_field f y v = (case v of GStruct fvs \<Rightarrow> GStruct (map (\<lambda>fv. if fst fv = f then (f, y) else fv) fvs) | _ \<Rightarrow> v)"

definition get_field :: "string \<Rightarrow> gval \<Rightarrow> gval option" where
  "get_field f v = (case v of GStruct fvs \<Rightarrow> map_of fvs f | _ \<Rightarrow> None)"

fun set_fields :: "(string \<times> copier) list \<Rightarrow> gval \<Rightarrow> gval \<Rightarrow> mem \<Rightarrow> (gval \<times> mem) option" where
  "set_fields [] v out m = Some (out, m)"
| "set_fields ((f, g) # ss) v out m =
     (case get_field f v of
        None \<Rightarrow> None
      | Some x \<Rightarrow>
          (case g x m of
             None \<Rightarrow> None
           | Some (y, m') \<Rightarrow> set_fields ss v (set_field f y out) m'))"

definition struct_into :: "(string \<times> copier) list \<Rightarrow> copier" where
  "struct_into ss v m = set_fields ss v v m"

text \<open>\<open>DeepCopy\<close>: nil for nil, otherwise \<open>out := new(T); in.DeepCopyInto(out)\<close>.\<close>

definition deep_copy :: "gty \<Rightarrow> copier \<Rightarrow> copier" where
  "deep_copy T g p m = (if p = GNil then Some (GNil, m) else new_into T g p m)"

section \<open>What a copier promises\<close>

text \<open>The old cells are as they were.\<close>

definition grows :: "mem \<Rightarrow> mem \<Rightarrow> bool" where
  "grows m m' \<longleftrightarrow> length m \<le> length m' \<and> (\<forall>a < length m. m' ! a = m ! a)"

text \<open>A copy reads as the same tree and reaches new cells only.\<close>

definition copies :: "gty \<Rightarrow> copier \<Rightarrow> bool" where
  "copies T g \<longleftrightarrow>
     (\<forall>v m t. typed T t \<longrightarrow> reads (\<lambda>_. True) m t v \<longrightarrow>
        (case g v m of None \<Rightarrow> False
         | Some (v', m') \<Rightarrow> grows m m' \<and> reads (\<lambda>a. length m \<le> a) m' t v'))"

named_theorems copies_intro

lemma copiesI:
  assumes "\<And>v m t. typed T t \<Longrightarrow> reads (\<lambda>_. True) m t v \<Longrightarrow>
    \<exists>v' m'. g v m = Some (v', m') \<and> grows m m' \<and> reads (\<lambda>a. length m \<le> a) m' t v'"
  shows "copies T g"
  unfolding copies_def
proof (intro allI impI)
  fix v m t assume "typed T t" "reads (\<lambda>_. True) m t v"
  from assms [OF this] show "case g v m of None \<Rightarrow> False
      | Some (v', m') \<Rightarrow> grows m m' \<and> reads (\<lambda>a. length m \<le> a) m' t v'"
    by (elim exE conjE) simp
qed

lemma copiesD:
  assumes "copies T g" "typed T t" "reads (\<lambda>_. True) m t v"
  obtains v' m' where "g v m = Some (v', m')" "grows m m'" "reads (\<lambda>a. length m \<le> a) m' t v'"
proof -
  have "case g v m of None \<Rightarrow> False
      | Some (v', m') \<Rightarrow> grows m m' \<and> reads (\<lambda>a. length m \<le> a) m' t v'"
    using assms unfolding copies_def by blast
  then show ?thesis using that by (cases "g v m") (simp, auto)
qed

lemma grows_refl [simp]: "grows m m"
  by (simp add: grows_def)

lemma grows_trans: "grows m m1 \<Longrightarrow> grows m1 m2 \<Longrightarrow> grows m m2"
  by (simp add: grows_def)

lemma grows_append: "grows m (m @ cs)"
  by (simp add: grows_def nth_append)

lemma grows_store: "grows m m' \<Longrightarrow> length m \<le> a \<Longrightarrow> grows m (m'[a := c])"
  by (simp add: grows_def)

lemma load_grows: "grows m m' \<Longrightarrow> load m a = Some c \<Longrightarrow> load m' a = Some c"
  by (auto simp: grows_def load_def split: if_splits)

text \<open>The frame of a value: only the cells it reaches matter.\<close>

lemma rel_pairs_mono:
  assumes "list_all2 (\<lambda>x y. fst x = fst y \<and> R (snd x) (snd y)) xs ys"
    and "\<And>x t v. x \<in> set xs \<Longrightarrow> t \<in> Basic_BNFs.snds x \<Longrightarrow> R t v \<Longrightarrow> R' t v"
  shows "list_all2 (\<lambda>x y. fst x = fst y \<and> R' (snd x) (snd y)) xs ys"
proof (rule list.rel_mono_strong [OF assms(1)])
  fix x y assume "x \<in> set xs" "fst x = fst y \<and> R (snd x) (snd y)"
  moreover have "snd x \<in> Basic_BNFs.snds x" by (cases x) (simp add: prod_set_simps)
  ultimately show "fst x = fst y \<and> R' (snd x) (snd y)" using assms(2) by blast
qed

lemma reads_ptr: "reads P m (TPtr t) v \<longleftrightarrow> (\<exists>a u. v = GPtr a \<and> P a \<and> load m a = Some (CVal u) \<and> reads P m t u)"
  by (auto split: gval.splits option.splits cell.splits)

lemma reads_slice:
  "reads P m (TSlice ts) v \<longleftrightarrow> (\<exists>a off n us. v = GSlice a off n \<and> P a \<and> load m a = Some (CArr us)
     \<and> off + n \<le> length us \<and> list_all2 (reads P m) ts (take n (drop off us)))"
  by (simp split: gval.split option.split cell.split)

lemma reads_map:
  "reads P m (TMap kts) v \<longleftrightarrow> (\<exists>a kvs. v = GMap a \<and> P a \<and> load m a = Some (CMap kvs)
     \<and> list_all2 (\<lambda>x y. fst x = fst y \<and> reads P m (snd x) (snd y)) kts kvs)"
  by (simp split: gval.split option.split cell.split)

lemma reads_struct:
  "reads P m (TStruct fts) v \<longleftrightarrow> (\<exists>fvs. v = GStruct fvs
     \<and> list_all2 (\<lambda>x y. fst x = fst y \<and> reads P m (snd x) (snd y)) fts fvs)"
  by (simp split: gval.split)

lemmas reads_refs = reads_ptr reads_slice reads_map reads_struct

declare reads.simps(3-6) [simp del]

lemma reads_agree:
  assumes "\<And>a. P a \<Longrightarrow> a < length m \<Longrightarrow> a < length m' \<and> m' ! a = m ! a \<and> Q a"
  shows "reads P m t v \<Longrightarrow> reads Q m' t v"
proof (induction t arbitrary: v)
  case (TPtr t)
  have same: "load m' a = Some c \<and> Q a" if "load m a = Some c" "P a" for a c
    using assms [of a] that by (simp add: load_def split: if_splits)
  show ?case using TPtr.prems TPtr.IH same unfolding reads_ptr by blast
next
  case (TSlice ts)
  have same: "load m' a = Some c \<and> Q a" if "load m a = Some c" "P a" for a c
    using assms [of a] that by (simp add: load_def split: if_splits)
  have "list_all2 (reads Q m') ts us" if "list_all2 (reads P m) ts us" for us
    by (rule list.rel_mono_strong [OF that]) (rule TSlice.IH)
  then show ?case using TSlice.prems same unfolding reads_slice by blast
next
  case (TMap kts)
  have same: "load m' a = Some c \<and> Q a" if "load m a = Some c" "P a" for a c
    using assms [of a] that by (simp add: load_def split: if_splits)
  have "list_all2 (\<lambda>x y. fst x = fst y \<and> reads Q m' (snd x) (snd y)) kts kvs"
    if "list_all2 (\<lambda>x y. fst x = fst y \<and> reads P m (snd x) (snd y)) kts kvs" for kvs
    by (rule rel_pairs_mono [OF that]) (rule TMap.IH)
  then show ?case using TMap.prems same unfolding reads_map by blast
next
  case (TStruct fts)
  have "list_all2 (\<lambda>x y. fst x = fst y \<and> reads Q m' (snd x) (snd y)) fts fvs"
    if "list_all2 (\<lambda>x y. fst x = fst y \<and> reads P m (snd x) (snd y)) fts fvs" for fvs
    by (rule rel_pairs_mono [OF that]) (rule TStruct.IH)
  then show ?case using TStruct.prems unfolding reads_struct by blast
qed simp_all

lemma reads_grows: "grows m m' \<Longrightarrow> reads P m t v \<Longrightarrow> reads P m' t v"
  by (erule reads_agree [rotated]) (simp add: grows_def)

lemma reads_weaken: "reads P m t v \<Longrightarrow> (\<And>a. P a \<Longrightarrow> a < length m \<Longrightarrow> Q a) \<Longrightarrow> reads Q m t v"
  by (erule reads_agree [rotated]) simp

lemma reads_store: "reads P m t v \<Longrightarrow> \<not> P a \<Longrightarrow> reads P (m[a := c]) t v"
  by (erule reads_agree [rotated]) (metis length_list_update nth_list_update_neq)

text \<open>A value of a type without references is the same on every heap.\<close>

lemma reads_flat: "flat T \<Longrightarrow> typed T t \<Longrightarrow> reads P m t v \<Longrightarrow> reads Q m' t v"
proof (induction T arbitrary: t v)
  case (YStruct fTs)
  obtain fts fvs where t: "t = TStruct fts" and v: "v = GStruct fvs"
    and T: "list_all2 (\<lambda>fT ft. fst fT = fst ft \<and> typed (snd fT) (snd ft)) fTs fts"
    and R: "list_all2 (\<lambda>ft fv. fst ft = fst fv \<and> reads P m (snd ft) (snd fv)) fts fvs"
    using YStruct.prems(2,3) by (auto simp: reads_struct split: gtree.splits)
  have "reads Q m' (snd (fts ! i)) (snd (fvs ! i))" if "i < length fts" for i
  proof -
    have i: "i < length fTs" using T that by (simp add: list_all2_lengthD)
    have "fTs ! i \<in> set fTs" "snd (fTs ! i) \<in> Basic_BNFs.snds (fTs ! i)"
      using i by (simp, cases "fTs ! i", simp add: prod_set_simps)
    note IH = YStruct.IH [OF this]
    show ?thesis
      by (rule IH) (use YStruct.prems(1) i that T R in \<open>auto simp: list_all_length list_all2_conv_all_nth\<close>)
  qed
  then show ?case using R by (simp add: t v reads_struct list_all2_conv_all_nth)
qed (auto split: gtree.splits scalar.splits)

section \<open>The statements keep it\<close>

lemma copies_assign [copies_intro]: "flat T \<Longrightarrow> copies T assign"
  by (rule copiesI) (auto simp: assign_def intro: reads_flat)

lemma copies_if_not_nil:
  assumes "\<And>v m t. typed T t \<Longrightarrow> t \<noteq> TNil \<Longrightarrow> reads (\<lambda>_. True) m t v \<Longrightarrow>
    \<exists>v' m'. g v m = Some (v', m') \<and> grows m m' \<and> reads (\<lambda>a. length m \<le> a) m' t v'"
  shows "copies T (if_not_nil g)"
proof (rule copiesI)
  fix v m t assume *: "typed T t" "reads (\<lambda>_. True) m t v"
  show "\<exists>v' m'. if_not_nil g v m = Some (v', m') \<and> grows m m' \<and> reads (\<lambda>a. length m \<le> a) m' t v'"
  proof (cases "t = TNil")
    case True
    then show ?thesis using * by (simp add: if_not_nil_def)
  next
    case False
    then have "v \<noteq> GNil" using * by (cases t) (auto simp: reads_refs)
    then show ?thesis using assms [OF *(1) False *(2)] by (simp add: if_not_nil_def)
  qed
qed

lemma copies_guarded [copies_intro]: "copies T g \<Longrightarrow> copies T (if_not_nil g)"
  by (rule copies_if_not_nil) (metis copiesD)

lemma new_into_copies:
  assumes "copies T g" "typed (YPtr T) t" "t \<noteq> TNil" "reads (\<lambda>_. True) m t v"
  shows "\<exists>v' m'. new_into T g v m = Some (v', m') \<and> grows m m' \<and> reads (\<lambda>a. length m \<le> a) m' t v'"
proof -
  obtain u where t: "t = TPtr u" "typed T u" using assms(2,3) by (auto split: gtree.splits)
  obtain a x where v: "v = GPtr a" "load m a = Some (CVal x)" "reads (\<lambda>_. True) m u x"
    using assms(4) unfolding t reads_ptr by blast
  let ?m = "m @ [CVal (zero_of T)]"
  have "reads (\<lambda>_. True) ?m u x" by (rule reads_grows [OF grows_append v(3)])
  then obtain y m' where y: "g x ?m = Some (y, m')" "grows ?m m'" "reads (\<lambda>a. length ?m \<le> a) m' u y"
    by (rule copiesD [OF assms(1) t(2)])
  let ?m' = "m'[length m := CVal y]"
  have "grows m m'" by (rule grows_trans [OF grows_append y(2)])
  then have g: "grows m ?m'" by (rule grows_store) simp
  have len: "length m < length m'" using y(2) by (simp add: grows_def)
  have "reads (\<lambda>a. length ?m \<le> a) ?m' u y" by (rule reads_store [OF y(3)]) simp
  then have "reads (\<lambda>a. length m \<le> a) ?m' u y" by (rule reads_weaken) simp
  then have "reads (\<lambda>a. length m \<le> a) ?m' t (GPtr (length m))"
    using len by (simp add: t reads_ptr load_def)
  then show ?thesis using g y(1) by (simp add: new_into_def v)
qed

lemma copies_ptr [copies_intro]: "copies T g \<Longrightarrow> copies (YPtr T) (if_not_nil (new_into T g))"
  by (rule copies_if_not_nil) (rule new_into_copies)

lemma copies_deep [copies_intro]: "copies T g \<Longrightarrow> copies (YPtr T) (deep_copy T g)"
  using copies_ptr [of T g] by (simp add: deep_copy_def [abs_def] if_not_nil_def [abs_def])

lemma each_into_copies:
  assumes "copies T g" "list_all (typed T) ts" "load m a = Some (CArr us)" "off + length ts \<le> length us"
    and "list_all2 (reads (\<lambda>_. True) m) ts (take (length ts) (drop off us))"
    and "i + k = length ts" "length m < length m1" "grows m m1" "m1 ! length m = CArr ys" "length ys = length ts"
    and "\<forall>j < i. reads (\<lambda>a. length m < a) m1 (ts ! j) (ys ! j)"
  shows "\<exists>m2 zs. each_into g a off (length m) i k m1 = Some m2 \<and> length m < length m2 \<and> grows m m2
    \<and> m2 ! length m = CArr zs \<and> length zs = length ts
    \<and> (\<forall>j < length ts. reads (\<lambda>a. length m < a) m2 (ts ! j) (zs ! j))"
  using assms(6-11)
proof (induction k arbitrary: i m1 ys)
  case (Suc k)
  have i: "i < length ts" using Suc.prems(1) by simp
  have in': "load m1 a = Some (CArr us)" by (rule load_grows [OF Suc.prems(3) assms(3)])
  have "reads (\<lambda>_. True) m (ts ! i) (us ! (off + i))"
    using assms(4,5) i by (simp add: list_all2_conv_all_nth)
  then have "reads (\<lambda>_. True) m1 (ts ! i) (us ! (off + i))" by (rule reads_grows [OF Suc.prems(3)])
  moreover have "typed T (ts ! i)" using assms(2) i by (simp add: list_all_length)
  ultimately obtain y m' where y: "g (us ! (off + i)) m1 = Some (y, m')" "grows m1 m'"
      "reads (\<lambda>a. length m1 \<le> a) m' (ts ! i) y"
    using copiesD [OF assms(1)] by metis
  let ?m = "m'[length m := CArr (ys[i := y])]"
  have l': "length m < length m'" "m' ! length m = CArr ys" using y(2) Suc.prems(2,4) by (simp_all add: grows_def)
  have "grows m m'" by (rule grows_trans [OF Suc.prems(3) y(2)])
  then have g: "grows m ?m" by (rule grows_store) simp
  have old: "reads (\<lambda>a. length m < a) ?m (ts ! j) (ys[i := y] ! j)" if "j < Suc i" for j
  proof (cases "j = i")
    case True
    have "reads (\<lambda>a. length m < a) m' (ts ! i) y"
      by (rule reads_weaken [OF y(3)]) (use Suc.prems(2) in simp)
    then have "reads (\<lambda>a. length m < a) ?m (ts ! i) y" by (rule reads_store) simp
    then show ?thesis using True i Suc.prems(5) by simp
  next
    case False
    then have "reads (\<lambda>a. length m < a) m1 (ts ! j) (ys ! j)" using that Suc.prems(6) by simp
    from reads_store [OF reads_grows [OF y(2) this]] show ?thesis using False by simp
  qed
  have "\<exists>m2 zs. each_into g a off (length m) (Suc i) k ?m = Some m2 \<and> length m < length m2 \<and> grows m m2
    \<and> m2 ! length m = CArr zs \<and> length zs = length ts
    \<and> (\<forall>j < length ts. reads (\<lambda>a. length m < a) m2 (ts ! j) (zs ! j))"
    by (rule Suc.IH [OF _ _ g, of _ "ys[i := y]"]) (use l' Suc.prems(1,5) old in simp_all)
  moreover have "off + i < length us" using assms(4) i by simp
  moreover have "load m' (length m) = Some (CArr ys)" using l' by (simp add: load_def)
  ultimately show ?case by (simp add: in' y(1))
qed auto

lemma copies_slice [copies_intro]:
  assumes "copies T g"
  shows "copies (YSlice T) (if_not_nil (make_into T g))"
proof (rule copies_if_not_nil)
  fix v m t assume "typed (YSlice T) t" "t \<noteq> TNil" "reads (\<lambda>_. True) m t v"
  then obtain ts where t: "t = TSlice ts" "list_all (typed T) ts" by (auto split: gtree.splits)
  obtain a off n us where v: "v = GSlice a off n" "load m a = Some (CArr us)" "off + n \<le> length us"
      "list_all2 (reads (\<lambda>_. True) m) ts (take n (drop off us))"
    using \<open>reads (\<lambda>_. True) m t v\<close> unfolding t reads_slice by blast
  have n: "n = length ts" using v(3) list_all2_lengthD [OF v(4)] by simp
  let ?m = "m @ [CArr (replicate n (zero_of T))]"
  obtain m2 zs where m2: "each_into g a off (length m) 0 n ?m = Some m2" "length m < length m2" "grows m m2"
      "m2 ! length m = CArr zs" "length zs = length ts" "\<forall>j < length ts. reads (\<lambda>a. length m < a) m2 (ts ! j) (zs ! j)"
    using each_into_copies [OF assms t(2) v(2), of off 0 n ?m "replicate n (zero_of T)"] v(3,4) n
    by (auto simp: grows_append)
  have "reads (\<lambda>a. length m \<le> a) m2 (ts ! j) (zs ! j)" if "j < length ts" for j
    by (rule reads_weaken [of "\<lambda>a. length m < a"]) (use m2(6) that in simp_all)
  then have "reads (\<lambda>a. length m \<le> a) m2 t (GSlice (length m) 0 n)"
    using m2(2,4,5) by (simp add: t reads_slice load_def n list_all2_conv_all_nth)
  then show "\<exists>v' m'. make_into T g v m = Some (v', m') \<and> grows m m' \<and> reads (\<lambda>a. length m \<le> a) m' t v'"
    using m2(1,3) by (simp add: make_into_def v(1))
qed

lemma copies_copy [copies_intro]:
  assumes "flat T"
  shows "copies (YSlice T) (if_not_nil (make_copy T))"
proof (rule copies_if_not_nil)
  fix v m t assume "typed (YSlice T) t" "t \<noteq> TNil" "reads (\<lambda>_. True) m t v"
  then obtain ts where t: "t = TSlice ts" "list_all (typed T) ts" by (auto split: gtree.splits)
  obtain a off n us where v: "v = GSlice a off n" "load m a = Some (CArr us)" "off + n \<le> length us"
      "list_all2 (reads (\<lambda>_. True) m) ts (take n (drop off us))"
    using \<open>reads (\<lambda>_. True) m t v\<close> unfolding t reads_slice by blast
  let ?src = "take n (drop off us)"
  have src: "length ?src = n" using v(3) by simp
  have "list_all2 (reads (\<lambda>a. length m \<le> a) (m @ [CArr ?src])) ts ?src"
    by (rule list.rel_mono_strong [OF v(4)]) (use t(2) assms reads_flat in \<open>auto simp: list_all_iff\<close>)
  then have "reads (\<lambda>a. length m \<le> a) (m @ [CArr ?src]) t (GSlice (length m) 0 n)"
    using src by (simp add: t reads_slice load_def nth_append)
  then show "\<exists>v' m'. make_copy T v m = Some (v', m') \<and> grows m m' \<and> reads (\<lambda>a. length m \<le> a) m' t v'"
    using src v(2,3) by (simp add: make_copy_def v(1) grows_append)
qed

lemma range_map:
  "distinct (map fst (out @ kvs)) \<Longrightarrow> foldl (\<lambda>out (key, val). AList.update key val out) out kvs = out @ kvs"
proof (induction kvs arbitrary: out)
  case (Cons kv kvs)
  obtain k v where kv: "kv = (k, v)" by fastforce
  have "AList.update k v out = out @ [(k, v)]"
    using Cons.prems kv by (induction out) auto
  then show ?case using Cons.IH [of "out @ [(k, v)]"] Cons.prems kv by simp
qed simp

lemma copies_map [copies_intro]:
  assumes "flat T"
  shows "copies (YMap T) (if_not_nil make_map)"
proof (rule copies_if_not_nil)
  fix v m t assume "typed (YMap T) t" "t \<noteq> TNil" "reads (\<lambda>_. True) m t v"
  then obtain kts where t: "t = TMap kts" "distinct (map fst kts)" "list_all (\<lambda>kt. typed T (snd kt)) kts"
    by (auto split: gtree.splits)
  obtain a kvs where v: "v = GMap a" "load m a = Some (CMap kvs)"
      "list_all2 (\<lambda>x y. fst x = fst y \<and> reads (\<lambda>_. True) m (snd x) (snd y)) kts kvs"
    using \<open>reads (\<lambda>_. True) m t v\<close> unfolding t reads_map by blast
  have "map fst kvs = map fst kts" using v(3) by (auto simp: list_eq_iff_nth_eq list_all2_conv_all_nth)
  then have fold: "foldl (\<lambda>out (key, val). AList.update key val out) [] kvs = kvs"
    using range_map [of "[]" kvs] t(2) by simp
  have "list_all2 (\<lambda>x y. fst x = fst y \<and> reads (\<lambda>a. length m \<le> a) (m @ [CMap kvs]) (snd x) (snd y)) kts kvs"
    by (rule list.rel_mono_strong [OF v(3)]) (use t(3) assms reads_flat in \<open>auto simp: list_all_iff\<close>)
  then have "reads (\<lambda>a. length m \<le> a) (m @ [CMap kvs]) t (GMap (length m))"
    by (simp add: t reads_map load_def nth_append)
  then show "\<exists>v' m'. make_map v m = Some (v', m') \<and> grows m m' \<and> reads (\<lambda>a. length m \<le> a) m' t v'"
    by (simp add: make_map_def v(1,2) fold grows_append)
qed

section \<open>Structs\<close>

text \<open>Every statement is right for its field, and the fields without one have no references.\<close>

definition field_copiers :: "(string \<times> gty) list \<Rightarrow> (string \<times> copier) list \<Rightarrow> bool" where
  "field_copiers fTs ss \<longleftrightarrow> distinct (map fst fTs)
     \<and> list_all (\<lambda>(f, g). case map_of fTs f of None \<Rightarrow> False | Some T \<Rightarrow> copies T g) ss
     \<and> list_all (\<lambda>(f, T). f \<in> set (map fst ss) \<or> flat T) fTs"

text \<open>The struct being written: the fields in \<open>D\<close> are copied, the others as in the source.\<close>

definition partly ::
  "mem \<Rightarrow> string set \<Rightarrow> (string \<times> gtree) list \<Rightarrow> (string \<times> gval) list \<Rightarrow> mem \<Rightarrow> (string \<times> gval) list \<Rightarrow> bool" where
  "partly m0 D fts fvs m ovs \<longleftrightarrow> grows m0 m \<and> length ovs = length fvs
     \<and> (\<forall>i < length fvs. fst (ovs ! i) = fst (fvs ! i)
          \<and> (if fst (fvs ! i) \<in> D then reads (\<lambda>a. length m0 \<le> a) m (snd (fts ! i)) (snd (ovs ! i))
              else ovs ! i = fvs ! i))"

lemma partly_set:
  assumes "partly m0 D fts fvs m ovs" "grows m m'"
    and "\<And>i. i < length fvs \<Longrightarrow> fst (fvs ! i) = f \<Longrightarrow> reads (\<lambda>a. length m0 \<le> a) m' (snd (fts ! i)) y"
  shows "partly m0 (insert f D) fts fvs m' (map (\<lambda>fv. if fst fv = f then (f, y) else fv) ovs)"
  using assms grows_trans reads_grows [OF assms(2)] by (auto simp: partly_def)

lemma set_fields_copies:
  assumes "field_copiers fTs ss0" "set ss \<subseteq> set ss0"
    and "list_all2 (\<lambda>fT ft. fst fT = fst ft \<and> typed (snd fT) (snd ft)) fTs fts"
    and "list_all2 (\<lambda>x y. fst x = fst y \<and> reads (\<lambda>_. True) m0 (snd x) (snd y)) fts fvs"
    and "partly m0 D fts fvs m ovs"
  shows "\<exists>m' ovs'. set_fields ss (GStruct fvs) (GStruct ovs) m = Some (GStruct ovs', m')
    \<and> partly m0 (D \<union> set (map fst ss)) fts fvs m' ovs'"
  using assms(2,5)
proof (induction ss arbitrary: D m ovs)
  case (Cons s ss)
  obtain f g where s: "s = (f, g)" by fastforce
  have dist: "distinct (map fst fTs)" using assms(1) by (simp add: field_copiers_def)
  have names: "map fst fvs = map fst fTs" "map fst fts = map fst fTs" and len: "length fts = length fTs" "length fvs = length fTs"
    using assms(3,4) by (auto simp: list_eq_iff_nth_eq list_all2_conv_all_nth)
  have "(f, g) \<in> set ss0" using Cons.prems(1) s by simp
  then obtain T where T: "map_of fTs f = Some T" "copies T g"
    using assms(1) by (fastforce simp: field_copiers_def list_all_iff split: option.splits)
  then obtain i where i: "i < length fTs" "fTs ! i = (f, T)" by (metis in_set_conv_nth map_of_SomeD)
  have fi: "fst (fts ! i) = f" "fst (fvs ! i) = f" "typed T (snd (fts ! i))" "reads (\<lambda>_. True) m0 (snd (fts ! i)) (snd (fvs ! i))"
    using assms(3,4) i len by (auto simp: list_all2_conv_all_nth)
  have only: "j = i" if "j < length fvs" "fst (fvs ! j) = f" for j
    using that dist i fi(2) names(1) len by (metis length_map nth_eq_iff_index_eq nth_map)
  have "map_of fvs f = Some (snd (fvs ! i))"
    using dist names(1) i len fi(2) by (metis map_of_is_SomeI nth_mem prod.collapse)
  then have get: "get_field f (GStruct fvs) = Some (snd (fvs ! i))" by (simp add: get_field_def)
  have gr: "grows m0 m" using Cons.prems(2) by (simp add: partly_def)
  obtain y m' where y: "g (snd (fvs ! i)) m = Some (y, m')" "grows m m'" "reads (\<lambda>a. length m \<le> a) m' (snd (fts ! i)) y"
    by (rule copiesD [OF T(2) fi(3) reads_grows [OF gr fi(4)]])
  have "reads (\<lambda>a. length m0 \<le> a) m' (snd (fts ! i)) y"
    by (rule reads_weaken [OF y(3)]) (use gr in \<open>simp add: grows_def\<close>)
  then have set': "partly m0 (insert f D) fts fvs m' (map (\<lambda>fv. if fst fv = f then (f, y) else fv) ovs)"
    using only by (intro partly_set [OF Cons.prems(2) y(2)]) auto
  obtain m2 ovs2 where "set_fields ss (GStruct fvs) (GStruct (map (\<lambda>fv. if fst fv = f then (f, y) else fv) ovs)) m'
      = Some (GStruct ovs2, m2)" "partly m0 (insert f D \<union> set (map fst ss)) fts fvs m2 ovs2"
    using Cons.IH [OF _ set'] Cons.prems(1) by auto
  then show ?case by (simp add: s get y(1) set_field_def)
qed simp

lemma copies_struct:
  assumes "field_copiers fTs ss"
  shows "copies (YStruct fTs) (struct_into ss)"
proof (rule copiesI)
  fix v m t assume "typed (YStruct fTs) t" "reads (\<lambda>_. True) m t v"
  then obtain fts fvs where t: "t = TStruct fts" and v: "v = GStruct fvs"
    and T: "list_all2 (\<lambda>fT ft. fst fT = fst ft \<and> typed (snd fT) (snd ft)) fTs fts"
    and R: "list_all2 (\<lambda>x y. fst x = fst y \<and> reads (\<lambda>_. True) m (snd x) (snd y)) fts fvs"
    by (auto simp: reads_struct split: gtree.splits)
  have start: "partly m {} fts fvs m fvs" by (simp add: partly_def)
  obtain m' ovs where o: "set_fields ss v v m = Some (GStruct ovs, m')"
      "partly m (set (map fst ss)) fts fvs m' ovs"
    using set_fields_copies [OF assms subset_refl T R start] v by auto
  have len: "length fts = length fTs" "length fvs = length fTs" using T R by (simp_all add: list_all2_lengthD)
  have "fst (fts ! i) = fst (ovs ! i) \<and> reads (\<lambda>a. length m \<le> a) m' (snd (fts ! i)) (snd (ovs ! i))" if i: "i < length fts" for i
  proof -
    have nth: "fst (fTs ! i) = fst (fts ! i)" "typed (snd (fTs ! i)) (snd (fts ! i))" "fst (fts ! i) = fst (fvs ! i)"
        "reads (\<lambda>_. True) m (snd (fts ! i)) (snd (fvs ! i))"
      using T R i len by (auto simp: list_all2_conv_all_nth)
    have p: "fst (ovs ! i) = fst (fvs ! i)" "if fst (fvs ! i) \<in> set (map fst ss)
        then reads (\<lambda>a. length m \<le> a) m' (snd (fts ! i)) (snd (ovs ! i)) else ovs ! i = fvs ! i"
      using o(2) i len by (simp_all add: partly_def)
    show ?thesis
    proof (cases "fst (fvs ! i) \<in> set (map fst ss)")
      case True
      then show ?thesis using p nth(3) by simp
    next
      case False
      have "fTs ! i \<in> set fTs" using i len by simp
      then have "case fTs ! i of (f, T) \<Rightarrow> f \<in> set (map fst ss) \<or> flat T"
        using assms unfolding field_copiers_def list_all_iff by (metis (no_types, lifting))
      then have "fst (fTs ! i) \<in> set (map fst ss) \<or> flat (snd (fTs ! i))" by (cases "fTs ! i") simp
      then have "flat (snd (fTs ! i))" using False nth(1,3) by simp
      from reads_flat [OF this nth(2,4)] show ?thesis using p False nth(3) by simp
    qed
  qed
  then have "reads (\<lambda>a. length m \<le> a) m' t (GStruct ovs)"
    using o(2) len by (simp add: t reads_struct list_all2_conv_all_nth partly_def)
  then show "\<exists>v' m'. struct_into ss v m = Some (v', m') \<and> grows m m' \<and> reads (\<lambda>a. length m \<le> a) m' t v'"
    using o by (simp add: struct_into_def partly_def)
qed

end
