(* ===== verification/DeepCopy.thy ===== *)
theory DeepCopy
  imports GoHeap
begin

text \<open>
  The generated deep copies of \<open>src/api/v1alpha1/zz_generated.deepcopy.go\<close>, type by type: the
  layout of the struct, its \<open>DeepCopyInto\<close> with one statement per line of the code, and its
  \<open>DeepCopy\<close>. controller-runtime hands the objects of its cache to the controller through them.
  What they call of \<open>k8s.io/apimachinery\<close> is a parameter.
\<close>

section \<open>The library's types\<close>

record metaLib =
  TypeMeta_t :: gty
  Time_t :: gty
  ObjectMeta_t :: gty
  ListMeta_t :: gty
  Time_DeepCopy :: copier
  ObjectMeta_DeepCopyInto :: copier
  ListMeta_DeepCopyInto :: copier

text \<open>\<open>TypeMeta\<close> is two strings; the copies of the library are deep copies.\<close>

definition lib_ok :: "metaLib \<Rightarrow> bool" where
  "lib_ok L \<longleftrightarrow> flat (TypeMeta_t L) \<and> copies (YPtr (Time_t L)) (Time_DeepCopy L)
     \<and> copies (ObjectMeta_t L) (ObjectMeta_DeepCopyInto L)
     \<and> copies (ListMeta_t L) (ListMeta_DeepCopyInto L)"

lemma lib_flat [simp]: "lib_ok L \<Longrightarrow> flat (TypeMeta_t L)"
  by (simp add: lib_ok_def)

lemma lib_copies [copies_intro]:
  "lib_ok L \<Longrightarrow> copies (YPtr (Time_t L)) (Time_DeepCopy L)"
  "lib_ok L \<Longrightarrow> copies (ObjectMeta_t L) (ObjectMeta_DeepCopyInto L)"
  "lib_ok L \<Longrightarrow> copies (ListMeta_t L) (ListMeta_DeepCopyInto L)"
  by (simp_all add: lib_ok_def)

section \<open>The types\<close>

subsection \<open>BlastRadiusSpec\<close>

definition BlastRadiusSpec_t :: "gty" where
  "BlastRadiusSpec_t = YStruct
    [(''DurationSeconds'', YInt 64),
     (''MaxTrafficPercent'', YInt 32),
     (''Scope'', YStr),
     (''MaxPodsAffected'', YInt 64)]"

definition BlastRadiusSpec_DeepCopyInto :: "copier" where
  "BlastRadiusSpec_DeepCopyInto = assign"

definition BlastRadiusSpec_DeepCopy :: "copier" where
  "BlastRadiusSpec_DeepCopy = deep_copy BlastRadiusSpec_t BlastRadiusSpec_DeepCopyInto"

lemma BlastRadiusSpec_flat [simp]: "flat BlastRadiusSpec_t"
  by (simp add: BlastRadiusSpec_t_def)

lemma BlastRadiusSpec_copies [copies_intro]: "copies BlastRadiusSpec_t BlastRadiusSpec_DeepCopyInto"
  by (simp add: BlastRadiusSpec_DeepCopyInto_def copies_assign)

subsection \<open>VirtualServiceRef\<close>

definition VirtualServiceRef_t :: "gty" where
  "VirtualServiceRef_t = YStruct
    [(''Name'', YStr)]"

definition VirtualServiceRef_DeepCopyInto :: "copier" where
  "VirtualServiceRef_DeepCopyInto = assign"

definition VirtualServiceRef_DeepCopy :: "copier" where
  "VirtualServiceRef_DeepCopy = deep_copy VirtualServiceRef_t VirtualServiceRef_DeepCopyInto"

lemma VirtualServiceRef_flat [simp]: "flat VirtualServiceRef_t"
  by (simp add: VirtualServiceRef_t_def)

lemma VirtualServiceRef_copies [copies_intro]: "copies VirtualServiceRef_t VirtualServiceRef_DeepCopyInto"
  by (simp add: VirtualServiceRef_DeepCopyInto_def copies_assign)

subsection \<open>LabelSelector\<close>

definition LabelSelector_t :: "gty" where
  "LabelSelector_t = YStruct
    [(''MatchLabels'', YMap YStr)]"

definition LabelSelector_DeepCopyInto :: "copier" where
  "LabelSelector_DeepCopyInto = struct_into
    [(''MatchLabels'', if_not_nil make_map)]"

definition LabelSelector_DeepCopy :: "copier" where
  "LabelSelector_DeepCopy = deep_copy LabelSelector_t LabelSelector_DeepCopyInto"

lemma LabelSelector_copies [copies_intro]: "copies LabelSelector_t LabelSelector_DeepCopyInto"
  unfolding LabelSelector_t_def LabelSelector_DeepCopyInto_def
  by (rule copies_struct) (simp add: field_copiers_def copies_intro)

subsection \<open>HTTPMatch\<close>

definition HTTPMatch_t :: "gty" where
  "HTTPMatch_t = YStruct
    [(''URIPrefix'', YStr),
     (''URIExact'', YStr),
     (''Headers'', YMap YStr)]"

definition HTTPMatch_DeepCopyInto :: "copier" where
  "HTTPMatch_DeepCopyInto = struct_into
    [(''Headers'', if_not_nil make_map)]"

definition HTTPMatch_DeepCopy :: "copier" where
  "HTTPMatch_DeepCopy = deep_copy HTTPMatch_t HTTPMatch_DeepCopyInto"

lemma HTTPMatch_copies [copies_intro]: "copies HTTPMatch_t HTTPMatch_DeepCopyInto"
  unfolding HTTPMatch_t_def HTTPMatch_DeepCopyInto_def
  by (rule copies_struct) (simp add: field_copiers_def copies_intro)

subsection \<open>HTTPRouteTarget\<close>

definition HTTPRouteTarget_t :: "gty" where
  "HTTPRouteTarget_t = YStruct
    [(''Match'', HTTPMatch_t)]"

definition HTTPRouteTarget_DeepCopyInto :: "copier" where
  "HTTPRouteTarget_DeepCopyInto = struct_into
    [(''Match'', HTTPMatch_DeepCopyInto)]"

definition HTTPRouteTarget_DeepCopy :: "copier" where
  "HTTPRouteTarget_DeepCopy = deep_copy HTTPRouteTarget_t HTTPRouteTarget_DeepCopyInto"

lemma HTTPRouteTarget_copies [copies_intro]: "copies HTTPRouteTarget_t HTTPRouteTarget_DeepCopyInto"
  unfolding HTTPRouteTarget_t_def HTTPRouteTarget_DeepCopyInto_def
  by (rule copies_struct) (simp add: field_copiers_def copies_intro)

subsection \<open>DelayConfig\<close>

definition DelayConfig_t :: "gty" where
  "DelayConfig_t = YStruct
    [(''FixedDelaySeconds'', YInt 32)]"

definition DelayConfig_DeepCopyInto :: "copier" where
  "DelayConfig_DeepCopyInto = assign"

definition DelayConfig_DeepCopy :: "copier" where
  "DelayConfig_DeepCopy = deep_copy DelayConfig_t DelayConfig_DeepCopyInto"

lemma DelayConfig_flat [simp]: "flat DelayConfig_t"
  by (simp add: DelayConfig_t_def)

lemma DelayConfig_copies [copies_intro]: "copies DelayConfig_t DelayConfig_DeepCopyInto"
  by (simp add: DelayConfig_DeepCopyInto_def copies_assign)

subsection \<open>AbortConfig\<close>

definition AbortConfig_t :: "gty" where
  "AbortConfig_t = YStruct
    [(''HTTPStatus'', YInt 32)]"

definition AbortConfig_DeepCopyInto :: "copier" where
  "AbortConfig_DeepCopyInto = assign"

definition AbortConfig_DeepCopy :: "copier" where
  "AbortConfig_DeepCopy = deep_copy AbortConfig_t AbortConfig_DeepCopyInto"

lemma AbortConfig_flat [simp]: "flat AbortConfig_t"
  by (simp add: AbortConfig_t_def)

lemma AbortConfig_copies [copies_intro]: "copies AbortConfig_t AbortConfig_DeepCopyInto"
  by (simp add: AbortConfig_DeepCopyInto_def copies_assign)

subsection \<open>TimeoutConfig\<close>

definition TimeoutConfig_t :: "gty" where
  "TimeoutConfig_t = YStruct
    [(''TimeoutSeconds'', YInt 32)]"

definition TimeoutConfig_DeepCopyInto :: "copier" where
  "TimeoutConfig_DeepCopyInto = assign"

definition TimeoutConfig_DeepCopy :: "copier" where
  "TimeoutConfig_DeepCopy = deep_copy TimeoutConfig_t TimeoutConfig_DeepCopyInto"

lemma TimeoutConfig_flat [simp]: "flat TimeoutConfig_t"
  by (simp add: TimeoutConfig_t_def)

lemma TimeoutConfig_copies [copies_intro]: "copies TimeoutConfig_t TimeoutConfig_DeepCopyInto"
  by (simp add: TimeoutConfig_DeepCopyInto_def copies_assign)

subsection \<open>HTTPFaultSpec\<close>

definition HTTPFaultSpec_t :: "gty" where
  "HTTPFaultSpec_t = YStruct
    [(''VirtualServiceRef'', YPtr VirtualServiceRef_t),
     (''DestinationHosts'', YSlice YStr),
     (''SourceSelector'', YPtr LabelSelector_t),
     (''Routes'', YSlice HTTPRouteTarget_t),
     (''Delay'', YPtr DelayConfig_t),
     (''Abort'', YPtr AbortConfig_t),
     (''Timeout'', YPtr TimeoutConfig_t)]"

definition HTTPFaultSpec_DeepCopyInto :: "copier" where
  "HTTPFaultSpec_DeepCopyInto = struct_into
    [(''VirtualServiceRef'', if_not_nil (new_into VirtualServiceRef_t assign)),
     (''DestinationHosts'', if_not_nil (make_copy YStr)),
     (''SourceSelector'', if_not_nil (new_into LabelSelector_t LabelSelector_DeepCopyInto)),
     (''Routes'', if_not_nil (make_into HTTPRouteTarget_t HTTPRouteTarget_DeepCopyInto)),
     (''Delay'', if_not_nil (new_into DelayConfig_t assign)),
     (''Abort'', if_not_nil (new_into AbortConfig_t assign)),
     (''Timeout'', if_not_nil (new_into TimeoutConfig_t assign))]"

definition HTTPFaultSpec_DeepCopy :: "copier" where
  "HTTPFaultSpec_DeepCopy = deep_copy HTTPFaultSpec_t HTTPFaultSpec_DeepCopyInto"

lemma HTTPFaultSpec_copies [copies_intro]: "copies HTTPFaultSpec_t HTTPFaultSpec_DeepCopyInto"
  unfolding HTTPFaultSpec_t_def HTTPFaultSpec_DeepCopyInto_def
  by (rule copies_struct) (simp add: field_copiers_def copies_intro)

subsection \<open>MeshFaultAction\<close>

definition MeshFaultAction_t :: "gty" where
  "MeshFaultAction_t = YStruct
    [(''Name'', YStr),
     (''Direction'', YStr),
     (''Type'', YStr),
     (''Percent'', YInt 32),
     (''HTTP'', HTTPFaultSpec_t)]"

definition MeshFaultAction_DeepCopyInto :: "copier" where
  "MeshFaultAction_DeepCopyInto = struct_into
    [(''HTTP'', HTTPFaultSpec_DeepCopyInto)]"

definition MeshFaultAction_DeepCopy :: "copier" where
  "MeshFaultAction_DeepCopy = deep_copy MeshFaultAction_t MeshFaultAction_DeepCopyInto"

lemma MeshFaultAction_copies [copies_intro]: "copies MeshFaultAction_t MeshFaultAction_DeepCopyInto"
  unfolding MeshFaultAction_t_def MeshFaultAction_DeepCopyInto_def
  by (rule copies_struct) (simp add: field_copiers_def copies_intro)

subsection \<open>PodTargetSpec\<close>

definition PodTargetSpec_t :: "gty" where
  "PodTargetSpec_t = YStruct
    [(''Namespace'', YStr),
     (''Selector'', LabelSelector_t)]"

definition PodTargetSpec_DeepCopyInto :: "copier" where
  "PodTargetSpec_DeepCopyInto = struct_into
    [(''Selector'', LabelSelector_DeepCopyInto)]"

definition PodTargetSpec_DeepCopy :: "copier" where
  "PodTargetSpec_DeepCopy = deep_copy PodTargetSpec_t PodTargetSpec_DeepCopyInto"

lemma PodTargetSpec_copies [copies_intro]: "copies PodTargetSpec_t PodTargetSpec_DeepCopyInto"
  unfolding PodTargetSpec_t_def PodTargetSpec_DeepCopyInto_def
  by (rule copies_struct) (simp add: field_copiers_def copies_intro)

subsection \<open>PodSelectionSpec\<close>

definition PodSelectionSpec_t :: "gty" where
  "PodSelectionSpec_t = YStruct
    [(''Mode'', YStr),
     (''Count'', YPtr (YInt 32)),
     (''Percent'', YPtr (YInt 32)),
     (''MaxPodsAffected'', YPtr (YInt 32))]"

definition PodSelectionSpec_DeepCopyInto :: "copier" where
  "PodSelectionSpec_DeepCopyInto = struct_into
    [(''Count'', if_not_nil (new_into (YInt 32) assign)),
     (''Percent'', if_not_nil (new_into (YInt 32) assign)),
     (''MaxPodsAffected'', if_not_nil (new_into (YInt 32) assign))]"

definition PodSelectionSpec_DeepCopy :: "copier" where
  "PodSelectionSpec_DeepCopy = deep_copy PodSelectionSpec_t PodSelectionSpec_DeepCopyInto"

lemma PodSelectionSpec_copies [copies_intro]: "copies PodSelectionSpec_t PodSelectionSpec_DeepCopyInto"
  unfolding PodSelectionSpec_t_def PodSelectionSpec_DeepCopyInto_def
  by (rule copies_struct) (simp add: field_copiers_def copies_intro)

subsection \<open>PodTerminationSpec\<close>

definition PodTerminationSpec_t :: "gty" where
  "PodTerminationSpec_t = YStruct
    [(''Mode'', YStr),
     (''GracePeriodSeconds'', YInt 64)]"

definition PodTerminationSpec_DeepCopyInto :: "copier" where
  "PodTerminationSpec_DeepCopyInto = assign"

definition PodTerminationSpec_DeepCopy :: "copier" where
  "PodTerminationSpec_DeepCopy = deep_copy PodTerminationSpec_t PodTerminationSpec_DeepCopyInto"

lemma PodTerminationSpec_flat [simp]: "flat PodTerminationSpec_t"
  by (simp add: PodTerminationSpec_t_def)

lemma PodTerminationSpec_copies [copies_intro]: "copies PodTerminationSpec_t PodTerminationSpec_DeepCopyInto"
  by (simp add: PodTerminationSpec_DeepCopyInto_def copies_assign)

subsection \<open>PodFaultPolicy\<close>

definition PodFaultPolicy_t :: "gty" where
  "PodFaultPolicy_t = YStruct
    [(''ExecutionMode'', YStr)]"

definition PodFaultPolicy_DeepCopyInto :: "copier" where
  "PodFaultPolicy_DeepCopyInto = assign"

definition PodFaultPolicy_DeepCopy :: "copier" where
  "PodFaultPolicy_DeepCopy = deep_copy PodFaultPolicy_t PodFaultPolicy_DeepCopyInto"

lemma PodFaultPolicy_flat [simp]: "flat PodFaultPolicy_t"
  by (simp add: PodFaultPolicy_t_def)

lemma PodFaultPolicy_copies [copies_intro]: "copies PodFaultPolicy_t PodFaultPolicy_DeepCopyInto"
  by (simp add: PodFaultPolicy_DeepCopyInto_def copies_assign)

subsection \<open>PodWindowSpec\<close>

definition PodWindowSpec_t :: "gty" where
  "PodWindowSpec_t = YStruct
    [(''IntervalSeconds'', YInt 32),
     (''MaxTotalPodsAffected'', YInt 32)]"

definition PodWindowSpec_DeepCopyInto :: "copier" where
  "PodWindowSpec_DeepCopyInto = assign"

definition PodWindowSpec_DeepCopy :: "copier" where
  "PodWindowSpec_DeepCopy = deep_copy PodWindowSpec_t PodWindowSpec_DeepCopyInto"

lemma PodWindowSpec_flat [simp]: "flat PodWindowSpec_t"
  by (simp add: PodWindowSpec_t_def)

lemma PodWindowSpec_copies [copies_intro]: "copies PodWindowSpec_t PodWindowSpec_DeepCopyInto"
  by (simp add: PodWindowSpec_DeepCopyInto_def copies_assign)

subsection \<open>PodGuardrailsSpec\<close>

definition PodGuardrailsSpec_t :: "gty" where
  "PodGuardrailsSpec_t = YStruct
    [(''RefuseIfPodsLessThan'', YInt 32),
     (''RespectPodDisruptionBudget'', YBool)]"

definition PodGuardrailsSpec_DeepCopyInto :: "copier" where
  "PodGuardrailsSpec_DeepCopyInto = assign"

definition PodGuardrailsSpec_DeepCopy :: "copier" where
  "PodGuardrailsSpec_DeepCopy = deep_copy PodGuardrailsSpec_t PodGuardrailsSpec_DeepCopyInto"

lemma PodGuardrailsSpec_flat [simp]: "flat PodGuardrailsSpec_t"
  by (simp add: PodGuardrailsSpec_t_def)

lemma PodGuardrailsSpec_copies [copies_intro]: "copies PodGuardrailsSpec_t PodGuardrailsSpec_DeepCopyInto"
  by (simp add: PodGuardrailsSpec_DeepCopyInto_def copies_assign)

subsection \<open>PodFaultAction\<close>

definition PodFaultAction_t :: "gty" where
  "PodFaultAction_t = YStruct
    [(''Name'', YStr),
     (''Type'', YStr),
     (''Target'', PodTargetSpec_t),
     (''Selection'', PodSelectionSpec_t),
     (''Termination'', PodTerminationSpec_t),
     (''Policy'', YPtr PodFaultPolicy_t),
     (''Window'', YPtr PodWindowSpec_t),
     (''Guardrails'', PodGuardrailsSpec_t)]"

definition PodFaultAction_DeepCopyInto :: "copier" where
  "PodFaultAction_DeepCopyInto = struct_into
    [(''Target'', PodTargetSpec_DeepCopyInto),
     (''Selection'', PodSelectionSpec_DeepCopyInto),
     (''Termination'', assign),
     (''Policy'', if_not_nil (new_into PodFaultPolicy_t assign)),
     (''Window'', if_not_nil (new_into PodWindowSpec_t assign)),
     (''Guardrails'', assign)]"

definition PodFaultAction_DeepCopy :: "copier" where
  "PodFaultAction_DeepCopy = deep_copy PodFaultAction_t PodFaultAction_DeepCopyInto"

lemma PodFaultAction_copies [copies_intro]: "copies PodFaultAction_t PodFaultAction_DeepCopyInto"
  unfolding PodFaultAction_t_def PodFaultAction_DeepCopyInto_def
  by (rule copies_struct) (simp add: field_copiers_def copies_intro)

subsection \<open>ActionsSpec\<close>

definition ActionsSpec_t :: "gty" where
  "ActionsSpec_t = YStruct
    [(''MeshFaults'', YSlice MeshFaultAction_t),
     (''PodFaults'', YSlice PodFaultAction_t)]"

definition ActionsSpec_DeepCopyInto :: "copier" where
  "ActionsSpec_DeepCopyInto = struct_into
    [(''MeshFaults'', if_not_nil (make_into MeshFaultAction_t MeshFaultAction_DeepCopyInto)),
     (''PodFaults'', if_not_nil (make_into PodFaultAction_t PodFaultAction_DeepCopyInto))]"

definition ActionsSpec_DeepCopy :: "copier" where
  "ActionsSpec_DeepCopy = deep_copy ActionsSpec_t ActionsSpec_DeepCopyInto"

lemma ActionsSpec_copies [copies_intro]: "copies ActionsSpec_t ActionsSpec_DeepCopyInto"
  unfolding ActionsSpec_t_def ActionsSpec_DeepCopyInto_def
  by (rule copies_struct) (simp add: field_copiers_def copies_intro)

subsection \<open>StopDefaults\<close>

definition StopDefaults_t :: "gty" where
  "StopDefaults_t = YStruct
    [(''IntervalSeconds'', YInt 32),
     (''WindowSeconds'', YInt 32),
     (''ConsecutiveBreaches'', YInt 32)]"

definition StopDefaults_DeepCopyInto :: "copier" where
  "StopDefaults_DeepCopyInto = assign"

definition StopDefaults_DeepCopy :: "copier" where
  "StopDefaults_DeepCopy = deep_copy StopDefaults_t StopDefaults_DeepCopyInto"

lemma StopDefaults_flat [simp]: "flat StopDefaults_t"
  by (simp add: StopDefaults_t_def)

lemma StopDefaults_copies [copies_intro]: "copies StopDefaults_t StopDefaults_DeepCopyInto"
  by (simp add: StopDefaults_DeepCopyInto_def copies_assign)

subsection \<open>MetricRef\<close>

definition MetricRef_t :: "gty" where
  "MetricRef_t = YStruct
    [(''Name'', YStr),
     (''Type'', YStr)]"

definition MetricRef_DeepCopyInto :: "copier" where
  "MetricRef_DeepCopyInto = assign"

definition MetricRef_DeepCopy :: "copier" where
  "MetricRef_DeepCopy = deep_copy MetricRef_t MetricRef_DeepCopyInto"

lemma MetricRef_flat [simp]: "flat MetricRef_t"
  by (simp add: MetricRef_t_def)

lemma MetricRef_copies [copies_intro]: "copies MetricRef_t MetricRef_DeepCopyInto"
  by (simp add: MetricRef_DeepCopyInto_def copies_assign)

subsection \<open>MetricQuery\<close>

definition MetricQuery_t :: "gty" where
  "MetricQuery_t = YStruct
    [(''Kind'', YStr),
     (''Aggregation'', YStr),
     (''Quantile'', YPtr YFloat)]"

definition MetricQuery_DeepCopyInto :: "copier" where
  "MetricQuery_DeepCopyInto = struct_into
    [(''Quantile'', if_not_nil (new_into YFloat assign))]"

definition MetricQuery_DeepCopy :: "copier" where
  "MetricQuery_DeepCopy = deep_copy MetricQuery_t MetricQuery_DeepCopyInto"

lemma MetricQuery_copies [copies_intro]: "copies MetricQuery_t MetricQuery_DeepCopyInto"
  unfolding MetricQuery_t_def MetricQuery_DeepCopyInto_def
  by (rule copies_struct) (simp add: field_copiers_def copies_intro)

subsection \<open>MetricMatch\<close>

definition MetricMatch_t :: "gty" where
  "MetricMatch_t = YStruct
    [(''Labels'', YMap YStr),
     (''GroupBy'', YSlice YStr)]"

definition MetricMatch_DeepCopyInto :: "copier" where
  "MetricMatch_DeepCopyInto = struct_into
    [(''Labels'', if_not_nil make_map),
     (''GroupBy'', if_not_nil (make_copy YStr))]"

definition MetricMatch_DeepCopy :: "copier" where
  "MetricMatch_DeepCopy = deep_copy MetricMatch_t MetricMatch_DeepCopyInto"

lemma MetricMatch_copies [copies_intro]: "copies MetricMatch_t MetricMatch_DeepCopyInto"
  unfolding MetricMatch_t_def MetricMatch_DeepCopyInto_def
  by (rule copies_struct) (simp add: field_copiers_def copies_intro)

subsection \<open>StructuredQuery\<close>

definition StructuredQuery_t :: "gty" where
  "StructuredQuery_t = YStruct
    [(''Metric'', MetricRef_t),
     (''Query'', MetricQuery_t),
     (''Match'', MetricMatch_t)]"

definition StructuredQuery_DeepCopyInto :: "copier" where
  "StructuredQuery_DeepCopyInto = struct_into
    [(''Metric'', assign),
     (''Query'', MetricQuery_DeepCopyInto),
     (''Match'', MetricMatch_DeepCopyInto)]"

definition StructuredQuery_DeepCopy :: "copier" where
  "StructuredQuery_DeepCopy = deep_copy StructuredQuery_t StructuredQuery_DeepCopyInto"

lemma StructuredQuery_copies [copies_intro]: "copies StructuredQuery_t StructuredQuery_DeepCopyInto"
  unfolding StructuredQuery_t_def StructuredQuery_DeepCopyInto_def
  by (rule copies_struct) (simp add: field_copiers_def copies_intro)

subsection \<open>MetricCompare\<close>

definition MetricCompare_t :: "gty" where
  "MetricCompare_t = YStruct
    [(''Op'', YStr),
     (''Threshold'', YFloat)]"

definition MetricCompare_DeepCopyInto :: "copier" where
  "MetricCompare_DeepCopyInto = assign"

definition MetricCompare_DeepCopy :: "copier" where
  "MetricCompare_DeepCopy = deep_copy MetricCompare_t MetricCompare_DeepCopyInto"

lemma MetricCompare_flat [simp]: "flat MetricCompare_t"
  by (simp add: MetricCompare_t_def)

lemma MetricCompare_copies [copies_intro]: "copies MetricCompare_t MetricCompare_DeepCopyInto"
  by (simp add: MetricCompare_DeepCopyInto_def copies_assign)

subsection \<open>StopRule\<close>

definition StopRule_t :: "gty" where
  "StopRule_t = YStruct
    [(''Name'', YStr),
     (''IntervalSeconds'', YInt 32),
     (''WindowSeconds'', YInt 32),
     (''ConsecutiveBreaches'', YInt 32),
     (''PromQL'', YStr),
     (''Structured'', YPtr StructuredQuery_t),
     (''Compare'', MetricCompare_t)]"

definition StopRule_DeepCopyInto :: "copier" where
  "StopRule_DeepCopyInto = struct_into
    [(''Structured'', if_not_nil (new_into StructuredQuery_t StructuredQuery_DeepCopyInto)),
     (''Compare'', assign)]"

definition StopRule_DeepCopy :: "copier" where
  "StopRule_DeepCopy = deep_copy StopRule_t StopRule_DeepCopyInto"

lemma StopRule_copies [copies_intro]: "copies StopRule_t StopRule_DeepCopyInto"
  unfolding StopRule_t_def StopRule_DeepCopyInto_def
  by (rule copies_struct) (simp add: field_copiers_def copies_intro)

subsection \<open>StopConditionsSpec\<close>

definition StopConditionsSpec_t :: "gty" where
  "StopConditionsSpec_t = YStruct
    [(''OverallBreachesCount'', YPtr (YInt 32)),
     (''FailOnNoMetrics'', YPtr YBool),
     (''Defaults'', YPtr StopDefaults_t),
     (''Rules'', YSlice StopRule_t)]"

definition StopConditionsSpec_DeepCopyInto :: "copier" where
  "StopConditionsSpec_DeepCopyInto = struct_into
    [(''OverallBreachesCount'', if_not_nil (new_into (YInt 32) assign)),
     (''FailOnNoMetrics'', if_not_nil (new_into YBool assign)),
     (''Defaults'', if_not_nil (new_into StopDefaults_t assign)),
     (''Rules'', if_not_nil (make_into StopRule_t StopRule_DeepCopyInto))]"

definition StopConditionsSpec_DeepCopy :: "copier" where
  "StopConditionsSpec_DeepCopy = deep_copy StopConditionsSpec_t StopConditionsSpec_DeepCopyInto"

lemma StopConditionsSpec_copies [copies_intro]: "copies StopConditionsSpec_t StopConditionsSpec_DeepCopyInto"
  unfolding StopConditionsSpec_t_def StopConditionsSpec_DeepCopyInto_def
  by (rule copies_struct) (simp add: field_copiers_def copies_intro)

subsection \<open>FaultInjectionSpec\<close>

definition FaultInjectionSpec_t :: "gty" where
  "FaultInjectionSpec_t = YStruct
    [(''BlastRadius'', BlastRadiusSpec_t),
     (''Actions'', ActionsSpec_t),
     (''Cancel'', YBool),
     (''StopConditions'', YPtr StopConditionsSpec_t)]"

definition FaultInjectionSpec_DeepCopyInto :: "copier" where
  "FaultInjectionSpec_DeepCopyInto = struct_into
    [(''BlastRadius'', assign),
     (''Actions'', ActionsSpec_DeepCopyInto),
     (''StopConditions'', if_not_nil (new_into StopConditionsSpec_t StopConditionsSpec_DeepCopyInto))]"

definition FaultInjectionSpec_DeepCopy :: "copier" where
  "FaultInjectionSpec_DeepCopy = deep_copy FaultInjectionSpec_t FaultInjectionSpec_DeepCopyInto"

lemma FaultInjectionSpec_copies [copies_intro]: "copies FaultInjectionSpec_t FaultInjectionSpec_DeepCopyInto"
  unfolding FaultInjectionSpec_t_def FaultInjectionSpec_DeepCopyInto_def
  by (rule copies_struct) (simp add: field_copiers_def copies_intro)

subsection \<open>StopRuleStatus\<close>

definition StopRuleStatus_t :: "metaLib \<Rightarrow> gty" where
  "StopRuleStatus_t L = YStruct
    [(''Name'', YStr),
     (''LastEvaluatedAt'', YPtr (Time_t L)),
     (''BreachCount'', YInt 32),
     (''LastObserved'', YFloat),
     (''LastQuery'', YStr),
     (''Message'', YStr)]"

definition StopRuleStatus_DeepCopyInto :: "metaLib \<Rightarrow> copier" where
  "StopRuleStatus_DeepCopyInto L = struct_into
    [(''LastEvaluatedAt'', if_not_nil (Time_DeepCopy L))]"

definition StopRuleStatus_DeepCopy :: "metaLib \<Rightarrow> copier" where
  "StopRuleStatus_DeepCopy L = deep_copy (StopRuleStatus_t L) (StopRuleStatus_DeepCopyInto L)"

lemma StopRuleStatus_copies [copies_intro]: "lib_ok L \<Longrightarrow> copies (StopRuleStatus_t L) (StopRuleStatus_DeepCopyInto L)"
  unfolding StopRuleStatus_t_def StopRuleStatus_DeepCopyInto_def
  by (rule copies_struct) (simp add: field_copiers_def copies_intro)

subsection \<open>PodFaultTickStatus\<close>

definition PodFaultTickStatus_t :: "metaLib \<Rightarrow> gty" where
  "PodFaultTickStatus_t L = YStruct
    [(''ActionName'', YStr),
     (''TickID'', YStr),
     (''PlannedAt'', YPtr (Time_t L)),
     (''PlannedPods'', YSlice YStr),
     (''JobName'', YStr),
     (''ExecutedAt'', YPtr (Time_t L)),
     (''State'', YStr),
     (''Message'', YStr)]"

definition PodFaultTickStatus_DeepCopyInto :: "metaLib \<Rightarrow> copier" where
  "PodFaultTickStatus_DeepCopyInto L = struct_into
    [(''PlannedAt'', if_not_nil (Time_DeepCopy L)),
     (''PlannedPods'', if_not_nil (make_copy YStr)),
     (''ExecutedAt'', if_not_nil (Time_DeepCopy L))]"

definition PodFaultTickStatus_DeepCopy :: "metaLib \<Rightarrow> copier" where
  "PodFaultTickStatus_DeepCopy L = deep_copy (PodFaultTickStatus_t L) (PodFaultTickStatus_DeepCopyInto L)"

lemma PodFaultTickStatus_copies [copies_intro]: "lib_ok L \<Longrightarrow> copies (PodFaultTickStatus_t L) (PodFaultTickStatus_DeepCopyInto L)"
  unfolding PodFaultTickStatus_t_def PodFaultTickStatus_DeepCopyInto_def
  by (rule copies_struct) (simp add: field_copiers_def copies_intro)

subsection \<open>FaultInjectionStatus\<close>

definition FaultInjectionStatus_t :: "metaLib \<Rightarrow> gty" where
  "FaultInjectionStatus_t L = YStruct
    [(''Phase'', YStr),
     (''StartedAt'', YPtr (Time_t L)),
     (''ExpiresAt'', YPtr (Time_t L)),
     (''Message'', YStr),
     (''CancelledAt'', YPtr (Time_t L)),
     (''StopReason'', YStr),
     (''Rules'', YSlice (StopRuleStatus_t L)),
     (''PodFaults'', YSlice (PodFaultTickStatus_t L))]"

definition FaultInjectionStatus_DeepCopyInto :: "metaLib \<Rightarrow> copier" where
  "FaultInjectionStatus_DeepCopyInto L = struct_into
    [(''StartedAt'', if_not_nil (Time_DeepCopy L)),
     (''ExpiresAt'', if_not_nil (Time_DeepCopy L)),
     (''CancelledAt'', if_not_nil (Time_DeepCopy L)),
     (''Rules'', if_not_nil (make_into (StopRuleStatus_t L) (StopRuleStatus_DeepCopyInto L))),
     (''PodFaults'', if_not_nil (make_into (PodFaultTickStatus_t L) (PodFaultTickStatus_DeepCopyInto L)))]"

definition FaultInjectionStatus_DeepCopy :: "metaLib \<Rightarrow> copier" where
  "FaultInjectionStatus_DeepCopy L = deep_copy (FaultInjectionStatus_t L) (FaultInjectionStatus_DeepCopyInto L)"

lemma FaultInjectionStatus_copies [copies_intro]: "lib_ok L \<Longrightarrow> copies (FaultInjectionStatus_t L) (FaultInjectionStatus_DeepCopyInto L)"
  unfolding FaultInjectionStatus_t_def FaultInjectionStatus_DeepCopyInto_def
  by (rule copies_struct) (simp add: field_copiers_def copies_intro)

subsection \<open>FaultInjection\<close>

definition FaultInjection_t :: "metaLib \<Rightarrow> gty" where
  "FaultInjection_t L = YStruct
    [(''TypeMeta'', TypeMeta_t L),
     (''ObjectMeta'', ObjectMeta_t L),
     (''Spec'', FaultInjectionSpec_t),
     (''Status'', FaultInjectionStatus_t L)]"

definition FaultInjection_DeepCopyInto :: "metaLib \<Rightarrow> copier" where
  "FaultInjection_DeepCopyInto L = struct_into
    [(''TypeMeta'', assign),
     (''ObjectMeta'', ObjectMeta_DeepCopyInto L),
     (''Spec'', FaultInjectionSpec_DeepCopyInto),
     (''Status'', FaultInjectionStatus_DeepCopyInto L)]"

definition FaultInjection_DeepCopy :: "metaLib \<Rightarrow> copier" where
  "FaultInjection_DeepCopy L = deep_copy (FaultInjection_t L) (FaultInjection_DeepCopyInto L)"

lemma FaultInjection_copies [copies_intro]: "lib_ok L \<Longrightarrow> copies (FaultInjection_t L) (FaultInjection_DeepCopyInto L)"
  unfolding FaultInjection_t_def FaultInjection_DeepCopyInto_def
  by (rule copies_struct) (simp add: field_copiers_def copies_intro)

subsection \<open>FaultInjectionList\<close>

definition FaultInjectionList_t :: "metaLib \<Rightarrow> gty" where
  "FaultInjectionList_t L = YStruct
    [(''TypeMeta'', TypeMeta_t L),
     (''ListMeta'', ListMeta_t L),
     (''Items'', YSlice (FaultInjection_t L))]"

definition FaultInjectionList_DeepCopyInto :: "metaLib \<Rightarrow> copier" where
  "FaultInjectionList_DeepCopyInto L = struct_into
    [(''TypeMeta'', assign),
     (''ListMeta'', ListMeta_DeepCopyInto L),
     (''Items'', if_not_nil (make_into (FaultInjection_t L) (FaultInjection_DeepCopyInto L)))]"

definition FaultInjectionList_DeepCopy :: "metaLib \<Rightarrow> copier" where
  "FaultInjectionList_DeepCopy L = deep_copy (FaultInjectionList_t L) (FaultInjectionList_DeepCopyInto L)"

lemma FaultInjectionList_copies [copies_intro]: "lib_ok L \<Longrightarrow> copies (FaultInjectionList_t L) (FaultInjectionList_DeepCopyInto L)"
  unfolding FaultInjectionList_t_def FaultInjectionList_DeepCopyInto_def
  by (rule copies_struct) (simp add: field_copiers_def copies_intro)

section \<open>All of them\<close>

text \<open>The types with their generated \<open>DeepCopy\<close>.\<close>

definition generated_copies :: "metaLib \<Rightarrow> (gty \<times> copier) list" where
  "generated_copies L =
    [(BlastRadiusSpec_t, BlastRadiusSpec_DeepCopy),
     (VirtualServiceRef_t, VirtualServiceRef_DeepCopy),
     (LabelSelector_t, LabelSelector_DeepCopy),
     (HTTPMatch_t, HTTPMatch_DeepCopy),
     (HTTPRouteTarget_t, HTTPRouteTarget_DeepCopy),
     (DelayConfig_t, DelayConfig_DeepCopy),
     (AbortConfig_t, AbortConfig_DeepCopy),
     (TimeoutConfig_t, TimeoutConfig_DeepCopy),
     (HTTPFaultSpec_t, HTTPFaultSpec_DeepCopy),
     (MeshFaultAction_t, MeshFaultAction_DeepCopy),
     (PodTargetSpec_t, PodTargetSpec_DeepCopy),
     (PodSelectionSpec_t, PodSelectionSpec_DeepCopy),
     (PodTerminationSpec_t, PodTerminationSpec_DeepCopy),
     (PodFaultPolicy_t, PodFaultPolicy_DeepCopy),
     (PodWindowSpec_t, PodWindowSpec_DeepCopy),
     (PodGuardrailsSpec_t, PodGuardrailsSpec_DeepCopy),
     (PodFaultAction_t, PodFaultAction_DeepCopy),
     (ActionsSpec_t, ActionsSpec_DeepCopy),
     (StopDefaults_t, StopDefaults_DeepCopy),
     (MetricRef_t, MetricRef_DeepCopy),
     (MetricQuery_t, MetricQuery_DeepCopy),
     (MetricMatch_t, MetricMatch_DeepCopy),
     (StructuredQuery_t, StructuredQuery_DeepCopy),
     (MetricCompare_t, MetricCompare_DeepCopy),
     (StopRule_t, StopRule_DeepCopy),
     (StopConditionsSpec_t, StopConditionsSpec_DeepCopy),
     (FaultInjectionSpec_t, FaultInjectionSpec_DeepCopy),
     (StopRuleStatus_t L, StopRuleStatus_DeepCopy L),
     (PodFaultTickStatus_t L, PodFaultTickStatus_DeepCopy L),
     (FaultInjectionStatus_t L, FaultInjectionStatus_DeepCopy L),
     (FaultInjection_t L, FaultInjection_DeepCopy L),
     (FaultInjectionList_t L, FaultInjectionList_DeepCopy L)]"

lemmas deep_copy_defs =
  BlastRadiusSpec_DeepCopy_def VirtualServiceRef_DeepCopy_def LabelSelector_DeepCopy_def HTTPMatch_DeepCopy_def
  HTTPRouteTarget_DeepCopy_def DelayConfig_DeepCopy_def AbortConfig_DeepCopy_def TimeoutConfig_DeepCopy_def
  HTTPFaultSpec_DeepCopy_def MeshFaultAction_DeepCopy_def PodTargetSpec_DeepCopy_def PodSelectionSpec_DeepCopy_def
  PodTerminationSpec_DeepCopy_def PodFaultPolicy_DeepCopy_def PodWindowSpec_DeepCopy_def PodGuardrailsSpec_DeepCopy_def
  PodFaultAction_DeepCopy_def ActionsSpec_DeepCopy_def StopDefaults_DeepCopy_def MetricRef_DeepCopy_def
  MetricQuery_DeepCopy_def MetricMatch_DeepCopy_def StructuredQuery_DeepCopy_def MetricCompare_DeepCopy_def
  StopRule_DeepCopy_def StopConditionsSpec_DeepCopy_def FaultInjectionSpec_DeepCopy_def StopRuleStatus_DeepCopy_def
  PodFaultTickStatus_DeepCopy_def FaultInjectionStatus_DeepCopy_def FaultInjection_DeepCopy_def FaultInjectionList_DeepCopy_def

lemma generated_copies_ok: "lib_ok L \<Longrightarrow> list_all (\<lambda>(T, g). copies (YPtr T) g) (generated_copies L)"
  by (simp add: generated_copies_def deep_copy_defs copies_intro)

section \<open>Copies as objects\<close>

text \<open>
  A \<open>runtime.Object\<close>: an interface is nil, or a type with a pointer of it. A nil pointer in an
  interface would not be a nil interface, which is why \<open>DeepCopyObject\<close> tests the copy.
\<close>

datatype runtimeObject = NoObject | Object string gval

definition FaultInjection_DeepCopyObject :: "metaLib \<Rightarrow> gval \<Rightarrow> mem \<Rightarrow> (runtimeObject \<times> mem) option" where
  "FaultInjection_DeepCopyObject L p m =
     (case FaultInjection_DeepCopy L p m of
        None \<Rightarrow> None
      | Some (c, m') \<Rightarrow> Some (if c \<noteq> GNil then Object ''FaultInjection'' c else NoObject, m'))"

definition FaultInjectionList_DeepCopyObject :: "metaLib \<Rightarrow> gval \<Rightarrow> mem \<Rightarrow> (runtimeObject \<times> mem) option" where
  "FaultInjectionList_DeepCopyObject L p m =
     (case FaultInjectionList_DeepCopy L p m of
        None \<Rightarrow> None
      | Some (c, m') \<Rightarrow> Some (if c \<noteq> GNil then Object ''FaultInjectionList'' c else NoObject, m'))"

text \<open>
  The original \<open>p\<close> and its copy \<open>c\<close> read alike and stay so: the original whatever is written to
  the cells that are new since \<open>m\<close>, the copy whatever is written to all others.
\<close>

definition isolated :: "gtree \<Rightarrow> mem \<Rightarrow> gval \<Rightarrow> mem \<Rightarrow> gval \<Rightarrow> bool" where
  "isolated t m p m' c \<longleftrightarrow>
     (\<forall>m2. length m \<le> length m2 \<and> (\<forall>a < length m. m2 ! a = m' ! a) \<longrightarrow> reads (\<lambda>a. a < length m) m2 t p)
     \<and> (\<forall>m2. length m' \<le> length m2 \<and> (\<forall>a. length m \<le> a \<longrightarrow> a < length m' \<longrightarrow> m2 ! a = m' ! a) \<longrightarrow>
          reads (\<lambda>a. length m \<le> a) m2 t c)"

text \<open>The contract of a copier, and what its users rely on.\<close>

locale deep_copier =
  fixes T :: gty and copy :: copier
  assumes copies: "copies T copy"
begin

lemma isolates:
  assumes "typed T t" "reads (\<lambda>_. True) m t p"
  shows "case copy p m of None \<Rightarrow> False | Some (c, m') \<Rightarrow> isolated t m p m' c"
proof -
  obtain c m' where c: "copy p m = Some (c, m')" "grows m m'" "reads (\<lambda>a. length m \<le> a) m' t c"
    by (rule copiesD [OF copies assms])
  have "reads (\<lambda>a. a < length m) m t p" by (rule reads_weaken [OF assms(2)])
  then have old: "reads (\<lambda>a. a < length m) m2 t p" if "length m \<le> length m2" "\<forall>a < length m. m2 ! a = m' ! a" for m2
    by (rule reads_agree [rotated]) (use that c(2) in \<open>simp add: grows_def\<close>)
  have new: "reads (\<lambda>a. length m \<le> a) m2 t c"
    if "length m' \<le> length m2" "\<forall>a. length m \<le> a \<longrightarrow> a < length m' \<longrightarrow> m2 ! a = m' ! a" for m2
    by (rule reads_agree [OF _ c(3)]) (use that in simp)
  show ?thesis using old new by (simp add: c(1) isolated_def)
qed

lemma pointer: "deep_copier (YPtr T) (deep_copy T copy)"
  by unfold_locales (rule copies_deep [OF copies])

lemma returns: "typed T t \<Longrightarrow> reads (\<lambda>_. True) m t v \<Longrightarrow> copy v m \<noteq> None"
  using isolates by (fastforce split: option.splits)

end

interpretation spec_copy: deep_copier FaultInjectionSpec_t FaultInjectionSpec_DeepCopyInto
  by unfold_locales (rule FaultInjectionSpec_copies)

interpretation spec_pointer: deep_copier "YPtr FaultInjectionSpec_t" FaultInjectionSpec_DeepCopy
  unfolding FaultInjectionSpec_DeepCopy_def by (rule spec_copy.pointer)

lemma object_copier: "lib_ok L \<Longrightarrow> deep_copier (YPtr (FaultInjection_t L)) (FaultInjection_DeepCopy L)"
  unfolding FaultInjection_DeepCopy_def by unfold_locales (simp add: copies_intro)

lemma deep_copy_nil: "deep_copy T g GNil m = Some (GNil, m)"
  by (simp add: deep_copy_def)

lemma deep_copy_some: "p \<noteq> GNil \<Longrightarrow> deep_copy T g p m = Some (c, m') \<Longrightarrow> c \<noteq> GNil"
  by (auto simp: deep_copy_def new_into_def split: gval.splits option.splits cell.splits prod.splits)

lemma copy_object_ok:
  assumes "lib_ok L" "typed (FaultInjection_t L) u" "reads (\<lambda>_. True) m (TPtr u) p"
  shows "case FaultInjection_DeepCopyObject L p m of
      Some (Object T c, m') \<Rightarrow> T = ''FaultInjection'' \<and> isolated (TPtr u) m p m' c
    | _ \<Rightarrow> False"
proof -
  have T: "typed (YPtr (FaultInjection_t L)) (TPtr u)" using assms(2) by simp
  from deep_copier.isolates [OF object_copier [OF assms(1)] T assms(3)] obtain c m' where
    c: "FaultInjection_DeepCopy L p m = Some (c, m')" "isolated (TPtr u) m p m' c"
    by (auto split: option.splits)
  have "p \<noteq> GNil" using assms(3) by (auto simp: reads_ptr)
  then have "c \<noteq> GNil" using c(1) by (auto simp: FaultInjection_DeepCopy_def dest: deep_copy_some)
  then show ?thesis using c by (simp add: FaultInjection_DeepCopyObject_def)
qed

section \<open>An example\<close>

text \<open>A library whose \<open>Time\<close> is one number and whose metadata are a name, labels and a time.\<close>

definition demo_time_t :: gty where
  "demo_time_t = YStruct [(''seconds'', YInt 64)]"

definition demo_lib :: metaLib where
  "demo_lib = \<lparr>TypeMeta_t = YStruct [(''Kind'', YStr), (''APIVersion'', YStr)],
     Time_t = demo_time_t,
     ObjectMeta_t = YStruct [(''Name'', YStr), (''Labels'', YMap YStr), (''CreationTimestamp'', demo_time_t)],
     ListMeta_t = YStruct [(''ResourceVersion'', YStr)],
     Time_DeepCopy = deep_copy demo_time_t assign,
     ObjectMeta_DeepCopyInto = struct_into [(''Labels'', if_not_nil make_map)],
     ListMeta_DeepCopyInto = assign\<rparr>"

lemma demo_lib_ok: "lib_ok demo_lib"
proof -
  have "flat demo_time_t" by (simp add: demo_time_t_def)
  then show ?thesis
    unfolding lib_ok_def demo_lib_def
    by (auto intro!: copies_intro copies_struct simp: field_copiers_def)
qed

text \<open>A list with one FaultInjection, as a tree, and a heap that holds it from address 0 on.\<close>

definition str_tree :: "string \<Rightarrow> gtree" where "str_tree s = TScalar (SStr s)"
definition num_tree :: "int \<Rightarrow> gtree" where "num_tree i = TScalar (SInt i)"

definition demo_tree :: gtree where
  "demo_tree = TStruct
    [(''TypeMeta'', TStruct [(''Kind'', str_tree ''FaultInjection''), (''APIVersion'', str_tree ''v1alpha1'')]),
     (''ObjectMeta'', TStruct [(''Name'', str_tree ''demo''), (''Labels'', TMap [(''team'', str_tree ''a'')]),
        (''CreationTimestamp'', TStruct [(''seconds'', num_tree 7)])]),
     (''Spec'', TStruct
       [(''BlastRadius'', TStruct [(''DurationSeconds'', num_tree 60), (''MaxTrafficPercent'', num_tree 50),
           (''Scope'', str_tree ''namespace''), (''MaxPodsAffected'', num_tree 0)]),
        (''Actions'', TStruct [(''MeshFaults'', TSlice [TStruct
           [(''Name'', str_tree ''slow''), (''Direction'', str_tree ''INBOUND''), (''Type'', str_tree ''HTTP_LATENCY''), (''Percent'', num_tree 25),
            (''HTTP'', TStruct
              [(''VirtualServiceRef'', TPtr (TStruct [(''Name'', str_tree ''web'')])), (''DestinationHosts'', TSlice [str_tree ''web'']),
               (''SourceSelector'', TPtr (TStruct [(''MatchLabels'', TMap [(''app'', str_tree ''web'')])])), (''Routes'', TNil),
               (''Delay'', TPtr (TStruct [(''FixedDelaySeconds'', num_tree 2)])), (''Abort'', TNil), (''Timeout'', TNil)])]]),
          (''PodFaults'', TNil)]),
        (''Cancel'', TScalar (SBool False)), (''StopConditions'', TNil)]),
     (''Status'', TStruct
       [(''Phase'', str_tree []), (''StartedAt'', TPtr (TStruct [(''seconds'', num_tree 8)])), (''ExpiresAt'', TNil), (''Message'', str_tree []),
        (''CancelledAt'', TNil), (''StopReason'', str_tree []), (''Rules'', TNil), (''PodFaults'', TNil)])]"

text \<open>A heap for a tree: the value, and the heap with its cells.\<close>

fun build :: "gtree \<Rightarrow> mem \<Rightarrow> gval \<times> mem" and build_list :: "gtree list \<Rightarrow> mem \<Rightarrow> gval list \<times> mem"
  and build_pairs :: "(string \<times> gtree) list \<Rightarrow> mem \<Rightarrow> (string \<times> gval) list \<times> mem" where
  "build (TScalar s) m = (GScalar s, m)"
| "build TNil m = (GNil, m)"
| "build (TPtr t) m = (case build t m of (v, m') \<Rightarrow> (GPtr (length m'), m' @ [CVal v]))"
| "build (TSlice ts) m = (case build_list ts m of (vs, m') \<Rightarrow> (GSlice (length m') 0 (length vs), m' @ [CArr vs]))"
| "build (TMap kts) m = (case build_pairs kts m of (kvs, m') \<Rightarrow> (GMap (length m'), m' @ [CMap kvs]))"
| "build (TStruct fts) m = (case build_pairs fts m of (fvs, m') \<Rightarrow> (GStruct fvs, m'))"
| "build_list [] m = ([], m)"
| "build_list (t # ts) m = (case build t m of (v, m1) \<Rightarrow> (case build_list ts m1 of (vs, m2) \<Rightarrow> (v # vs, m2)))"
| "build_pairs [] m = ([], m)"
| "build_pairs (kt # kts) m =
     (case build (snd kt) m of (v, m1) \<Rightarrow> (case build_pairs kts m1 of (kvs, m2) \<Rightarrow> ((fst kt, v) # kvs, m2)))"

lemma demo_typed: "typed (FaultInjection_t demo_lib) demo_tree"
  by code_simp

lemma demo_reads: "case build (TPtr demo_tree) [] of (p, m) \<Rightarrow> reads (\<lambda>_. True) m (TPtr demo_tree) p"
  by code_simp

end
