(* ===== verification/Sharing.thy ===== *)
theory Sharing
  imports Cluster
begin

text \<open>
  Several experiments on one VirtualService of somebody else, in one namespace: their reconciles
  interleave in any way, each starts and ends when it likes, and the owner goes on editing the
  object. At every moment the rules that are not of an experiment under way are the owner's rules, in
  the owner's order.
\<close>

section \<open>Whose rules\<close>

text \<open>A rule that the FaultInjection of this name would take for its own.\<close>

definition rule_of :: "string \<Rightarrow> jval \<Rightarrow> bool" where
  "rule_of n = injected (''fi-'' @ n @ ''-'')"

definition rule_among :: "string set \<Rightarrow> jval \<Rightarrow> bool" where
  "rule_among N x \<longleftrightarrow> (\<exists>n \<in> N. rule_of n x)"

text \<open>The rules that are of none of these FaultInjections.\<close>

definition rules_besides :: "string set \<Rightarrow> vsObj \<Rightarrow> jval list" where
  "rules_besides N vs = filter (\<lambda>x. \<not> rule_among N x) (http_of vs)"

definition labelled_for :: "string \<Rightarrow> vsObj \<Rightarrow> bool" where
  "labelled_for n vs \<longleftrightarrow>
     vsLabel vs ''managed-by'' = Some ''fi-operator'' \<and> vsLabel vs ''chaos.sghaida.io/fi'' = Some n"

text \<open>An object of somebody else before the experiments: it has rules, and none of theirs.\<close>

definition untouched :: "string set \<Rightarrow> vsObj \<Rightarrow> bool" where
  "untouched N vs \<longleftrightarrow>
     http_of vs \<noteq> [] \<and> (\<forall>x \<in> set (http_of vs). \<not> rule_among N x) \<and> (\<forall>n \<in> N. \<not> labelled_for n vs)"

text \<open>
  What the experiments \<open>N\<close> leave of \<open>vs0\<close> while those in \<open>A\<close> are under way: its labels, its rules
  and the fields the operator has no rules for; and every other rule is of one under way.
\<close>

definition shared :: "vsObj \<Rightarrow> string set \<Rightarrow> string set \<Rightarrow> vsObj \<Rightarrow> bool" where
  "shared vs0 N A vs \<longleftrightarrow>
     oLabels (vsMeta vs) = oLabels (vsMeta vs0) \<and> rules_besides N vs = http_of vs0
     \<and> (\<forall>x \<in> set (http_of vs). rule_among N x \<longrightarrow> rule_among A x)
     \<and> (\<forall>f. f \<noteq> ''http'' \<longrightarrow> f \<noteq> ''gateways'' \<longrightarrow> mget f (spec_of vs) = mget f (spec_of vs0))"

lemma rule_of_fi: "injected (fiRuleNamePrefix fi) = rule_of (fiName fi)"
  by (simp add: rule_of_def fiRuleNamePrefix_def)

lemma managed_labelled: "managed_by_fi fi vs \<longleftrightarrow> labelled_for (fiName fi) vs"
  by (simp add: managed_by_fi_def labelled_for_def)

lemma shared_start: "untouched N vs \<Longrightarrow> shared vs N A vs"
  by (auto simp: untouched_def shared_def rules_besides_def filter_id_conv)

lemma shared_more: "shared vs0 N A vs \<Longrightarrow> A \<subseteq> B \<Longrightarrow> shared vs0 N B vs"
  unfolding shared_def rule_among_def by blast

text \<open>At every moment: what is not of an experiment under way is the owner's.\<close>

lemma shared_rest: "shared vs0 N A vs \<Longrightarrow> A \<subseteq> N \<Longrightarrow> rules_besides A vs = http_of vs0"
proof -
  assume s: "shared vs0 N A vs" "A \<subseteq> N"
  have "rule_among N x \<longleftrightarrow> rule_among A x" if "x \<in> set (http_of vs)" for x
    using s that unfolding shared_def rule_among_def by blast
  then have "rules_besides A vs = rules_besides N vs" unfolding rules_besides_def by (intro filter_cong) auto
  then show "rules_besides A vs = http_of vs0" using s(1) by (simp add: shared_def)
qed

text \<open>An experiment of which no rule is left is over.\<close>

lemma shared_over:
  assumes "shared vs0 N A vs" "list_all (\<lambda>x. \<not> rule_of n x) (http_of vs)"
  shows "shared vs0 N (A - {n}) vs"
  using assms unfolding shared_def rule_among_def list_all_iff by blast

lemma shared_same:
  assumes "shared vs0 N A vs" "oLabels (vsMeta vs') = oLabels (vsMeta vs)" "http_of vs' = http_of vs"
    and "\<And>f. f \<noteq> ''http'' \<Longrightarrow> f \<noteq> ''gateways'' \<Longrightarrow> mget f (spec_of vs') = mget f (spec_of vs)"
  shows "shared vs0 N A vs'"
  using assms unfolding shared_def rules_besides_def by simp

lemma shared_patch:
  assumes "shared vs0 N A vs" "n \<in> A" "n \<in> N" "\<forall>d \<in> set ds. rule_of n (JMap d)" "fiName fi = n"
  shows "shared vs0 N A (fst (patchVirtualServiceHTTP vs (fiRuleNamePrefix fi) ds))"
proof -
  let ?vs' = "fst (patchVirtualServiceHTTP vs (fiRuleNamePrefix fi) ds)"
  have http: "http_of ?vs' = map JMap ds @ filter (\<lambda>x. \<not> rule_of n x) (http_of vs)"
    using http.get_patch [of vs "fiRuleNamePrefix fi" ds] assms(5) by (simp add: rule_of_fi)
  have own: "rule_among N (JMap d)" "rule_among A (JMap d)" if "d \<in> set ds" for d
    using assms(2-4) that by (auto simp: rule_among_def)
  have "rules_besides N ?vs' = filter (\<lambda>x. \<not> rule_among N x) (filter (\<lambda>x. \<not> rule_of n x) (http_of vs))"
    using own by (auto simp: rules_besides_def http filter_empty_conv)
  also have "\<dots> = rules_besides N vs"
    using assms(3) by (auto simp: rules_besides_def rule_among_def intro!: filter_cong)
  finally have "rules_besides N ?vs' = rules_besides N vs" .
  moreover have "rule_among A x" if "x \<in> set (http_of ?vs')" "rule_among N x" for x
    using that assms(1) own by (auto simp: http shared_def)
  ultimately show ?thesis using assms(1) patch_frame [of _ vs] by (simp add: shared_def)
qed

text \<open>For each experiment under way this is a property that its edits keep.\<close>

definition shared_by :: "vsObj \<Rightarrow> string set \<Rightarrow> string set \<Rightarrow> faultInjection \<Rightarrow> vsObj \<Rightarrow> bool" where
  "shared_by vs0 N A fi vs \<longleftrightarrow> fiName fi \<in> A \<and> A \<subseteq> N \<and> untouched N vs0 \<and> shared vs0 N A vs"

interpretation sharing: foreign_property "shared_by vs0 N A" for vs0 N A
proof unfold_locales
  show "shared_by vs0 N A fi vs'" if "shared_by vs0 N A fi vs" "stored_as vs vs'" for fi vs vs'
    using that shared_same [of vs0 N A vs vs'] by (auto simp: shared_by_def stored_as_def http_of_def spec_of_def)
  show "shared_by vs0 N A fi vs1" if "shared_by vs0 N A fi vs" "prepared vs vs1" for fi vs vs1
  proof -
    have "http_of vs \<noteq> []" using that(1) by (auto simp: shared_by_def untouched_def shared_def rules_besides_def)
    then have "http_of vs1 = http_of vs" "vsMeta vs1 = vsMeta vs"
      and "\<And>f. f \<noteq> ''http'' \<Longrightarrow> f \<noteq> ''gateways'' \<Longrightarrow> mget f (spec_of vs1) = mget f (spec_of vs)"
      using that(2) unfolding prepared_def by simp_all
    then show ?thesis using that(1) shared_same [of vs0 N A vs vs1] by (simp add: shared_by_def)
  qed
  show "shared_by vs0 N A fi (fst (patchVirtualServiceHTTP vs (fiRuleNamePrefix fi) (routed_rules d base)))"
    if "shared_by vs0 N A fi vs" "rules_of_spec fi d" for fi vs d base
    using that(1) routed_rules_injected(2) [OF that(2)]
    by (auto simp: shared_by_def rule_of_fi intro!: shared_patch)
  show "shared_by vs0 N A fi (fst (patchVirtualServiceHTTP vs (fiRuleNamePrefix fi) []))"
    if "shared_by vs0 N A fi vs" for fi vs
    using that by (auto simp: shared_by_def intro!: shared_patch)
  show "\<not> managed_by_fi fi vs" if "shared_by vs0 N A fi vs" for fi vs
  proof -
    have "labelled_for (fiName fi) vs \<longleftrightarrow> labelled_for (fiName fi) vs0"
      using that by (simp add: shared_by_def shared_def labelled_for_def)
    then show ?thesis using that by (auto simp: shared_by_def untouched_def managed_labelled)
  qed
qed (auto simp: shared_by_def fun_eq_iff)

section \<open>Histories of several experiments\<close>

text \<open>
  A reconcile of the FaultInjection \<open>n\<close> that ended it: it was read dated, cancelled or expired, its
  spec names the target, and the reconcile returned no error.
\<close>

definition ended :: "'w reconciler \<Rightarrow> string \<Rightarrow> string \<Rightarrow> string \<Rightarrow> 'w sys \<Rightarrow> bool" where
  "ended r ns n key s \<longleftrightarrow>
     (case fst (rcGetFI r ns n (world s)) of
        Inl _ \<Rightarrow> False
      | Inr fi \<Rightarrow> dated fi \<and> key \<in> set (spec_targets fi)
          \<and> has_to_end (fst (rcNow r (snd (rcGetFI r ns n (world s))))) fi)
     \<and> snd (result_of (Reconcile r ns n) s) = None"

text \<open>What of an object is its owner's: all but the rules of these FaultInjections.\<close>

definition owner_part :: "string set \<Rightarrow> vsObj \<Rightarrow> vsObj" where
  "owner_part N vs = set_http vs (rules_besides N vs)"

text \<open>
  The world, the experiments under way, those whose last reconcile was not one that ended them, and
  the owner's part of the object. Between the reconciles its owner edits the object, but for the
  rules injected into it, and others may change anything else.
\<close>

inductive experiments ::
  "'w reconciler \<Rightarrow> ('w \<Rightarrow> string \<times> string \<Rightarrow> vsObj option) \<Rightarrow> string \<Rightarrow> string \<Rightarrow> string set \<Rightarrow> 'w \<Rightarrow>
   'w \<Rightarrow> string set \<Rightarrow> vsObj \<Rightarrow> bool"
  for r look ns key N w where
  start: "look w (splitKey key) = Some own \<Longrightarrow> untouched N own \<Longrightarrow> experiments r look ns key N w w {} own"
| reconciled: "experiments r look ns key N w w1 A own \<Longrightarrow> n \<in> N \<Longrightarrow> world s = w1 \<Longrightarrow>
    experiments r look ns key N w (world (snd (run_state (Reconcile r ns n) s)))
      (if ended r ns n key s then A - {n} else insert n A) own"
| edited: "experiments r look ns key N w w1 A own \<Longrightarrow> look w1 (splitKey key) = Some vs \<Longrightarrow>
    look w2 (splitKey key) = Some vs' \<Longrightarrow> filter (rule_among N) (http_of vs') = filter (rule_among N) (http_of vs) \<Longrightarrow>
    untouched N (owner_part N vs') \<Longrightarrow> experiments r look ns key N w w2 A (owner_part N vs')"
| others: "experiments r look ns key N w w1 A own \<Longrightarrow> look w2 (splitKey key) = look w1 (splitKey key) \<Longrightarrow>
    experiments r look ns key N w w2 A own"

lemma shared_edited:
  assumes "shared vs0 N A vs" "filter (rule_among N) (http_of vs') = filter (rule_among N) (http_of vs)"
  shows "shared (owner_part N vs') N A vs'"
proof -
  have "rule_among A x" if "x \<in> set (http_of vs')" "rule_among N x" for x
  proof -
    have "x \<in> set (filter (rule_among N) (http_of vs))" unfolding assms(2) [symmetric] using that by simp
    then show ?thesis using assms(1) by (simp add: shared_def)
  qed
  then show ?thesis by (simp add: shared_def owner_part_def rules_besides_def spec_of_set_http)
qed

lemma store_names:
  assumes "vs_store r look ns n" "fst (rcGetFI r ns n w) = Inr fi"
  shows "fiName fi = n"
proof -
  have "case fst (rcGetFI r ns n w) of Inr fi \<Rightarrow> fiNamespace fi = ns \<and> fiName fi = n | Inl _ \<Rightarrow> True"
    using assms(1) unfolding vs_store_def by blast
  then show ?thesis by (simp add: assms(2))
qed

text \<open>One reconcile keeps the share, and an end takes its experiment out.\<close>

lemma reconcile_shares:
  assumes "vs_store r look ns n" "n \<in> B" "B \<subseteq> N" "untouched N vs0" "slot look (shared vs0 N B) k (world s)"
  shows "slot look (shared vs0 N B) k (world (snd (run_state (Reconcile r ns n) s)))"
proof -
  obtain fi0 where name: "fiName fi0 = n"
    by (rule that [of "undefined\<lparr>fiMeta := undefined\<lparr>oName := n\<rparr>\<rparr>"]) simp
  have "shared_by vs0 N B fi0 = shared vs0 N B" using assms(2-4) name by (simp add: shared_by_def fun_eq_iff)
  then show ?thesis
    using tripleD [OF sharing.slot_Reconcile [OF assms(1) name, of vs0 N B k], of s] assms(5) by simp
qed

lemma end_takes_out:
  assumes "vs_store r look ns n" "n \<in> B" "B \<subseteq> N" "untouched N vs0" "slot look (shared vs0 N B) (splitKey key) (world s)"
    and "ended r ns n key s"
  shows "slot look (shared vs0 N (B - {n})) (splitKey key) (world (snd (run_state (Reconcile r ns n) s)))"
proof -
  let ?w = "world (snd (run_state (Reconcile r ns n) s))"
  obtain fi where fi: "fst (rcGetFI r ns n (world s)) = Inr fi" "dated fi" "key \<in> set (spec_targets fi)"
      "has_to_end (fst (rcNow r (snd (rcGetFI r ns n (world s))))) fi" "snd (result_of (Reconcile r ns n) s) = None"
    using assms(6) unfolding ended_def by (cases "fst (rcGetFI r ns n (world s))") simp_all
  have name: "fiName fi = n" by (rule store_names [OF assms(1) fi(1)])
  obtain vs where vs: "look ?w (splitKey key) = Some vs" "shared vs0 N B vs"
    using reconcile_shares [OF assms(1-5)] by (auto simp: slot_holds_def split: option.splits)
  have "targets_clean look fi ?w"
    by (rule reconcile_ends_clean [OF store_documented(1) [OF assms(1)] fi(1,2,4,5)])
  then have "slot_clean fi (Some vs)"
    using fi(3) vs(1) unfolding targets_clean_def target_clean_def list_all_iff by metis
  moreover have "\<not> managed_by_fi fi vs"
    using vs(2) assms(2-4) name by (intro sharing.K_foreign [of vs0 N B]) (simp add: shared_by_def)
  ultimately have "list_all (\<lambda>x. \<not> rule_of n x) (http_of vs)"
    by (simp add: slot_clean_Some rule_of_fi name)
  then show ?thesis using shared_over [OF vs(2)] vs(1) by (simp add: slot_holds_def)
qed

lemma experiments_share:
  assumes "experiments r look ns key N w w1 A own" "\<forall>n \<in> N. vs_store r look ns n"
  shows "A \<subseteq> N \<and> untouched N own \<and> slot look (shared own N A) (splitKey key) w1"
  using assms(1)
proof induction
  case (start own)
  then show ?case by (simp add: slot_holds_def shared_start)
next
  case (reconciled w1 A own n s)
  have store: "vs_store r look ns n" using assms(2) reconciled.hyps(2) by blast
  have B: "insert n A \<subseteq> N" and own: "untouched N own" using reconciled by simp_all
  have slot: "slot look (shared own N (insert n A)) (splitKey key) (world s)"
    using reconciled.IH reconciled.hyps(3) shared_more [of own N A _ "insert n A"]
    unfolding slot_holds_def by (cases "look w1 (splitKey key)") auto
  show ?case
  proof (cases "ended r ns n key s")
    case True
    have "slot look (shared own N (insert n A - {n})) (splitKey key) (world (snd (run_state (Reconcile r ns n) s)))"
      by (rule end_takes_out [OF store _ B own slot True]) simp
    then show ?thesis using True B own by auto
  next
    case False
    then show ?thesis using reconcile_shares [OF store _ B own slot] B own by simp
  qed
next
  case (edited w1 A own vs w2 vs')
  then have "shared own N A vs" by (simp add: slot_holds_def)
  then show ?case using edited.IH edited.hyps shared_edited [of own N A vs vs'] by (simp add: slot_holds_def)
qed simp

end
