(* ===== verification/Shapes.thy ===== *)
theory Shapes
  imports Watch
begin

text \<open>
  The objects a reconcile writes are unstructured: nothing but the code gives them a type. Here are
  the shapes of an injected rule and of a new VirtualService, and that each write conforms to them.
\<close>

section \<open>Shapes\<close>

text \<open>
  A shape is a type of untyped values: any value, a string, a positive number of seconds as text, an integer
  within bounds, a list, a map with arbitrary keys, an object with its fields (name, whether it is
  required, shape), one of several.
\<close>

datatype shape =
    SAny
  | SStr
  | SSeconds
  | SInt "int option" "int option"
  | SList shape
  | SMapOf shape
  | SObj "(string \<times> bool \<times> shape) list"
  | SOneOf "shape list"

definition seconds_text :: "string \<Rightarrow> bool" where
  "seconds_text s \<longleftrightarrow> s \<noteq> [] \<and> last s = CHR ''s''
     \<and> 0 < read_nat (butlast s) \<and> show_nat (read_nat (butlast s)) = butlast s"

definition int_within :: "int option \<Rightarrow> int option \<Rightarrow> int \<Rightarrow> bool" where
  "int_within lo hi i \<longleftrightarrow> (case lo of None \<Rightarrow> True | Some l \<Rightarrow> l \<le> i) \<and> (case hi of None \<Rightarrow> True | Some h \<Rightarrow> i \<le> h)"

fun conforms :: "shape \<Rightarrow> jval \<Rightarrow> bool" where
  "conforms SAny v = True"
| "conforms SStr v = (case v of JStr s \<Rightarrow> True | _ \<Rightarrow> False)"
| "conforms SSeconds v = (case v of JStr s \<Rightarrow> seconds_text s | _ \<Rightarrow> False)"
| "conforms (SInt lo hi) v = (case v of JInt i \<Rightarrow> int_within lo hi i | _ \<Rightarrow> False)"
| "conforms (SList s) v = (case v of JList xs \<Rightarrow> list_all (conforms s) xs | _ \<Rightarrow> False)"
| "conforms (SMapOf s) v = (case v of JMap m \<Rightarrow> list_all (\<lambda>x. conforms s (snd x)) m | _ \<Rightarrow> False)"
| "conforms (SObj fs) v = (case v of
      JMap m \<Rightarrow> distinct (mkeys m) \<and> list_all (\<lambda>k. k \<in> set (map fst fs)) (mkeys m)
        \<and> list_all (\<lambda>(k, required, s). case mget k m of None \<Rightarrow> \<not> required | Some x \<Rightarrow> conforms s x) fs
    | _ \<Rightarrow> False)"
| "conforms (SOneOf ss) v = list_ex (\<lambda>s. conforms s v) ss"

section \<open>The shapes of the operator's objects\<close>

definition match_shape :: shape where
  "match_shape = SObj
     [(''uri'', True, SOneOf [SObj [(''prefix'', True, SStr)], SObj [(''exact'', True, SStr)]]),
      (''headers'', False, SMapOf (SObj [(''exact'', True, SStr)])),
      (''sourceLabels'', False, SMapOf SStr)]"

definition fault_shape :: "int \<Rightarrow> shape" where
  "fault_shape cap =
     (let percentage = (''percentage'', True, SObj [(''value'', True, SInt None (Some cap))]) in
      SOneOf [SObj [(''delay'', True, SObj [(''fixedDelay'', True, SSeconds), percentage])],
              SObj [(''abort'', True, SObj [(''httpStatus'', True, SInt (Some 100) None), percentage])]])"

text \<open>A rule that \<open>buildInjectedHTTPRule\<close> renders, with the route it gets, under a cap of the traffic.\<close>

definition rule_shape :: "int \<Rightarrow> shape" where
  "rule_shape cap = SObj
     [(''name'', True, SStr), (''match'', True, SList match_shape), (''fault'', True, fault_shape cap),
      (''timeout'', False, SSeconds), (''route'', True, SList SAny)]"

definition default_rule_shape :: shape where
  "default_rule_shape = SObj
     [(''name'', True, SStr), (''match'', True, SList match_shape),
      (''route'', True, SList (SObj [(''destination'', True, SObj [(''host'', True, SStr)])]))]"

definition managed_spec_shape :: shape where
  "managed_spec_shape = SObj
     [(''hosts'', True, SList SStr), (''gateways'', True, SList SStr), (''http'', True, SList default_rule_shape)]"

section \<open>What is rendered conforms\<close>

lemma seconds_shown: "0 < i \<Longrightarrow> seconds_text (show_int i @ ''s'')"
  by (simp add: seconds_text_def show_int_def read_show_nat)

lemma build_match_conforms:
  assumes "TrimSpace (hmURIPrefix m) \<noteq> [] \<or> TrimSpace (hmURIExact m) \<noteq> []"
  shows "conforms match_shape (JMap (build_match a m))"
proof -
  have headers: "conforms (SMapOf (SObj [(''exact'', True, SStr)])) (JMap (map (\<lambda>(k, v). (k, JMap [(''exact'', JStr v)])) hs))" for hs
    by (simp add: list_all_iff mkeys_def split: prod.splits)
  have strings: "conforms (SMapOf SStr) (JMap (map (\<lambda>(k, v). (k, JStr v)) hs))" for hs
    by (simp add: list_all_iff split: prod.splits)
  note subs = headers [unfolded conforms.simps jval.case] strings [unfolded conforms.simps jval.case]
  show ?thesis
    using assms
    by (auto simp: build_match_def Let_def match_shape_def mkeys_def string_map_def subs split: option.splits)
qed

lemma build_fault_conforms:
  assumes "mesh_action_ok br a" "build_fault a = Some f"
  shows "conforms (fault_shape (brMaxTrafficPercent br)) (JMap f)"
  using assms
  by (auto simp: build_fault_def mesh_action_ok_def fault_shape_def Let_def mkeys_def int_within_def seconds_shown)

text \<open>A rendered rule with a route: the route is what the rendering leaves out.\<close>

lemma routed_rule_conforms:
  assumes "mesh_action_ok br a" "buildInjectedHTTPRule fi a = Some built"
  shows "conforms (rule_shape (brMaxTrafficPercent br)) (JMap (ensureHTTPRuleHasRoute built base))"
proof -
  note fields = buildInjectedHTTPRule_fields [OF assms(2)]
  obtain f where f: "build_fault a = Some f" "mget ''fault'' built = Some (JMap f)" using fields(3) by blast
  let ?r = "ensureHTTPRuleHasRoute built base"
  have r: "?r = mput ''route'' (JList base) built"
    using rule_built_not_routable [OF assms(2)]
    by (simp add: ensureHTTPRuleHasRoute_def routable_def cloneAnySlice_eq)
  have keys: "set (mkeys ?r) \<subseteq> {''name'', ''match'', ''fault'', ''timeout'', ''route''}" "distinct (mkeys ?r)"
    using fields(4,5) set_mkeys_mput [of "''route''" "JList base" built] distinct_mput [of built "''route''" "JList base"]
    by (auto simp: r) (simp add: mkeys_def)
  have match: "list_all (conforms match_shape) (map (\<lambda>rt. JMap (build_match a (rtMatch rt))) (hfRoutes (maHTTP a)))"
    using assms(1) build_match_conforms by (auto simp: list_all_iff mesh_action_ok_def)
  have timeout: "case mget ''timeout'' built of None \<Rightarrow> True | Some x \<Rightarrow> conforms SSeconds x"
    using assms(2) by (auto simp: buildInjectedHTTPRule_def Let_def seconds_shown split: option.splits if_splits)
  have fault: "conforms (fault_shape (brMaxTrafficPercent br)) (JMap f)" by (rule build_fault_conforms [OF assms(1) f(1)])
  have "list_all (\<lambda>k. k \<in> set (map fst [(''name'', True, SStr), (''match'', True, SList match_shape),
      (''fault'', True, fault_shape cap), (''timeout'', False, SSeconds), (''route'', True, SList SAny)])) (mkeys ?r)" for cap
    using keys(1) by (auto simp: list_all_iff)
  then show ?thesis
    unfolding rule_shape_def conforms.simps jval.case
    using keys(2) match timeout fault fields(1,2) f(2)
    by (simp add: r list_all_iff split: option.splits)
qed

lemma managed_conforms: "conforms managed_spec_shape (the (vsSpec (new_managed_vs fi ns n d)))"
  by (simp add: new_managed_vs_def managed_spec_shape_def default_rule_shape_def match_shape_def match_all_def
      buildManagedOutboundDefaultRoute_def toAnySlice_def mkeys_def list_all_iff)

section \<open>What is written conforms\<close>

text \<open>
  The rules of the FaultInjection in an updated VirtualService, and the spec of a new one.
\<close>

definition shaped :: "op list \<Rightarrow> op \<Rightarrow> bool" where
  "shaped before x \<longleftrightarrow>
     (case x of
        OpUpdateVS vs _ \<Rightarrow>
          (\<exists>fi. got before fi
             \<and> list_all (conforms (rule_shape (brMaxTrafficPercent (spBlastRadius (fiSpec fi)))))
                 (filter (injected (fiRuleNamePrefix fi)) (http_of vs)))
      | OpCreateVS vs _ \<Rightarrow> (case vsSpec vs of None \<Rightarrow> False | Some v \<Rightarrow> conforms managed_spec_shape v)
      | _ \<Rightarrow> True)"

lemma injected_conforms:
  assumes "may_inject fi" "injected_for fi rule"
  shows "conforms (rule_shape (brMaxTrafficPercent (spBlastRadius (fiSpec fi)))) (JMap rule)"
proof -
  obtain a built base where a: "a \<in> set (meshFaults fi)" "buildInjectedHTTPRule fi a = Some built"
      "rule = ensureHTTPRuleHasRoute built base"
    using assms(2) by (auto simp: injected_for_def)
  have "mesh_action_ok (spBlastRadius (fiSpec fi)) a"
    using assms(1) a(1) by (auto simp: may_inject_def spec_ok_def list_all_iff)
  then show ?thesis unfolding a(3) by (rule routed_rule_conforms [OF _ a(2)])
qed

lemma user_rules_free: "filter (injected (fiRuleNamePrefix fi)) (user_rules fi vs) = []"
  by (auto simp: user_rules_def filter_empty_conv)

lemma law_shaped:
  assumes "law r d x" "owned_law r d x"
  shows "shaped d x"
proof (cases x)
  case (OpUpdateVS vs' e)
  obtain fi vs where fi: "got d fi" and u: "may_inject fi \<and> inject_update fi vs vs' \<or> remove_update fi vs vs'"
    using assms(1) OpUpdateVS by (auto simp: law_def write_law_def)
  have "list_all (conforms (rule_shape (brMaxTrafficPercent (spBlastRadius (fiSpec fi)))))
      (filter (injected (fiRuleNamePrefix fi)) (http_of vs'))"
    using u
  proof
    assume "may_inject fi \<and> inject_update fi vs vs'"
    then obtain rules where "may_inject fi" "http_of vs' = map JMap rules @ user_rules fi vs'"
        "list_all (injected_for fi) rules"
      by (auto simp: inject_update_def)
    then show ?thesis using injected_conforms user_rules_free [of fi vs'] by (auto simp: list_all_iff)
  next
    assume "remove_update fi vs vs'"
    then show ?thesis using user_rules_free [of fi vs] by (simp add: remove_update_def)
  qed
  then show ?thesis using fi OpUpdateVS by (auto simp: shaped_def)
next
  case (OpCreateVS vs e)
  obtain fi ns n m where "vsSpec vs = vsSpec (new_managed_vs fi ns n m)"
    using assms(2) OpCreateVS by (auto simp: owned_law_def owned_def)
  then show ?thesis
    using managed_conforms [of fi ns n m] by (simp add: OpCreateVS shaped_def new_managed_vs_def)
qed (simp_all add: shaped_def)

lemma runs_shaped: "runs (Reconcile r ns n) (\<lambda>_ ops. after shaped [] ops)"
  by (rule runs_conseq [OF runs_conj [OF runs_law_Reconcile runs_owned_Reconcile]])
    (auto dest: after_conj intro: after_weaken law_shaped)

end
