(* ===== verification/Demo.thy ===== *)
theory Demo
  imports Admission Server Manager Scheme Rbac Lease Returns DeepCopy Sharing Shapes
begin

text \<open>
  A small cluster on which the statements about runs are evaluated: a FaultInjection with one
  INBOUND latency action and one pod fault, a VirtualService with a route, two pods, and an API
  server that answers every request with success and never changes.
\<close>

definition demo_time :: time where
  "demo_time = 1000 * second"

definition demo_meta :: "string \<Rightarrow> objMeta" where
  "demo_meta n = (new_meta ''ns'' n [] [])\<lparr>oUID := ''u1''\<rparr>"

definition demo_mesh :: meshFaultAction where
  "demo_mesh = \<lparr>maName = ''slow'', maDirection = INBOUNDDirection, maType = HTTPLatency, maPercent = 25,
     maHTTP = \<lparr>hfVirtualServiceRef = Some \<lparr>vrName = ''web''\<rparr>, hfDestinationHosts = [],
       hfSourceSelector = Some \<lparr>lsMatchLabels = [(''app'', ''web'')]\<rparr>,
       hfRoutes = [\<lparr>rtMatch = \<lparr>hmURIPrefix = ''/api'', hmURIExact = [], hmHeaders = []\<rparr>\<rparr>],
       hfDelay = Some \<lparr>dcFixedDelaySeconds = 2\<rparr>, hfAbort = None, hfTimeout = None\<rparr>\<rparr>"

definition demo_pod_fault :: podFaultAction where
  "demo_pod_fault = \<lparr>paName = ''kill'', paType = ''POD_DELETE'',
     paTarget = \<lparr>ptNamespace = [], ptSelector = \<lparr>lsMatchLabels = [(''app'', ''web'')]\<rparr>\<rparr>,
     paSelection = \<lparr>psMode = PodSelectionModeCount, psCount = Some 1, psPercent = None,
       psMaxPodsAffected = None\<rparr>,
     paTermination = \<lparr>trMode = PodTerminationModeGraceful, trGracePeriodSeconds = 5\<rparr>,
     paPolicy = None, paWindow = None,
     paGuardrails = \<lparr>pgRefuseIfPodsLessThan = 2, pgRespectPodDisruptionBudget = True\<rparr>\<rparr>"

definition demo_status :: faultInjectionStatus where
  "demo_status = \<lparr>stPhase = [], stStartedAt = Some demo_time, stExpiresAt = Some (demo_time + 60 * second),
     stMessage = Msg [], stCancelledAt = None, stStopReason = [], stRules = [], stPodFaults = []\<rparr>"

definition demo_fi :: faultInjection where
  "demo_fi = \<lparr>fiMeta = demo_meta ''demo'',
     fiSpec = \<lparr>spBlastRadius = \<lparr>brDurationSeconds = 60, brMaxTrafficPercent = 50, brScope = ''namespace'',
         brMaxPodsAffected = 2\<rparr>,
       spActions = \<lparr>asMeshFaults = [demo_mesh], asPodFaults = [demo_pod_fault]\<rparr>,
       spCancel = False, spStopConditions = None\<rparr>,
     fiStatus = demo_status\<rparr>"

definition demo_route :: jval where
  "demo_route = JMap [(''name'', JStr ''main''),
     (''route'', JList [JMap [(''destination'', JMap [(''host'', JStr ''web'')])]])]"

definition demo_vs :: vsObj where
  "demo_vs = \<lparr>vsMeta = demo_meta ''web'', vsSpec = Some (JMap [(''http'', JList [demo_route])])\<rparr>"

definition demo_pod :: "string \<Rightarrow> podObj" where
  "demo_pod n = \<lparr>pdMeta = demo_meta n, pdPhase = ''Running''\<rparr>"

definition demo_reconciler :: "faultInjection \<Rightarrow> time \<Rightarrow> 'w reconciler" where
  "demo_reconciler fi now = \<lparr>
     rcGetFI = (\<lambda>_ _ w. (Inr fi, w)), rcStatusUpdateFI = (\<lambda>_ w. (None, w)),
     rcGetVS = (\<lambda>_ _ w. (Inr demo_vs, w)), rcListVS = (\<lambda>_ _ w. (Inr [], w)),
     rcCreateVS = (\<lambda>vs w. (Inr vs, w)), rcUpdateVS = (\<lambda>_ w. (None, w)), rcDeleteVS = (\<lambda>_ w. (None, w)),
     rcListPods = (\<lambda>_ _ w. (Inr [demo_pod ''web-2'', demo_pod ''web-1''], w)), rcDeletePod = (\<lambda>_ w. (None, w)),
     rcGetJob = (\<lambda>_ _ w. (Inl NotFound, w)), rcListJobs = (\<lambda>_ _ w. (Inr [], w)),
     rcCreateJob = (\<lambda>_ w. (None, w)), rcDeleteJob = (\<lambda>_ w. (None, w)),
     rcGetLease = (\<lambda>_ _ w. (Inl NotFound, w)), rcListLeases = (\<lambda>_ _ w. (Inr [], w)),
     rcCreateLease = (\<lambda>_ w. (None, w)), rcUpdateLease = (\<lambda>_ w. (None, w)), rcDeleteLease = (\<lambda>_ w. (None, w)),
     rcListDeployments = (\<lambda>_ w. (Inr [], w)), rcDeleteDeployment = (\<lambda>_ w. (None, w)),
     rcNow = (\<lambda>w. (now, w)), rcRangeOrder = (\<lambda>ks. ks), rcRetries = 4,
     rcSetControllerReference = (\<lambda>_ m. Inr m), rcScheme = True, rcRecorder = False,
     rcHolderIdentity = ''holder''\<rparr>"

text \<open>A server that keeps VirtualServices in a list: reads, updates and deletions of them are real.\<close>

definition store_look :: "vsObj list \<Rightarrow> string \<times> string \<Rightarrow> vsObj option" where
  "store_look w k = find (\<lambda>vs. vs_key vs = k) w"

definition store_reconciler :: "faultInjection \<Rightarrow> time \<Rightarrow> vsObj list reconciler" where
  "store_reconciler fi now = (demo_reconciler fi now)\<lparr>
     rcGetVS := (\<lambda>ns n w. (case store_look w (ns, n) of Some vs \<Rightarrow> Inr vs | None \<Rightarrow> Inl NotFound, w)),
     rcUpdateVS := (\<lambda>vs w. (None, vs # filter (\<lambda>x. vs_key x \<noteq> vs_key vs) w)),
     rcCreateVS := (\<lambda>vs w. (case store_look w (vs_key vs) of None \<Rightarrow> (Inr vs, vs # w)
       | Some _ \<Rightarrow> (Inl AlreadyExists, w))),
     rcDeleteVS := (\<lambda>vs w. (None, filter (\<lambda>x. vs_key x \<noteq> vs_key vs) w))\<rparr>"

definition demo_sys :: "unit sys" where
  "demo_sys = \<lparr>world = (), trace = []\<rparr>"

definition demo_injected_vs :: vsObj where
  "demo_injected_vs = demo_vs\<lparr>vsSpec := Some (JMap [(''http'',
     JList [JMap [(''name'', JStr ''fi-demo-inbound-slow'')], demo_route])])\<rparr>"

definition demo_store :: "vsObj list sys" where
  "demo_store = \<lparr>world = [demo_injected_vs], trace = []\<rparr>"

definition demo_plan :: podFaultPlan where
  "demo_plan = \<lparr>plActionName = ''kill'', plTickID = ''oneshot'', plDueAt = None,
     plJobName = ''fi-job'', plLeaseName = ''fi-job'', plNamespace = ''ns'', plSelectionCount = Some 1,
     plSelectionPercent = None, plPodNames = [''web-1''], plSelectorLabels = [(''app'', ''web'')],
     plTerminationMode = PodTerminationModeGraceful, plGracePeriodSecs = 5, plMaxPodsAffectedEffective = 2,
     plRespectPDB = True, plRefuseIfPodsLessThan = 2\<rparr>"

definition demo_lease :: "time \<Rightarrow> leaseObj" where
  "demo_lease t = \<lparr>leMeta = demo_meta ''fi-job'', leHolderIdentity = Some ''other'', leAcquireTime = Some t,
     leRenewTime = Some t, leLeaseDurationSeconds = Some 60\<rparr>"

lemma demo_hash: "fnv64a ''u1'' = 631765120777144307"
  by (simp add: fnv64a_def byte_def)

lemma demo_short: "fiShortID demo_fi \<noteq> None"
proof -
  have "TrimSpace (fiUID demo_fi) = ''u1''" by code_simp
  then show ?thesis by (simp add: fiShortID_def Let_def slice36_None demo_hash)
qed

lemma demo_label:
  assumes "dns_name s" "length s \<le> 63"
  shows "safeLabelValue s = Some s"
  using assms by (rule lab.lab_fix)

lemma demo_takes: "\<exists>l. take_lease demo_fi demo_plan ''holder'' t (demo_lease t') = Some l"
proof -
  obtain f where f: "fiShortID demo_fi = Some f" using demo_short by blast
  have "dns_name ''kill''" "dns_name ''oneshot''" "dns_name ''holder''" by code_simp+
  then show ?thesis
    using f by (simp add: take_lease_def Let_def demo_label demo_plan_def)
qed

lemma find_filter: "find P (filter Q xs) = find (\<lambda>x. Q x \<and> P x) xs"
  by (induction xs) auto

lemma look_filter:
  "store_look (filter (\<lambda>x. vs_key x \<noteq> k) w) = (store_look w)(k := None)"
proof
  fix j
  show "store_look (filter (\<lambda>x. vs_key x \<noteq> k) w) j = ((store_look w)(k := None)) j"
  proof (cases "j = k")
    case True
    then show ?thesis by (simp add: store_look_def find_None_iff)
  next
    case False
    then have "find (\<lambda>x. vs_key x \<noteq> k \<and> vs_key x = j) w = find (\<lambda>x. vs_key x = j) w" by (intro find_cong) auto
    then show ?thesis using False by (simp add: store_look_def find_filter)
  qed
qed

lemma look_Cons: "store_look (vs # w) = (store_look w)(vs_key vs \<mapsto> vs)"
  by (auto simp: store_look_def fun_eq_iff)

lemma look_put: "store_look (vs # filter (\<lambda>x. vs_key x \<noteq> vs_key vs) w) = (store_look w)(vs_key vs \<mapsto> vs)"
  by (simp add: look_Cons look_filter)

lemma look_sound: "store_look w k = Some vs \<Longrightarrow> vs_key vs = k"
  by (auto simp: store_look_def find_Some_iff)

lemma no_new_drop: "no_new (m j) ((m(k := None)) j)"
  by (simp add: no_new_def split: option.split)

lemma stored_same: "stored_as vs vs"
  unfolding stored_as_def by (intro exI [of _ "oResourceVersion (vsMeta vs)"] exI [of _ "oUID (vsMeta vs)"]) simp

lemma store_server: "vs_server (store_reconciler fi now) store_look"
proof -
  have get: "get_law store_look (ns, n) (rcGetVS (store_reconciler fi now) ns n)" for ns n
    by (auto simp: get_law_def keeps_vs_def store_reconciler_def look_sound split: option.split)
  have upd: "update_law store_look vs (rcUpdateVS (store_reconciler fi now) vs)" for vs
    using stored_same [of vs] by (auto simp: update_law_def store_reconciler_def look_put)
  have del: "delete_law store_look (rcDeleteVS (store_reconciler fi now) vs)" for vs
    by (simp add: delete_law_def store_reconciler_def look_filter no_new_drop del: fun_upd_apply)
  show ?thesis unfolding vs_server_def
    using get upd del by (simp add: keeps_vs_def store_reconciler_def demo_reconciler_def)
qed

lemma store_deletes: "vs_deletes (store_reconciler fi now) store_look"
proof -
  have "rcDeleteVS (store_reconciler fi now) vs w = (None, filter (\<lambda>x. vs_key x \<noteq> vs_key vs) w)" for vs w
    by (simp add: store_reconciler_def)
  then show ?thesis unfolding vs_deletes_def by (simp only: snd_conv fst_conv look_filter) (auto split: option.split)
qed

lemma store_creates: "vs_creates (store_reconciler fi now) store_look"
  using stored_same
  by (auto simp: vs_creates_def create_law_def store_reconciler_def demo_reconciler_def look_Cons
      split: option.split)

section \<open>A cluster with a clock\<close>

text \<open>
  A server that holds the FaultInjection, the time and the VirtualServices: its status updates and
  its lists are real too. The witnesses of histories run on it.
\<close>

type_synonym stage = "faultInjection \<times> time \<times> vsObj list"

definition stage_look :: "stage \<Rightarrow> string \<times> string \<Rightarrow> vsObj option" where
  "stage_look w = store_look (snd (snd w))"

definition stage_reconciler :: "stage reconciler" where
  "stage_reconciler = (demo_reconciler demo_fi demo_time)\<lparr>
     rcGetFI := (\<lambda>ns n w. (if fiNamespace (fst w) = ns \<and> fiName (fst w) = n then Inr (fst w) else Inl NotFound, w)),
     rcStatusUpdateFI := (\<lambda>fi w. (None, (fi, snd w))),
     rcNow := (\<lambda>w. (fst (snd w), w)),
     rcGetVS := (\<lambda>ns n w. (case stage_look w (ns, n) of Some vs \<Rightarrow> Inr vs | None \<Rightarrow> Inl NotFound, w)),
     rcListVS := (\<lambda>ns ls w. (Inr (filter (\<lambda>vs. oNamespace (vsMeta vs) = ns \<and> stage_look w (vs_key vs) = Some vs
         \<and> list_all (\<lambda>(a, b). vsLabel vs a = Some b) ls) (snd (snd w))), w)),
     rcUpdateVS := (\<lambda>vs (fi, t, l). (None, (fi, t, vs # filter (\<lambda>x. vs_key x \<noteq> vs_key vs) l))),
     rcCreateVS := (\<lambda>vs (fi, t, l). case store_look l (vs_key vs) of None \<Rightarrow> (Inr vs, (fi, t, vs # l))
       | Some _ \<Rightarrow> (Inl AlreadyExists, (fi, t, l))),
     rcDeleteVS := (\<lambda>vs (fi, t, l). (None, (fi, t, filter (\<lambda>x. vs_key x \<noteq> vs_key vs) l)))\<rparr>"

lemma stage_store: "vs_store stage_reconciler stage_look ns n"
proof -
  note d = stage_reconciler_def demo_reconciler_def stage_look_def
  have "get_law stage_look (a, b) (rcGetVS stage_reconciler a b)" for a b
    by (auto simp: get_law_def keeps_vs_def d look_sound split: option.split)
  moreover have "update_law stage_look vs (rcUpdateVS stage_reconciler vs)" for vs
    using stored_same [of vs] by (auto simp: update_law_def d look_put)
  moreover have "delete_law stage_look (rcDeleteVS stage_reconciler vs)" for vs
    by (simp add: delete_law_def d look_filter no_new_drop del: fun_upd_apply split: prod.split)
  ultimately have server: "vs_server stage_reconciler stage_look"
    unfolding vs_server_def by (simp add: keeps_vs_def d)
  have "create_law stage_look vs (rcCreateVS stage_reconciler vs)" for vs
    using stored_same [of vs] by (auto simp: create_law_def d look_Cons split: option.split)
  then have create: "vs_creates stage_reconciler stage_look" unfolding vs_creates_def by (simp add: d)
  have list: "list_law stage_look ls (rcListVS stage_reconciler a ls)" for a ls
    by (auto simp: list_law_def d list_all_iff)
  show ?thesis
    unfolding vs_store_def using server create list by (simp add: keeps_vs_def d look_filter split: prod.split)
qed

lemma demo_desired:
  "\<exists>mg d. buildDesiredByVSTarget demo_fi = Some ([(joinKey ''ns'' ''web'', d)], mg) \<and> dsManaged d = False"
proof -
  have a: "meshFaults demo_fi = [demo_mesh]" "maDirection demo_mesh = INBOUNDDirection"
    "hfVirtualServiceRef (maHTTP demo_mesh) = Some \<lparr>vrName = ''web''\<rparr>" "fiNamespace demo_fi = ''ns''" "renderable demo_mesh"
    by code_simp+
  obtain rule where r: "buildInjectedHTTPRule demo_fi demo_mesh = Some rule" using renderable_rule [OF a(5)] by blast
  show ?thesis
    by (simp add: buildDesiredByVSTarget_def a desired_step_def r Let_def sort_desired_def desired_at_def
        zero_desired_def)
qed

lemma demo_sends:
  assumes "dsManaged d = False" "findAnyExistingRoute vs \<noteq> None"
  shows "\<exists>vs'. OpUpdateVS vs' None \<in> set (ops_of (inject_target (demo_reconciler demo_fi demo_time) demo_fi
    ''ns'' ''web'' d vs True) demo_sys)"
proof -
  obtain base where "findAnyExistingRoute vs = Some base" using assms(2) by blast
  then show ?thesis
    by (simp add: inject_target_def ensureManagedOutboundVSGatewaysMesh_def assms(1) patch_target_def
      Let_def ops_of_def call_defs call_def eventf_def emit_def demo_reconciler_def demo_sys_def
      split: prod.split)
qed

lemma demo_route: "findAnyExistingRoute demo_vs \<noteq> None" "has_route demo_route"
  by code_simp+

text \<open>A server that keeps the versions of one lease, the newest first.\<close>

definition lease_reconciler :: "leaseObj list reconciler" where
  "lease_reconciler = (demo_reconciler demo_fi demo_time)\<lparr>
     rcGetLease := (\<lambda>_ _ w. (case w of [] \<Rightarrow> Inl NotFound | l # _ \<Rightarrow> Inr l, w)),
     rcCreateLease := (\<lambda>l w. (None, with_version (replicate (length w) CHR ''v'') l # w)),
     rcUpdateLease := (\<lambda>l w. (None, with_version (replicate (length w) CHR ''v'') l # w))\<rparr>"

definition lease_sys :: "leaseObj list \<Rightarrow> leaseObj list sys" where
  "lease_sys w = \<lparr>world = w, trace = []\<rparr>"

lemma lease_place: "lease_namespace demo_fi demo_plan = ''ns''" "plLeaseName demo_plan = ''fi-job''"
    "lease_holder lease_reconciler = ''holder''"
  by code_simp+

lemma demo_labels: "safeLabelValue ''kill'' = Some ''kill''" "safeLabelValue ''oneshot'' = Some ''oneshot''"
    "safeLabelValue ''holder'' = Some ''holder''"
proof -
  have "dns_name ''kill''" "dns_name ''oneshot''" "dns_name ''holder''" by code_simp+
  then show "safeLabelValue ''kill'' = Some ''kill''" "safeLabelValue ''oneshot'' = Some ''oneshot''"
    "safeLabelValue ''holder'' = Some ''holder''" by (simp_all add: demo_label)
qed

lemma demo_new: "\<exists>l. new_lease demo_fi demo_plan ''ns'' ''holder'' demo_time = Some l \<and> lastTime l = demo_time
    \<and> leaseDuration l = defaultPodFaultLeaseDurationSeconds"
  using demo_labels by (simp add: new_lease_def demo_plan_def lastTime_def leaseDuration_def)

lemma demo_first:
  assumes "new_lease demo_fi demo_plan ''ns'' ''holder'' demo_time = Some l"
  shows "ops_of (tryAcquireOrTakeoverLease lease_reconciler demo_fi demo_plan demo_time) (lease_sys [])
    = [OpGetLease ''ns'' ''fi-job'' (Inl NotFound), OpCreateLease l None]"
  unfolding tryAcquireOrTakeoverLease_def Let_def lease_namespace_def [symmetric] lease_place
  by (simp add: create_lease_def assms Let_def ops_of_def call_defs call_def
      lease_reconciler_def demo_reconciler_def lease_sys_def)

lemma demo_second:
  assumes "lease_stale l now" "take_lease demo_fi demo_plan ''holder'' now l = Some l'"
  shows "ops_of (tryAcquireOrTakeoverLease lease_reconciler demo_fi demo_plan now) (lease_sys [l])
    = [OpGetLease ''ns'' ''fi-job'' (Inr l), OpGetLease ''ns'' ''fi-job'' (Inr l), OpUpdateLease l' None,
       OpGetLease ''ns'' ''fi-job'' (Inr (with_version ''v'' l'))]"
  unfolding tryAcquireOrTakeoverLease_def Let_def lease_namespace_def [symmetric] lease_place
  by (simp add: takeover_lease_def takeover_attempt_def assms Let_def ops_of_def call_defs call_def
      lease_place lease_reconciler_def demo_reconciler_def lease_sys_def eval_nat_numeral)

text \<open>A first run that creates the lease, and one a thousand seconds later that takes it over.\<close>

definition demo_history :: "leaseObj \<Rightarrow> leaseObj \<Rightarrow> history" where
  "demo_history l l' =
     [(0, OpGetLease ''ns'' ''fi-job'' (Inl NotFound)), (0, OpCreateLease l None),
      (1, OpGetLease ''ns'' ''fi-job'' (Inr (with_version [] l))),
      (1, OpGetLease ''ns'' ''fi-job'' (Inr (with_version [] l)))]
     @ (1, OpUpdateLease l' None)
     # [(1, OpGetLease ''ns'' ''fi-job'' (Inr (with_version ''v'' l')))]"

lemma demo_served:
  assumes "version l' = []"
  shows "\<exists>st objs. served ''ns'' ''fi-job'' (demo_history l l') st objs"
proof -
  let ?g = "OpGetLease ''ns'' ''fi-job'' (Inr (with_version [] l))"
  have "served ''ns'' ''fi-job'' ([] @ [(0, OpGetLease ''ns'' ''fi-job'' (Inl NotFound))]) None {}"
    by (rule served.other [OF served.nothing]) simp_all
  from served.created [OF this, of "[]" 0 l]
  have "served ''ns'' ''fi-job'' (([] @ [(0, OpGetLease ''ns'' ''fi-job'' (Inl NotFound))]) @ [(0, OpCreateLease l None)])
      (Some (with_version [] l)) {with_version [] l}" by simp
  from served.got [OF served.got [OF this, of "with_version [] l" 1], of "with_version [] l" 1]
  have "served ''ns'' ''fi-job'' (((([] @ [(0, OpGetLease ''ns'' ''fi-job'' (Inl NotFound))]) @ [(0, OpCreateLease l None)])
      @ [(1, ?g)]) @ [(1, ?g)]) (Some (with_version [] l)) {with_version [] l}" by simp
  from served.updated [OF this, of l' "''v''" 1] assms
  have "served ''ns'' ''fi-job'' ((((([] @ [(0, OpGetLease ''ns'' ''fi-job'' (Inl NotFound))]) @ [(0, OpCreateLease l None)])
      @ [(1, ?g)]) @ [(1, ?g)]) @ [(1, OpUpdateLease l' None)]) (Some (with_version ''v'' l'))
      {with_version ''v'' l', with_version [] l}" by simp
  from served.got [OF this, of "with_version ''v'' l'" 1] show ?thesis by (auto simp: demo_history_def)
qed

lemma demo_takeover:
  "\<exists>l l'. new_lease demo_fi demo_plan ''ns'' ''holder'' demo_time = Some l \<and> version l' = []
     \<and> acquirer lease_reconciler demo_fi demo_plan demo_time (lease_sys []) ''ns'' ''fi-job'' (run_ops 0 (demo_history l l'))
     \<and> acquirer lease_reconciler demo_fi demo_plan (demo_time + 1000 * second) (lease_sys [with_version [] l])
         ''ns'' ''fi-job'' (run_ops 1 (demo_history l l'))"
proof -
  obtain l where l: "new_lease demo_fi demo_plan ''ns'' ''holder'' demo_time = Some l" "lastTime l = demo_time"
      "leaseDuration l = defaultPodFaultLeaseDurationSeconds"
    using demo_new by blast
  have "isStaleAt demo_time defaultPodFaultLeaseDurationSeconds (demo_time + 1000 * second)" by code_simp
  then have stale: "lease_stale (with_version [] l) (demo_time + 1000 * second)"
    by (simp add: lease_stale_def l)
  obtain f where f: "fiShortID demo_fi = Some f" using demo_short by blast
  then obtain l' where l': "take_lease demo_fi demo_plan ''holder'' (demo_time + 1000 * second) (with_version [] l) = Some l'"
    using demo_labels by (auto simp: take_lease_def Let_def demo_plan_def)
  have "version l' = []" using version_take [OF l'] by simp
  then show ?thesis
    using l(1) demo_first [OF l(1)] demo_second [OF stale l']
    by (auto simp: acquirer_def lease_place run_ops_def demo_history_def)
qed

definition demo_before :: "vsObj list sys" where
  "demo_before = \<lparr>world = [demo_vs], trace = []\<rparr>"

section \<open>A history on the stage\<close>

text \<open>Once it has expired, the demo experiment ends without an error, whatever is stored.\<close>

definition expired :: "stage \<Rightarrow> bool" where
  "expired w \<longleftrightarrow> fst w = demo_fi \<and> fst (snd w) = demo_time + 90 * second"

lemma stage_calls [triple_intro]:
  "holds_on expired (listJobs stage_reconciler a ls)" "holds_on expired (listPods stage_reconciler a ls)"
  "holds_on expired (listLeases stage_reconciler a ls)" "holds_on expired (listDeployments stage_reconciler a)"
  "holds_on expired (deleteJob stage_reconciler j)" "holds_on expired (deletePod stage_reconciler p)"
  "holds_on expired (deleteLease stage_reconciler l)" "holds_on expired (deleteDeployment stage_reconciler d)"
  "holds_on expired (deleteVS stage_reconciler vs)"
  unfolding call_defs
  by (rule triple_call; auto simp: stage_reconciler_def demo_reconciler_def expired_def)+

lemma stage_answers:
  "triple expired (getVS stage_reconciler a n) (\<lambda>g w. expired w \<and> (case g of Inl e \<Rightarrow> e = NotFound | Inr _ \<Rightarrow> True))"
  "triple expired (listVS stage_reconciler a ls) (\<lambda>g w. expired w \<and> (case g of Inl e \<Rightarrow> False | Inr _ \<Rightarrow> True))"
  "triple expired (updateVS stage_reconciler vs) (\<lambda>u w. expired w \<and> u = None)"
  "triple expired (getFI stage_reconciler ''ns'' ''demo'') (\<lambda>g w. expired w \<and> g = Inr demo_fi)"
  "triple expired (statusUpdateFI stage_reconciler f) (\<lambda>u w. u = None)"
  "triple expired (time_now stage_reconciler) (\<lambda>t w. expired w \<and> t = demo_time + 90 * second)"
proof -
  note d = stage_reconciler_def demo_reconciler_def expired_def
  have n: "fiNamespace demo_fi = ''ns''" "fiName demo_fi = ''demo''" by code_simp+
  show "triple expired (getVS stage_reconciler a n) (\<lambda>g w. expired w \<and> (case g of Inl e \<Rightarrow> e = NotFound | Inr _ \<Rightarrow> True))"
    unfolding call_defs by (rule triple_call) (simp add: d split: option.split)
  show "triple expired (listVS stage_reconciler a ls) (\<lambda>g w. expired w \<and> (case g of Inl e \<Rightarrow> False | Inr _ \<Rightarrow> True))"
    unfolding call_defs by (rule triple_call) (simp add: d)
  show "triple expired (updateVS stage_reconciler vs) (\<lambda>u w. expired w \<and> u = None)"
    unfolding call_defs by (rule triple_call) (auto simp: d)
  show "triple expired (getFI stage_reconciler ''ns'' ''demo'') (\<lambda>g w. expired w \<and> g = Inr demo_fi)"
    unfolding call_defs by (rule triple_call) (simp add: d n)
  show "triple expired (statusUpdateFI stage_reconciler f) (\<lambda>u w. u = None)"
    unfolding call_defs by (rule triple_call) (simp add: d)
  show "triple expired (time_now stage_reconciler) (\<lambda>t w. expired w \<and> t = demo_time + 90 * second)"
    by (simp add: triple_def time_now_def d)
qed

lemma stage_target: "triple expired (cleanup_target stage_reconciler demo_fi k) (\<lambda>e w. expired w \<and> e = None)"
proof -
  obtain a n where k: "splitKey k = (a, n)" by fastforce
  show ?thesis
    unfolding cleanup_target_def k Let_def prod.case
  proof (rule triple_bind [OF stage_answers(1)], rule triple_case_sum, goal_cases)
    case (2 g vs)
    show ?case
      unfolding 2 sum.case
      apply (rule triple_fact, rule triple_case_prod, rule triple_if)
       apply (rule triple_bind [where R = "\<lambda>_. expired"], rule triple_intro)
       apply (rule triple_bind [where R = "\<lambda>_. expired"])
        apply (intro triple_intro; assumption)
       apply (rule triple_return, simp)
      apply (rule triple_if)
       apply (rule triple_bind [OF stage_answers(3)], rule triple_fact, rule triple_case_option)
        apply (rule triple_bind [where R = "\<lambda>_. expired"], rule triple_eventf, assumption, rule triple_return, simp)
       apply simp
      apply (rule triple_return, simp)
      done
  qed (rule triple_return, simp add: ignoreNotFound_def)
qed

lemma stage_cleanup: "triple expired (cleanupAll stage_reconciler demo_fi) (\<lambda>e w. expired w \<and> e = None)"
proof -
  have loop: "triple expired (each_until_error (cleanup_target stage_reconciler demo_fi) ks) (\<lambda>e w. expired w \<and> e = None)" for ks
  proof (induction ks)
    case (Cons k ks)
    show ?case
      unfolding each_until_error.simps
      by (rule triple_bind [OF stage_target], rule triple_fact, rule triple_case_option, rule Cons.IH, simp)
  qed (simp add: triple_def)
  have each: "holds_on expired (delete_each r skip del f d xs)"
    if "\<And>x. holds_on expired (del x)" for r :: "stage reconciler" and skip and del :: "'x \<Rightarrow> (stage, apiError option) eff" and f d xs
    by (induction xs) (auto intro!: triple_intro that)
  have deps: "holds_on expired (deployments_loop stage_reconciler fi ds)" for fi ds
    by (induction ds) (auto intro!: triple_intro)
  have arts: "holds_on expired (cleanupPodFaultArtifacts stage_reconciler fi)"
    "holds_on expired (cleanupFIManagedDeployments stage_reconciler fi)" for fi
    unfolding cleanupPodFaultArtifacts_def cleanupFIManagedDeployments_def
    by (intro triple_intro each deps; simp)+
  show ?thesis
    unfolding cleanupAll_def
    apply (rule triple_bind [OF stage_answers(2)], rule triple_fact, rule triple_case_sum, simp)
    apply (rule triple_bind [OF loop], rule triple_fact, rule triple_case_option)
     apply (rule triple_bind [OF arts(1)], rule triple_bind [OF arts(2)], rule triple_return, simp)
    apply simp
    done
qed

lemma stage_ends: "triple expired (Reconcile stage_reconciler ''ns'' ''demo'') (\<lambda>x w. snd x = None)"
proof -
  have n: "fiNamespace demo_fi = ''ns''" "fiName demo_fi = ''demo''" "dated demo_fi" "\<not> spCancel (fiSpec demo_fi)"
    "stExpiresAt (fiStatus demo_fi) = Some (demo_time + 60 * second)" "stStartedAt (fiStatus demo_fi) = Some demo_time"
    by code_simp+
  have status: "triple expired (update_status stage_reconciler ''ns'' ''demo'' (\<lambda>st. Some (f st))) (\<lambda>u w. u = None)" for f
  proof -
    have "triple expired (retry_on_conflict j (edit_status stage_reconciler ''ns'' ''demo'' (\<lambda>st. Some (f st))) ()) (\<lambda>u w. fst u = None)" for j
    proof -
      have "triple expired (edit_status stage_reconciler ''ns'' ''demo'' (\<lambda>st. Some (f st)) ()) (\<lambda>u w. fst u = None)"
        unfolding edit_status_def
        by (rule triple_bind [OF stage_answers(4)], rule triple_fact, simp,
            rule triple_bind [OF stage_answers(5)], rule triple_return, simp)
      then show ?thesis
        by (cases j) (auto intro!: triple_bind triple_return simp: triple_def split: prod.splits)
    qed
    then show ?thesis unfolding update_status_def
      by (rule triple_bind) (auto intro!: triple_return split: prod.splits)
  qed
  have over: "triple expired (handleExpiry stage_reconciler demo_fi) (\<lambda>x w. snd x = None)"
    unfolding handleExpiry_def n
    apply (rule triple_bind [where R = "\<lambda>_. expired"], rule triple_eventf, assumption)
    apply (rule triple_bind [OF stage_cleanup], rule triple_fact, simp)
    apply (rule triple_bind [OF status], rule triple_case_option)
     apply (rule triple_bind [where R = "\<lambda>_ _. True"], rule triple_eventf, simp, rule triple_return, simp)
    apply (simp add: triple_def)
    done
  have life: "triple expired (ensureLifecycle stage_reconciler demo_fi) (\<lambda>x w. expired w \<and> x = (demo_fi, False))"
  proof -
    have "result_of (ensureLifecycle stage_reconciler demo_fi) s = (demo_fi, False)" for s
      by (simp add: ensureLifecycle_result lifecycle_dated [OF n(3)])
    moreover have "holds_on expired (ensureLifecycle stage_reconciler demo_fi)"
    proof -
      have "holds_on expired (time_now stage_reconciler)" by (rule triple_conseq [OF stage_answers(6)]) simp_all
      then show ?thesis unfolding ensureLifecycle_def refresh_expiry_def by (intro triple_intro) simp_all
    qed
    ultimately show ?thesis by (simp add: triple_def result_of_def)
  qed
  show ?thesis
    unfolding Reconcile_def
    apply (rule triple_bind [OF stage_answers(4)], rule triple_fact, simp)
    apply (rule triple_bind [OF stage_answers(6)], rule triple_fact, simp)
    apply (rule triple_bind [OF life], rule triple_fact)
    apply (simp add: reconcile_loaded_def n over second_def)
    done
qed

section \<open>A reconcile that comes back\<close>

text \<open>The demo experiment with its mesh fault only, running.\<close>

definition mesh_fi :: faultInjection where
  "mesh_fi = demo_fi\<lparr>fiSpec := (fiSpec demo_fi)\<lparr>spActions := \<lparr>asMeshFaults = [demo_mesh], asPodFaults = []\<rparr>\<rparr>,
     fiStatus := demo_status\<lparr>stPhase := RunningPhase\<rparr>\<rparr>"

lemma mesh_fi_facts: "meshFaults mesh_fi = [demo_mesh]" "podFaults mesh_fi = []" "fiNamespace mesh_fi = ''ns''"
    "fiName mesh_fi = ''demo''" "dated mesh_fi" "\<not> spCancel (fiSpec mesh_fi)" "stPhase (fiStatus mesh_fi) = RunningPhase"
    "stExpiresAt (fiStatus mesh_fi) = Some (demo_time + 60 * second)" "stStartedAt (fiStatus mesh_fi) = Some demo_time"
    "maDirection demo_mesh = INBOUNDDirection" "renderable demo_mesh"
    "hfVirtualServiceRef (maHTTP demo_mesh) = Some \<lparr>vrName = ''web''\<rparr>"
  by code_simp+

lemma mesh_desired: "\<exists>mg d. buildDesiredByVSTarget mesh_fi = Some ([(joinKey ''ns'' ''web'', d)], mg) \<and> dsManaged d = False"
proof -
  obtain rule where r: "buildInjectedHTTPRule mesh_fi demo_mesh = Some rule" using renderable_rule [OF mesh_fi_facts(11)] by blast
  show ?thesis
    by (simp add: buildDesiredByVSTarget_def mesh_fi_facts desired_step_def r Let_def sort_desired_def desired_at_def
        zero_desired_def)
qed

lemma mesh_checks:
  "run_state (validateSpec (store_reconciler mesh_fi demo_time) mesh_fi) \<lparr>world = [demo_vs], trace = t\<rparr>
     = (None, \<lparr>world = [demo_vs], trace = t @ [OpListPods ''ns'' [(''app'', ''web'')] (Inr [demo_pod ''web-2'', demo_pod ''web-1''])]\<rparr>)"
  by code_simp

lemma mesh_valid:
  "triple (\<lambda>w. w = [demo_vs]) (validateSpec (store_reconciler mesh_fi demo_time) mesh_fi) (\<lambda>x w. w = [demo_vs] \<and> x = None)"
proof -
  have "world (snd (run_state (validateSpec (store_reconciler mesh_fi demo_time) mesh_fi) s)) = [demo_vs]
      \<and> fst (run_state (validateSpec (store_reconciler mesh_fi demo_time) mesh_fi) s) = None" if "world s = [demo_vs]" for s
  proof -
    have "s = \<lparr>world = [demo_vs], trace = trace s\<rparr>" using that by simp
    then show ?thesis using mesh_checks [of "trace s"] by simp
  qed
  then show ?thesis by (simp add: triple_def)
qed

text \<open>A step whose result is known.\<close>

lemma triple_known:
  "triple P m (\<lambda>x w. R w \<and> x = v) \<Longrightarrow> triple R (f v) Q \<Longrightarrow> triple P (State_Monad.bind m f) Q"
  by (erule triple_bind, rule triple_fact) simp

lemma mesh_applies:
  assumes "dsManaged d = False"
  shows "triple (\<lambda>w. w = [demo_vs]) (applyDesiredTargets (store_reconciler mesh_fi demo_time) mesh_fi [(joinKey ''ns'' ''web'', d)])
    (\<lambda>x w. True \<and> x = Inr False)"
proof -
  have k: "splitKey (joinKey ''ns'' ''web'') = (''ns'', ''web'')" by code_simp
  have g: "store_look [demo_vs] (''ns'', ''web'') = Some demo_vs" by code_simp
  obtain base where b: "findAnyExistingRoute demo_vs = Some base" using demo_route(1) by blast
  have r: "range_keys (store_reconciler mesh_fi demo_time) (mkeys [(joinKey ''ns'' ''web'', d)]) = [joinKey ''ns'' ''web'']"
    by (simp add: range_keys_def store_reconciler_def demo_reconciler_def mkeys_def)
  show ?thesis
    unfolding applyDesiredTargets_def r
    by (simp add: triple_def apply_target_def k getOrCreateVirtualService_def inject_target_def b patch_target_def
        ensureManagedOutboundVSGatewaysMesh_def assms desired_at_def Let_def call_defs call_def
        eventf_def emit_def store_reconciler_def demo_reconciler_def g split: prod.split)
qed

lemma mesh_comes_back:
  "triple (\<lambda>w. w = [demo_vs]) (Reconcile (store_reconciler mesh_fi demo_time) ''ns'' ''demo'') (\<lambda>x w. comes_back x)"
proof -
  let ?r = "store_reconciler mesh_fi demo_time"
  obtain mg d where d: "buildDesiredByVSTarget mesh_fi = Some ([(joinKey ''ns'' ''web'', d)], mg)" "dsManaged d = False"
    using mesh_desired by blast
  have get: "triple P (getFI ?r a b) (\<lambda>g w. P w \<and> g = Inr mesh_fi)" for P a b
    unfolding call_defs by (rule triple_call) (simp add: store_reconciler_def demo_reconciler_def)
  have now: "triple P (time_now ?r) (\<lambda>t w. P w \<and> t = demo_time)" for P
    by (simp add: triple_def time_now_def store_reconciler_def demo_reconciler_def)
  have life: "triple P (ensureLifecycle ?r mesh_fi) (\<lambda>x w. P w \<and> x = (mesh_fi, False))" for P
  proof -
    have "result_of (ensureLifecycle ?r mesh_fi) s = (mesh_fi, False)" for s
      by (simp add: ensureLifecycle_result lifecycle_dated [OF mesh_fi_facts(5)])
    moreover have "holds_on P (ensureLifecycle ?r mesh_fi)"
    proof -
      have "holds_on P (time_now ?r)" by (rule triple_conseq [OF now]) simp_all
      then show ?thesis unfolding ensureLifecycle_def refresh_expiry_def by (intro triple_intro) simp_all
    qed
    ultimately show ?thesis by (simp add: triple_def result_of_def)
  qed
  have step: "triple P (requeue_step ?r mesh_fi None) (\<lambda>x w. comes_back x)" for P
    unfolding requeue_step_def mesh_fi_facts option.case time_until_def
    apply (rule triple_known [where R = P and v = "time_sub (demo_time + 60 * second) demo_time"])
     apply (rule triple_known [OF now], rule triple_return, simp)
    apply (rule triple_return, simp add: comes_back_def time_sub_def second_def)
    done
  have still: "markRunning ?r mesh_fi = State_Monad.return None"
    "applyPodFaults ?r mesh_fi demo_time = State_Monad.return (False, None, None)"
    by (simp_all add: markRunning_def applyPodFaults_def mesh_fi_facts)
  have run: "triple P (run_step ?r ''ns'' ''demo'' mesh_fi demo_time) (\<lambda>x w. comes_back x)" for P
    unfolding run_step_def still
    by (rule triple_known [where R = P and v = None], rule triple_return, simp)
      (simp only: option.case, rule triple_known [OF get], simp add: still step)
  have apply_all: "triple (\<lambda>w. w = [demo_vs]) (apply_step ?r ''ns'' ''demo'' mesh_fi demo_time) (\<lambda>x w. comes_back x)"
    unfolding apply_step_def d(1) option.case prod.case
    by (rule triple_known [OF mesh_applies [OF d(2)]]) (simp, intro triple_any run)
  have loaded: "triple (\<lambda>w. w = [demo_vs]) (reconcile_loaded ?r ''ns'' ''demo'' mesh_fi demo_time) (\<lambda>x w. comes_back x)"
    using mesh_fi_facts triple_known [OF mesh_valid, where Q = "\<lambda>x w. comes_back x"] apply_all
    by (simp add: reconcile_loaded_def second_def)
  show ?thesis
    unfolding Reconcile_def
    by (rule triple_known [OF get], simp, rule triple_known [OF now], rule triple_known [OF life]) (simp add: loaded)
qed

lemma store_vs_store: "fiNamespace fi = ns \<Longrightarrow> fiName fi = n \<Longrightarrow> vs_store (store_reconciler fi now) store_look ns n"
  using store_server [of fi now] store_creates [of fi now]
  by (simp add: vs_store_def list_law_def keeps_vs_def look_filter store_reconciler_def demo_reconciler_def)

section \<open>The first reconcile\<close>

text \<open>The demo experiment as its user creates it, and the events of the first run on it.\<close>

definition new_fi :: faultInjection where
  "new_fi = demo_fi\<lparr>fiStatus := demo_status\<lparr>stStartedAt := None, stExpiresAt := None\<rparr>\<rparr>"

definition first_run :: "fi_event list" where
  "first_run = map (Request 0)
     [OpGetFI ''ns'' ''demo'' (Inr new_fi), OpGetFI ''ns'' ''demo'' (Inr new_fi), OpStatusUpdateFI demo_fi None,
      OpGetFI ''ns'' ''demo'' (Inr new_fi)]"

lemma first_run_ops:
  "ops_of (Reconcile (demo_reconciler new_fi demo_time) ''ns'' ''demo'') demo_sys = requests_of 0 first_run"
  by code_simp

lemma first_run_reconciles: "reconciles_run (\<lambda>_. demo_reconciler new_fi demo_time :: unit reconciler) ''ns'' ''demo'' ([Appeared new_fi] @ first_run)"
proof -
  have "prefix (requests_of i ([Appeared new_fi] @ first_run)) (ops_of (Reconcile (demo_reconciler new_fi demo_time) ''ns'' ''demo'') demo_sys)" for i
    unfolding first_run_ops by (simp add: first_run_def)
  then show ?thesis unfolding reconciles_run_def by blast
qed

lemma appeared_fi: "fi_served ''ns'' ''demo'' (None, {}) [Appeared new_fi] (Some new_fi, {new_fi})"
proof -
  have "fiNamespace new_fi = ''ns''" "fiName new_fi = ''demo''" "fresh_status (fiStatus new_fi)"
    unfolding fresh_status_def by code_simp+
  then show ?thesis using fi_served.appeared [OF fi_served.start, where fi = new_fi] by simp
qed

lemma first_run_served:
  "fi_served ''ns'' ''demo'' (Some new_fi, {new_fi}) first_run
     (Some (with_status ''2'' demo_fi new_fi), {with_status ''2'' demo_fi new_fi, new_fi})"
proof -
  have v: "fi_version demo_fi = fi_version new_fi" "''2'' \<noteq> fi_version new_fi" by code_simp+
  have read: "fi_served ''ns'' ''demo'' (Some new_fi, {new_fi})
      ([] @ [Request 0 (OpGetFI ''ns'' ''demo'' (Inr new_fi))] @ [Request 0 (OpGetFI ''ns'' ''demo'' (Inr new_fi))]) (Some new_fi, {new_fi})"
    unfolding append_assoc [symmetric] by (intro fi_served.got fi_served.start) simp_all
  note stored = fi_served.stored [OF read v(1), where v = "''2''" and i = 0]
  show ?thesis using fi_served.got [OF stored, of new_fi 0] v(2) by (simp add: first_run_def)
qed

section \<open>The second reconcile\<close>

text \<open>A reconciler whose reads of the FaultInjection are answered in turn.\<close>

definition turns_reconciler :: "(nat \<Rightarrow> apiError + faultInjection) \<Rightarrow> time \<Rightarrow> nat reconciler" where
  "turns_reconciler answer now = (demo_reconciler new_fi now)\<lparr>rcGetFI := (\<lambda>_ _ w. (answer w, Suc w))\<rparr>"

definition stored_fi :: faultInjection where
  "stored_fi = with_status ''2'' demo_fi new_fi"

text \<open>The user doubles the duration, and the next reconcile dates the expiry anew.\<close>

definition longer_fi :: faultInjection where
  "longer_fi = stored_fi\<lparr>fiMeta := (fiMeta stored_fi)\<lparr>oResourceVersion := ''3''\<rparr>,
     fiSpec := (fiSpec stored_fi)\<lparr>spBlastRadius := (spBlastRadius (fiSpec stored_fi))\<lparr>brDurationSeconds := 120\<rparr>\<rparr>\<rparr>"

definition refreshed_fi :: faultInjection where
  "refreshed_fi = longer_fi\<lparr>fiStatus := (fiStatus longer_fi)\<lparr>stExpiresAt := Some (demo_time + 120 * second)\<rparr>\<rparr>"

definition second_run :: "fi_event list" where
  "second_run = Edited longer_fi # map (Request 1)
     [OpGetFI ''ns'' ''demo'' (Inr longer_fi), OpGetFI ''ns'' ''demo'' (Inr longer_fi), OpStatusUpdateFI refreshed_fi None]"

text \<open>A second reconcile that reads the object as it was before the first one.\<close>

definition restarted_fi :: faultInjection where
  "restarted_fi = stored_fi\<lparr>fiStatus := (fiStatus stored_fi)\<lparr>stStartedAt := Some (demo_time + 30 * second),
     stExpiresAt := Some (demo_time + 90 * second)\<rparr>\<rparr>"

definition stale_run :: "fi_event list" where
  "stale_run = map (Request 1)
     [OpGetFI ''ns'' ''demo'' (Inr new_fi), OpGetFI ''ns'' ''demo'' (Inr stored_fi), OpStatusUpdateFI restarted_fi None]"

definition turns :: "(nat \<Rightarrow> apiError + faultInjection) \<Rightarrow> time \<Rightarrow> nat \<Rightarrow> nat reconciler" where
  "turns answer now i = (if i = 0 then demo_reconciler new_fi demo_time else turns_reconciler answer now)"

lemma first_turn: "ops_of (Reconcile (demo_reconciler new_fi demo_time) ''ns'' ''demo'') \<lparr>world = 0 :: nat, trace = []\<rparr> = requests_of 0 first_run"
  by code_simp

lemma turns_reconcile:
  assumes "prefix (requests_of 1 H) (ops_of (Reconcile (turns_reconciler answer now) ''ns'' ''demo'') \<lparr>world = 0, trace = []\<rparr>)"
    and "\<And>i. i \<noteq> 1 \<Longrightarrow> requests_of i H = []"
  shows "reconciles_run (turns answer now) ''ns'' ''demo'' (([Appeared new_fi] @ first_run) @ H)"
proof -
  have "\<exists>s. prefix (requests_of i (([Appeared new_fi] @ first_run) @ H)) (ops_of (Reconcile (turns answer now i) ''ns'' ''demo'') s)" for i
  proof -
    consider "i = 0" | "i = 1" | "i \<noteq> 0" "i \<noteq> 1" by blast
    then show ?thesis
    proof cases
      case 1
      then show ?thesis using first_turn assms(2) [of 0] by (intro exI [of _ "\<lparr>world = 0, trace = []\<rparr>"]) (simp add: turns_def)
    next
      case 2
      then show ?thesis using assms(1) by (intro exI [of _ "\<lparr>world = 0, trace = []\<rparr>"]) (simp add: turns_def first_run_def)
    qed (use assms(2) in \<open>simp add: first_run_def\<close>)
  qed
  then show ?thesis unfolding reconciles_run_def by blast
qed

lemma second_run_reconciles:
  "reconciles_run (turns (\<lambda>w. if w < 2 then Inr longer_fi else Inl NotFound) (demo_time + 10 * second)) ''ns'' ''demo''
     (([Appeared new_fi] @ first_run) @ second_run)"
proof (rule turns_reconcile)
  have "ops_of (Reconcile (turns_reconciler (\<lambda>w. if w < 2 then Inr longer_fi else Inl NotFound) (demo_time + 10 * second)) ''ns'' ''demo'')
      \<lparr>world = 0, trace = []\<rparr> = requests_of 1 second_run @ [OpGetFI ''ns'' ''demo'' (Inl NotFound)]"
    by code_simp
  then show "prefix (requests_of 1 second_run) (ops_of (Reconcile (turns_reconciler (\<lambda>w. if w < 2 then Inr longer_fi else Inl NotFound)
      (demo_time + 10 * second)) ''ns'' ''demo'') \<lparr>world = 0, trace = []\<rparr>)" by simp
qed (simp add: second_run_def)

lemma stale_run_reconciles:
  "reconciles_run (turns (\<lambda>w. if w = 0 then Inr new_fi else if w = 1 then Inr stored_fi else Inl NotFound) (demo_time + 30 * second))
     ''ns'' ''demo'' (([Appeared new_fi] @ first_run) @ stale_run)"
proof (rule turns_reconcile)
  let ?a = "\<lambda>w. if w = 0 then Inr new_fi else if w = 1 then Inr stored_fi else Inl NotFound"
  have "ops_of (Reconcile (turns_reconciler ?a (demo_time + 30 * second)) ''ns'' ''demo'') \<lparr>world = 0, trace = []\<rparr>
      = requests_of 1 stale_run @ [OpGetFI ''ns'' ''demo'' (Inl NotFound)]"
    by code_simp
  then show "prefix (requests_of 1 stale_run)
      (ops_of (Reconcile (turns_reconciler ?a (demo_time + 30 * second)) ''ns'' ''demo'') \<lparr>world = 0, trace = []\<rparr>)" by simp
qed (simp add: stale_run_def)

lemma turn_versions: "fi_version new_fi = []" "fi_version stored_fi = ''2''" "fi_version longer_fi = ''3''"
    "fi_version refreshed_fi = ''3''" "fi_version restarted_fi = ''2''"
    "fiNamespace longer_fi = ''ns''" "fiName longer_fi = ''demo''" "fiStatus longer_fi = fiStatus stored_fi"
    "stStartedAt (fiStatus stored_fi) = Some demo_time" "stExpiresAt (fiStatus stored_fi) = Some (demo_time + 60 * second)"
    "stored_fi \<noteq> new_fi" "longer_fi \<noteq> new_fi"
  by code_simp+

lemma first_turn_served: "fi_served ''ns'' ''demo'' (None, {}) ([Appeared new_fi] @ first_run) (Some stored_fi, {stored_fi, new_fi})"
  using served_append [OF first_run_served appeared_fi] by (simp add: stored_fi_def)

lemma second_run_served:
  "fi_served ''ns'' ''demo'' (Some stored_fi, {stored_fi, new_fi}) second_run
     (Some (with_status ''4'' refreshed_fi longer_fi), {with_status ''4'' refreshed_fi longer_fi, longer_fi, stored_fi, new_fi})"
proof -
  have "fi_served ''ns'' ''demo'' (Some stored_fi, {stored_fi, new_fi})
      ((([] @ [Edited longer_fi]) @ [Request 1 (OpGetFI ''ns'' ''demo'' (Inr longer_fi))]) @ [Request 1 (OpGetFI ''ns'' ''demo'' (Inr longer_fi))])
      (Some longer_fi, {longer_fi, stored_fi, new_fi})"
    by (intro fi_served.got fi_served.edited) (simp_all add: turn_versions fi_served.start)
  from fi_served.stored [OF this, of refreshed_fi "''4''" 1] show ?thesis by (simp add: turn_versions second_run_def)
qed

lemma stale_run_served:
  "fi_served ''ns'' ''demo'' (Some stored_fi, {stored_fi, new_fi}) stale_run
     (Some (with_status ''3'' restarted_fi stored_fi), {with_status ''3'' restarted_fi stored_fi, stored_fi, new_fi})"
proof -
  have "fi_served ''ns'' ''demo'' (Some stored_fi, {stored_fi, new_fi})
      (([] @ [Request 1 (OpGetFI ''ns'' ''demo'' (Inr new_fi))]) @ [Request 1 (OpGetFI ''ns'' ''demo'' (Inr stored_fi))])
      (Some stored_fi, {stored_fi, new_fi})"
    by (intro fi_served.got fi_served.start) simp_all
  from fi_served.stored [OF this, of restarted_fi "''3''" 1] show ?thesis by (simp add: turn_versions stale_run_def)
qed

text \<open>So a reconcile that reads an old object starts the experiment anew.\<close>

lemma stale_read_restarts:
  "\<exists>f. fi_served ''ns'' ''demo'' (None, {}) (([Appeared new_fi] @ first_run) @ stale_run) (Some f, {f, stored_fi, new_fi})
     \<and> stStartedAt (fiStatus stored_fi) = Some demo_time \<and> stStartedAt (fiStatus f) = Some (demo_time + 30 * second)"
  using served_append [OF stale_run_served first_turn_served] by (auto simp: turn_versions restarted_fi_def)

section \<open>A tick that is forgotten\<close>

text \<open>
  A pod fault whose Job is running has taken the pods below its own guardrail: the next reconcile
  rejects the spec, and the cleanup that follows deletes the Job, while the tick stays unrecorded.
\<close>

definition demo_job :: jobObj where
  "demo_job = \<lparr>jbMeta = demo_meta ''fi-job'', jbBackoffLimit = 0, jbActiveDeadlineSeconds = 300,
     jbTTLSecondsAfterFinished = 300, jbTemplateLabels = [], jbTemplateAnnotations = [], jbRestartPolicy = ''Never'',
     jbServiceAccountName = [], jbContainerName = [], jbImage = [], jbImagePullPolicy = [], jbCommand = [],
     jbArgs = [], jbEnv = [], jbConditions = [], jbCompletionTime = None, jbSucceeded = 0, jbFailed = 0\<rparr>"

definition guarded_fi :: faultInjection where
  "guarded_fi = demo_fi\<lparr>fiSpec := (fiSpec demo_fi)\<lparr>spActions := \<lparr>asMeshFaults = [], asPodFaults = [demo_pod_fault]\<rparr>\<rparr>,
     fiStatus := demo_status\<lparr>stPhase := RunningPhase,
       stPodFaults := [plan_tick demo_plan demo_time (new_tick ''kill'' ''oneshot'')]\<rparr>\<rparr>"

definition guarded_reconciler :: "unit reconciler" where
  "guarded_reconciler = (demo_reconciler guarded_fi demo_time)\<lparr>
     rcListPods := (\<lambda>_ _ w. (Inr [demo_pod ''web-2''], w)), rcListJobs := (\<lambda>_ _ w. (Inr [demo_job], w))\<rparr>"

lemma guardrail_recheck_forgets:
  "fst (run_state (validateSpec guarded_reconciler guarded_fi) demo_sys) \<noteq> None
   \<and> list_ex (\<lambda>x. x = OpDeleteJob demo_job None) (ops_of (cleanupAll guarded_reconciler guarded_fi) demo_sys)
   \<and> \<not> isJobComplete demo_job \<and> \<not> isJobFailed demo_job
   \<and> stPodFaults (fiStatus (set_error guarded_fi m)) = stPodFaults (fiStatus guarded_fi)
   \<and> \<not> skip_plan guarded_fi demo_plan"
proof -
  have "fst (run_state (validateSpec guarded_reconciler guarded_fi) demo_sys) \<noteq> None" by code_simp
  moreover have "list_ex (\<lambda>x. x = OpDeleteJob demo_job None) (ops_of (cleanupAll guarded_reconciler guarded_fi) demo_sys)"
    by code_simp
  moreover have "\<not> isJobComplete demo_job" "\<not> isJobFailed demo_job" "\<not> skip_plan guarded_fi demo_plan" by code_simp+
  ultimately show ?thesis by (simp add: set_error_def)
qed

section \<open>A Job that is awaited\<close>

text \<open>The pod fault whose Job is running, with enough pods left: the reconcile waits for the Job.\<close>

definition waiting_reconciler :: "unit reconciler" where
  "waiting_reconciler = (demo_reconciler guarded_fi demo_time)\<lparr>rcGetJob := (\<lambda>_ _ w. (Inr demo_job, w))\<rparr>"

lemma guarded_facts: "meshFaults guarded_fi = []" "podFaults guarded_fi = [demo_pod_fault]" "dated guarded_fi"
    "\<not> spCancel (fiSpec guarded_fi)" "stPhase (fiStatus guarded_fi) = RunningPhase"
    "stExpiresAt (fiStatus guarded_fi) = Some (demo_time + 60 * second)" "stStartedAt (fiStatus guarded_fi) = Some demo_time"
    "fiName guarded_fi = ''demo''"
    "buildDesiredByVSTarget guarded_fi = Some ([], [])" "validatePodFaultSelection demo_pod_fault = None"
    "resolvePodFaultMode demo_pod_fault = ExecutionModeOneShot" "paName demo_pod_fault = ''kill''"
    "\<not> isJobComplete demo_job" "\<not> isJobFailed demo_job"
    "findPodFaultTickStatus (stPodFaults (fiStatus guarded_fi)) ''kill'' ''oneshot''
       = Some (plan_tick demo_plan demo_time (new_tick ''kill'' ''oneshot''))"
    "\<not> isTerminalTickState (tkState (plan_tick demo_plan demo_time (new_tick ''kill'' ''oneshot'')))"
    "\<not> podFaultTickAlreadyExecuted (stPodFaults (fiStatus guarded_fi)) ''kill'' ''oneshot''"
  by code_simp+

lemma guarded_plan: "\<exists>p. buildPodFaultPlans guarded_fi demo_time demo_time = ([p], None, None) \<and> \<not> skip_plan guarded_fi p"
proof -
  have "dns_name ''demo''" "dns_name ''kill''" "dns_name ''oneshot''" by code_simp+
  then obtain jl where "podFaultNames guarded_fi ''kill'' ''oneshot'' = Some jl"
    using podFaultNames_short [of guarded_fi "''kill''" "''oneshot''"]
    by (simp add: guarded_facts san.norm_fix Let_def)
  then have "\<exists>p. plan_for guarded_fi demo_pod_fault n ''oneshot'' None = Some p \<and> plActionName p = ''kill'' \<and> plTickID p = ''oneshot''" for n
    by (simp add: plan_for_def guarded_facts split_beta)
  then obtain p where p: "plan_for guarded_fi demo_pod_fault (capEffectiveMaxPods guarded_fi demo_pod_fault ExecutionModeOneShot) ''oneshot'' None = Some p"
     "plActionName p = ''kill''" "plTickID p = ''oneshot''"
    by blast
  then have "buildPodFaultPlans guarded_fi demo_time demo_time = ([p], None, None)"
    by (simp add: buildPodFaultPlans_def plan_step_def guarded_facts)
  then show ?thesis using p by (simp add: skip_plan_def guarded_facts)
qed

lemma waiting_checks:
  "run_state (validateSpec waiting_reconciler guarded_fi) \<lparr>world = (), trace = t\<rparr>
     = (None, \<lparr>world = (), trace = t @ [OpListPods ''ns'' [(''app'', ''web'')] (Inr [demo_pod ''web-2'', demo_pod ''web-1''])]\<rparr>)"
  by code_simp

lemma waiting_pods:
  "triple P (applyPodFaults waiting_reconciler guarded_fi demo_time) (\<lambda>x w. True \<and> x = (False, Some (demo_time + 2 * second), None))"
proof -
  obtain p where p: "buildPodFaultPlans guarded_fi demo_time demo_time = ([p], None, None)" "\<not> skip_plan guarded_fi p"
    using guarded_plan by blast
  show ?thesis
    by (simp add: triple_def applyPodFaults_def guarded_facts p plan_body_def getJob_def call_def waiting_reconciler_def
        updateEarliestDue_def)
qed

lemma waiting_comes_back:
  "triple (\<lambda>_. True) (Reconcile waiting_reconciler ''ns'' ''demo'')
     (\<lambda>x w. x = (\<lparr>crRequeue = False, crRequeueAfter = 2 * second\<rparr>, None))"
proof -
  let ?r = waiting_reconciler and ?Q = "\<lambda>x w. x = (\<lparr>crRequeue = False, crRequeueAfter = 2 * second\<rparr>, None :: goerr option)"
  have get: "triple (\<lambda>_. True) (getFI ?r a b) (\<lambda>g w. True \<and> g = Inr guarded_fi)" for a b
    unfolding call_defs by (rule triple_call) (simp add: waiting_reconciler_def demo_reconciler_def)
  have now: "triple (\<lambda>_. True) (time_now ?r) (\<lambda>t w. True \<and> t = demo_time)"
    by (simp add: triple_def time_now_def waiting_reconciler_def demo_reconciler_def)
  have life: "triple (\<lambda>_. True) (ensureLifecycle ?r guarded_fi) (\<lambda>x w. True \<and> x = (guarded_fi, False))"
    using ensureLifecycle_result [of ?r guarded_fi] lifecycle_dated [OF guarded_facts(3)] by (simp add: triple_def result_of_def)
  have valid: "triple (\<lambda>_. True) (validateSpec ?r guarded_fi) (\<lambda>x w. True \<and> x = None)"
  proof -
    have "fst (run_state (validateSpec ?r guarded_fi) s) = None" for s :: "unit sys"
    proof -
      have "s = \<lparr>world = (), trace = trace s\<rparr>" by simp
      then show ?thesis using waiting_checks [of "trace s"] by (metis fst_conv)
    qed
    then show ?thesis by (simp add: triple_def)
  qed
  have apply_all: "triple (\<lambda>_. True) (applyDesiredTargets ?r guarded_fi []) (\<lambda>x w. True \<and> x = Inr False)"
    by (simp add: triple_def applyDesiredTargets_def range_keys_def mkeys_def waiting_reconciler_def demo_reconciler_def)
  have until: "triple (\<lambda>_. True) (time_until ?r t) (\<lambda>x w. True \<and> x = time_sub t demo_time)" for t
    unfolding time_until_def by (rule triple_known [OF now], rule triple_return, simp)
  have step: "triple (\<lambda>_. True) (requeue_step ?r guarded_fi (Some (demo_time + 2 * second))) ?Q"
    unfolding requeue_step_def guarded_facts option.case
    by (rule triple_known [OF until], rule triple_known [OF until], simp only: Let_def, rule triple_known [OF until], rule triple_return)
      (simp add: time_sub_def second_def)
  have marked: "markRunning ?r guarded_fi = State_Monad.return None" by (simp add: markRunning_def guarded_facts)
  have run: "triple (\<lambda>_. True) (run_step ?r ''ns'' ''demo'' guarded_fi demo_time) ?Q"
    unfolding run_step_def marked
    by (rule triple_known [where R = "\<lambda>_. True" and v = None], rule triple_return, simp)
      (simp only: option.case, rule triple_known [OF get], simp only: sum.case, rule triple_known [OF waiting_pods], simp add: step)
  have loaded: "triple (\<lambda>_. True) (reconcile_loaded ?r ''ns'' ''demo'' guarded_fi demo_time) ?Q"
  proof -
    have "triple (\<lambda>_. True) (apply_step ?r ''ns'' ''demo'' guarded_fi demo_time) ?Q"
      unfolding apply_step_def guarded_facts(9) option.case prod.case
      by (rule triple_known [OF apply_all]) (simp, intro triple_any run)
    then show ?thesis
      using triple_known [OF valid, where Q = ?Q] guarded_facts by (simp add: reconcile_loaded_def second_def)
  qed
  show ?thesis
    unfolding Reconcile_def
    by (rule triple_known [OF get], simp, rule triple_known [OF now], rule triple_known [OF life]) (simp add: loaded)
qed

section \<open>Owners and watches\<close>

text \<open>An owner reference as \<open>SetControllerReference\<close> adds it, and the requests events make.\<close>

definition owner_reconciler :: "unit reconciler" where
  "owner_reconciler = (demo_reconciler demo_fi demo_time)\<lparr>
     rcSetControllerReference := (\<lambda>owner m.
       if oNamespace owner \<noteq> oNamespace m then Inl (OtherError [])
       else Inr (m\<lparr>oOwners := \<lparr>orKind = ''FaultInjection'', orName = oName owner, orUID = oUID owner,
         orController = True\<rparr> # oOwners m\<rparr>))\<rparr>"

definition demo_requests :: "objKind \<Rightarrow> objMeta \<Rightarrow> (string \<times> string) set" where
  "demo_requests kind m =
     (if kind = KFaultInjection then {(oNamespace m, oName m)}
      else if kind \<in> {KJob, KLease} then
        set (map (\<lambda>ow. (oNamespace m, orName ow)) (filter (\<lambda>ow. orController ow \<and> orKind ow = ''FaultInjection'') (oOwners m)))
      else {})"

lemma demo_watch: "watch_law controller_registration demo_requests"
  by (auto simp: watch_law_def controller_registration_def demo_requests_def)

lemma demo_owner_law: "owner_law owner_reconciler"
  by (simp add: owner_law_def owner_reconciler_def)

end
