(* ===== verification/TwoFaults.thy ===== *)
theory TwoFaults
  imports Demo
begin

text \<open>
  A history of two reconciles of an experiment with two pod faults, on the small cluster of
  \<open>Demo.thy\<close>: the first records the outcome of one tick, the second creates the Job of the other.
\<close>

section \<open>The experiment and its plans\<close>

text \<open>An experiment with two pod faults: the Job of the first is complete.\<close>

definition two_fi :: faultInjection where
  "two_fi = demo_fi\<lparr>fiSpec := (fiSpec demo_fi)\<lparr>spActions :=
     \<lparr>asMeshFaults = [], asPodFaults = [demo_pod_fault, demo_pod_fault\<lparr>paName := ''kick''\<rparr>]\<rparr>\<rparr>\<rparr>"

definition two_plan :: "string \<Rightarrow> podFaultPlan" where
  "two_plan a = demo_plan\<lparr>plActionName := a, plJobName := pod_name_format ''demo'' a ''oneshot'',
     plLeaseName := pod_name_format ''demo'' a ''oneshot'', plPodNames := []\<rparr>"

lemma two_plans:
  assumes "fiSpec f = fiSpec two_fi" "fiName f = ''demo''" "fiNamespace f = ''ns''"
  shows "buildPodFaultPlans f now t0 = ([two_plan ''kill'', two_plan ''kick''], None, None)"
proof -
  have dns: "dns_name ''demo''" "dns_name ''kill''" "dns_name ''kick''" "dns_name ''oneshot''" by code_simp+
  have names: "podFaultNames f a ''oneshot'' = Some (pod_name_format ''demo'' a ''oneshot'', pod_name_format ''demo'' a ''oneshot'')"
    if "dns_name a" "length a = 4" for a
    using podFaultNames_short [of f a "''oneshot''"] that dns by (simp add: assms san.norm_fix Let_def)
  have facts: "podFaults two_fi = [demo_pod_fault, demo_pod_fault\<lparr>paName := ''kick''\<rparr>]"
    "brMaxPodsAffected (spBlastRadius (fiSpec two_fi)) = 2"
    by code_simp+
  have acts: "podFaults f = [demo_pod_fault, demo_pod_fault\<lparr>paName := ''kick''\<rparr>]"
    using facts(1) assms(1) by simp
  have cap: "capEffectiveMaxPods f a m = capEffectiveMaxPods two_fi a m" for a m
    by (simp add: capEffectiveMaxPods_def assms(1))
  have caps: "capEffectiveMaxPods two_fi demo_pod_fault ExecutionModeOneShot = 2"
    "capEffectiveMaxPods two_fi (demo_pod_fault\<lparr>paName := ''kick''\<rparr>) ExecutionModeOneShot = 2"
    by code_simp+
  have act: "validatePodFaultSelection demo_pod_fault = None" "validatePodFaultSelection (demo_pod_fault\<lparr>paName := ''kick''\<rparr>) = None"
    "resolvePodFaultMode demo_pod_fault = ExecutionModeOneShot" "resolvePodFaultMode (demo_pod_fault\<lparr>paName := ''kick''\<rparr>) = ExecutionModeOneShot"
    by code_simp+
  have trim: "TrimSpace [] = []" by code_simp
  have ns: "resolvePodFaultTargetNS f demo_pod_fault = ''ns''" "resolvePodFaultTargetNS f (demo_pod_fault\<lparr>paName := ''kick''\<rparr>) = ''ns''"
    using assms(3) trim by (simp_all add: resolvePodFaultTargetNS_def demo_pod_fault_def)
  have "plan_for f demo_pod_fault 2 ''oneshot'' None = Some (two_plan ''kill'')"
    "plan_for f (demo_pod_fault\<lparr>paName := ''kick''\<rparr>) 2 ''oneshot'' None = Some (two_plan ''kick'')"
    unfolding plan_for_def ns using names [of "''kill''"] names [of "''kick''"] dns
    by (simp_all add: demo_pod_fault_def two_plan_def demo_plan_def)
  then show ?thesis
    by (simp add: buildPodFaultPlans_def acts plan_step_def act cap caps)
qed

section \<open>The first run\<close>

text \<open>The object as the requests of the two runs write it, and as the server stores it.\<close>

definition marked_fi :: faultInjection where
  "marked_fi = two_fi\<lparr>fiStatus := running_status (fiStatus two_fi)\<rparr>"

definition running_fi :: faultInjection where
  "running_fi = with_status ''1'' marked_fi two_fi"

definition recorded_fi :: faultInjection where
  "recorded_fi = running_fi\<lparr>fiStatus := executed_status (two_plan ''kill'') demo_time True ''completed'' (fiStatus running_fi)\<rparr>"

definition killed_fi :: faultInjection where
  "killed_fi = with_status ''2'' recorded_fi running_fi"

definition kick_plan :: podFaultPlan where
  "kick_plan = (two_plan ''kick'')\<lparr>plPodNames := [''web-1'']\<rparr>"

definition planned_fi :: faultInjection where
  "planned_fi = killed_fi\<lparr>fiStatus := (case planned_status kick_plan demo_time (fiStatus killed_fi) of
     Some st \<Rightarrow> st | None \<Rightarrow> fiStatus killed_fi)\<rparr>"

definition two_reconciler :: "(nat \<Rightarrow> apiError + faultInjection) \<Rightarrow> apiError + jobObj \<Rightarrow> nat reconciler" where
  "two_reconciler answer job = (demo_reconciler two_fi demo_time)\<lparr>
     rcGetFI := (\<lambda>_ _ w. (answer w, Suc w)), rcGetJob := (\<lambda>_ _ w. (job, w))\<rparr>"

definition done_job :: jobObj where
  "done_job = demo_job\<lparr>jbSucceeded := 1\<rparr>"

lemma two_facts: "dated two_fi" "dated running_fi" "dated killed_fi" 
  "\<not> skip_plan running_fi (two_plan ''kill'')" "skip_plan killed_fi (two_plan ''kill'')" "\<not> skip_plan killed_fi (two_plan ''kick'')"
  "planned_status kick_plan demo_time (fiStatus killed_fi) = Some (fiStatus planned_fi)"
  "fiSpec running_fi = fiSpec two_fi" "fiSpec killed_fi = fiSpec two_fi"
  "fiName running_fi = ''demo''" "fiNamespace running_fi = ''ns''" "fiName killed_fi = ''demo''" "fiNamespace killed_fi = ''ns''"
  "isJobComplete done_job"
  by code_simp+

definition two_pods :: op where
  "two_pods = OpListPods ''ns'' [(''app'', ''web'')] (Inr [demo_pod ''web-2'', demo_pod ''web-1''])"

definition two_orphans :: op where
  "two_orphans = OpListVS ''ns'' [(''managed-by'', ''fi-operator''), (''chaos.sghaida.io/fi'', ''demo'')] (Inr [])"

lemma two_pieces:
  "run_state (validateSpec (two_reconciler ans job) two_fi) \<lparr>world = w, trace = t\<rparr>
     = (None, \<lparr>world = w, trace = (t @ [two_pods]) @ [two_pods]\<rparr>)"
  "run_state (validateSpec (two_reconciler ans job) killed_fi) \<lparr>world = w, trace = t\<rparr>
     = (None, \<lparr>world = w, trace = (t @ [two_pods]) @ [two_pods]\<rparr>)"
  "run_state (applyDesiredTargets (two_reconciler ans job) two_fi []) \<lparr>world = w, trace = t\<rparr>
     = (Inr False, \<lparr>world = w, trace = t\<rparr>)"
  "run_state (applyDesiredTargets (two_reconciler ans job) killed_fi []) \<lparr>world = w, trace = t\<rparr>
     = (Inr False, \<lparr>world = w, trace = t\<rparr>)"
  "run_state (cleanupOrphanedManagedVS (two_reconciler ans job) two_fi []) \<lparr>world = w, trace = t\<rparr>
     = (None, \<lparr>world = w, trace = t @ [two_orphans]\<rparr>)"
  "run_state (cleanupOrphanedManagedVS (two_reconciler ans job) killed_fi []) \<lparr>world = w, trace = t\<rparr>
     = (None, \<lparr>world = w, trace = t @ [two_orphans]\<rparr>)"
  "run_state (ensureLifecycle (two_reconciler ans job) two_fi) \<lparr>world = w, trace = t\<rparr>
     = ((two_fi, False), \<lparr>world = w, trace = t\<rparr>)"
  "run_state (ensureLifecycle (two_reconciler ans job) killed_fi) \<lparr>world = w, trace = t\<rparr>
     = ((killed_fi, False), \<lparr>world = w, trace = t\<rparr>)"
  "buildDesiredByVSTarget two_fi = Some ([], [])" "buildDesiredByVSTarget killed_fi = Some ([], [])"
  "run_state (time_now (two_reconciler ans job)) \<lparr>world = w, trace = t\<rparr> = (demo_time, \<lparr>world = w, trace = t\<rparr>)"
  "run_state (getFI (two_reconciler ans job) a b) \<lparr>world = w, trace = t\<rparr>
     = (ans w, \<lparr>world = Suc w, trace = t @ [OpGetFI a b (ans w)]\<rparr>)"
  by code_simp+

lemma two_live: "\<not> spCancel (fiSpec two_fi)" "\<not> spCancel (fiSpec killed_fi)"
    "stExpiresAt (fiStatus two_fi) = Some (demo_time + 60 * second)" "stStartedAt (fiStatus two_fi) = Some demo_time"
    "stExpiresAt (fiStatus killed_fi) = Some (demo_time + 60 * second)" "stStartedAt (fiStatus killed_fi) = Some demo_time"
    "stStartedAt (fiStatus running_fi) = Some demo_time"
    "\<not> demo_time + 60 * second < demo_time" "podFaults running_fi \<noteq> []" "podFaults killed_fi \<noteq> []"
    "stPhase (fiStatus killed_fi) = RunningPhase"
  by code_simp+

text \<open>The first run, cut off when it has recorded the outcome.\<close>

definition kill_answer :: "nat \<Rightarrow> apiError + faultInjection" where
  "kill_answer w = (if w < 2 then Inr two_fi else if w < 4 then Inr running_fi else Inl NotFound)"

definition kill_run :: "fi_event list" where
  "kill_run = map (Request 0)
     [OpGetFI ''ns'' ''demo'' (Inr two_fi), two_pods, two_pods, two_orphans, OpGetFI ''ns'' ''demo'' (Inr two_fi),
      OpStatusUpdateFI marked_fi None, OpGetFI ''ns'' ''demo'' (Inr running_fi),
      OpGetJob ''ns'' (pod_name_format ''demo'' ''kill'' ''oneshot'') (Inr done_job),
      OpGetFI ''ns'' ''demo'' (Inr running_fi), OpStatusUpdateFI recorded_fi None]"

lemma kill_pieces:
  "run_state (markRunning (two_reconciler kill_answer job) two_fi) \<lparr>world = Suc 0, trace = t\<rparr>
     = (None, \<lparr>world = 2, trace = (t @ [OpGetFI ''ns'' ''demo'' (Inr two_fi)]) @ [OpStatusUpdateFI marked_fi None]\<rparr>)"
  "run_state (plan_body (two_reconciler kill_answer (Inr done_job)) running_fi demo_time (two_plan ''kill'')) \<lparr>world = 3, trace = t\<rparr>
     = (Inr False, \<lparr>world = 4, trace = (((t @ [OpGetJob ''ns'' (pod_name_format ''demo'' ''kill'' ''oneshot'') (Inr done_job)])
          @ [OpGetFI ''ns'' ''demo'' (Inr running_fi)]) @ [OpStatusUpdateFI recorded_fi None]) @ [OpDeleteJob done_job None]\<rparr>)"
  "run_state (plan_body (two_reconciler kill_answer (Inr done_job)) running_fi demo_time (two_plan ''kick'')) \<lparr>world = 4, trace = t\<rparr>
     = (Inl (False, Some (EApi NotFound)), \<lparr>world = 5, trace =
          (t @ [OpGetJob ''ns'' (pod_name_format ''demo'' ''kick'' ''oneshot'') (Inr done_job)])
          @ [OpGetFI ''ns'' ''demo'' (Inl NotFound)]\<rparr>)"
  "kill_answer 0 = Inr two_fi" "kill_answer 2 = Inr running_fi"
  by code_simp+

lemma kill_run_reconciles:
  "prefix (requests_of 0 kill_run) (ops_of (Reconcile (two_reconciler kill_answer (Inr done_job)) ''ns'' ''demo'') \<lparr>world = 0, trace = []\<rparr>)"
proof -
  let ?r = "two_reconciler kill_answer (Inr done_job)"
  have pods: "run_state (applyPodFaults ?r running_fi demo_time) \<lparr>world = 3, trace = t\<rparr>
    = ((False, None, Some (EApi NotFound)), \<lparr>world = 5, trace = t @
        [OpGetJob ''ns'' (pod_name_format ''demo'' ''kill'' ''oneshot'') (Inr done_job), OpGetFI ''ns'' ''demo'' (Inr running_fi),
         OpStatusUpdateFI recorded_fi None, OpDeleteJob done_job None,
         OpGetJob ''ns'' (pod_name_format ''demo'' ''kick'' ''oneshot'') (Inr done_job), OpGetFI ''ns'' ''demo'' (Inl NotFound)]\<rparr>)" for t
    by (simp add: applyPodFaults_def two_live two_plans [OF two_facts(8,10,11)] kill_pieces)
  have step: "run_state (run_step ?r ''ns'' ''demo'' two_fi demo_time) \<lparr>world = Suc 0, trace = t\<rparr>
    = ((no_requeue, Some (EApi NotFound)), \<lparr>world = 5, trace = t @
        [OpGetFI ''ns'' ''demo'' (Inr two_fi), OpStatusUpdateFI marked_fi None, OpGetFI ''ns'' ''demo'' (Inr running_fi),
         OpGetJob ''ns'' (pod_name_format ''demo'' ''kill'' ''oneshot'') (Inr done_job), OpGetFI ''ns'' ''demo'' (Inr running_fi),
         OpStatusUpdateFI recorded_fi None, OpDeleteJob done_job None,
         OpGetJob ''ns'' (pod_name_format ''demo'' ''kick'' ''oneshot'') (Inr done_job), OpGetFI ''ns'' ''demo'' (Inl NotFound)]\<rparr>)" for t
    by (simp add: run_step_def two_pieces kill_pieces pods)
  have "run_state (Reconcile ?r ''ns'' ''demo'') \<lparr>world = 0, trace = []\<rparr> = ((no_requeue, Some (EApi NotFound)), \<lparr>world = 5, trace =
      requests_of 0 kill_run @ [OpDeleteJob done_job None,
        OpGetJob ''ns'' (pod_name_format ''demo'' ''kick'' ''oneshot'') (Inr done_job), OpGetFI ''ns'' ''demo'' (Inl NotFound)]\<rparr>)"
    by (simp add: Reconcile_def reconcile_loaded_def apply_step_def two_pieces kill_pieces two_live step kill_run_def second_def)
  then show ?thesis by (simp add: ops_of_def)
qed

section \<open>The second run\<close>

text \<open>It creates the Job of the other fault.\<close>

lemma kick_labels: "safeLabelValue ''kick'' = Some ''kick''"
proof -
  have "dns_name ''kick''" by code_simp
  then show ?thesis by (simp add: demo_label)
qed

lemma kick_pieces:
  "run_state (listCandidatePods (two_reconciler ans job) ''ns'' [(''app'', ''web'')]) \<lparr>world = w, trace = t\<rparr>
     = (Inr [demo_pod ''web-1'', demo_pod ''web-2''], \<lparr>world = w, trace = t @ [two_pods]\<rparr>)"
  "run_state (recordPodFaultPlanned (two_reconciler (\<lambda>_. Inr killed_fi) job) killed_fi kick_plan demo_time) \<lparr>world = w, trace = t\<rparr>
     = (None, \<lparr>world = Suc w, trace = (t @ [OpGetFI ''ns'' ''demo'' (Inr killed_fi)]) @ [OpStatusUpdateFI planned_fi None]\<rparr>)"
  "selectPodNamesDeterministically [demo_pod ''web-1'', demo_pod ''web-2''] PodSelectionModeCount (Some 1) None 2 = [''web-1'']"
  by code_simp+

lemma kick_started:
  "\<exists>l j. job_tick j = Some (''kick'', ''oneshot'')
     \<and> run_state (plan_body (two_reconciler (\<lambda>_. Inr killed_fi) (Inl NotFound)) killed_fi demo_time (two_plan ''kick'')) \<lparr>world = w, trace = t\<rparr>
     = (Inr True, \<lparr>world = Suc w, trace = t @ [OpGetJob ''ns'' (pod_name_format ''demo'' ''kick'' ''oneshot'') (Inl NotFound), two_pods,
          OpGetFI ''ns'' ''demo'' (Inr killed_fi), OpStatusUpdateFI planned_fi None,
          OpGetLease ''ns'' (pod_name_format ''demo'' ''kick'' ''oneshot'') (Inl NotFound), OpCreateLease l None,
          OpGetJob ''ns'' (pod_name_format ''demo'' ''kick'' ''oneshot'') (Inl NotFound), OpCreateJob j None]\<rparr>)"
proof -
  let ?r = "two_reconciler (\<lambda>_. Inr killed_fi) (Inl NotFound)"
  have plan: "plNamespace (two_plan ''kick'') = ''ns''" "plSelectorLabels (two_plan ''kick'') = [(''app'', ''web'')]"
    "plRefuseIfPodsLessThan (two_plan ''kick'') = 2" "plSelectionCount (two_plan ''kick'') = Some 1"
    "plSelectionPercent (two_plan ''kick'') = None" "plMaxPodsAffectedEffective (two_plan ''kick'') = 2"
    "plJobName (two_plan ''kick'') = pod_name_format ''demo'' ''kick'' ''oneshot''"
    "plJobName kick_plan = pod_name_format ''demo'' ''kick'' ''oneshot''" "plNamespace kick_plan = ''ns''"
    "plLeaseName kick_plan = pod_name_format ''demo'' ''kick'' ''oneshot''" "plActionName kick_plan = ''kick''"
    "plTickID kick_plan = ''oneshot''" "TrimSpace ''ns'' = ''ns''" "lease_holder ?r = ''holder''" "to_i32 2 = 2"
    by code_simp+
  obtain l where l: "new_lease killed_fi kick_plan ''ns'' ''holder'' demo_time = Some l"
    using kick_labels demo_labels by (simp add: new_lease_def plan)
  obtain j where j: "podfault_job killed_fi kick_plan = Some j"
    using kick_labels demo_labels by (simp add: podfault_job_def plan Let_def)
  have tick: "job_tick j = Some (''kick'', ''oneshot'')"
    using tick_of_job [OF j, of "jbMeta j"] by (simp add: plan_key_def plan)
  have r: "rcScheme ?r" "rcSetControllerReference ?r own m = Inr m" "\<not> rcRecorder ?r"
    "rcGetLease ?r a b w = (Inl NotFound, w)" "rcCreateLease ?r x w = (None, w)" "rcGetJob ?r a b w = (Inl NotFound, w)"
    "rcCreateJob ?r y w = (None, w)" for own m a b w x y
    by (simp_all add: two_reconciler_def demo_reconciler_def)
  have kick: "two_plan ''kick''\<lparr>plPodNames := [''web-1'']\<rparr> = kick_plan" by (simp add: kick_plan_def)
  show ?thesis
    by (rule exI [of _ l], rule exI [of _ j])
      (simp add: tick plan_body_def two_facts select_step_def plan kick_pieces select_from_def kick launch_step_def
        tryAcquireOrTakeoverLease_def create_lease_def start_job_def createPodFaultJobIfNotExists_def l j r
        getJob_def getLease_def createLease_def createJob_def call_def eventf_def Let_def)
qed

definition kick_run :: "leaseObj \<Rightarrow> jobObj \<Rightarrow> fi_event list" where
  "kick_run l j = map (Request 1)
     [OpGetFI ''ns'' ''demo'' (Inr killed_fi), two_pods, two_pods, two_orphans, OpGetFI ''ns'' ''demo'' (Inr killed_fi),
      OpGetJob ''ns'' (pod_name_format ''demo'' ''kick'' ''oneshot'') (Inl NotFound), two_pods,
      OpGetFI ''ns'' ''demo'' (Inr killed_fi), OpStatusUpdateFI planned_fi None,
      OpGetLease ''ns'' (pod_name_format ''demo'' ''kick'' ''oneshot'') (Inl NotFound), OpCreateLease l None,
      OpGetJob ''ns'' (pod_name_format ''demo'' ''kick'' ''oneshot'') (Inl NotFound), OpCreateJob j None]"

lemma kick_run_reconciles:
  "\<exists>l j. job_tick j = Some (''kick'', ''oneshot'')
     \<and> prefix (requests_of 1 (kick_run l j))
         (ops_of (Reconcile (two_reconciler (\<lambda>_. Inr killed_fi) (Inl NotFound)) ''ns'' ''demo'') \<lparr>world = 0, trace = []\<rparr>)"
proof -
  let ?r = "two_reconciler (\<lambda>_. Inr killed_fi) (Inl NotFound)"
  let ?t = "[OpGetFI ''ns'' ''demo'' (Inr killed_fi), two_pods, two_pods, two_orphans, OpGetFI ''ns'' ''demo'' (Inr killed_fi)]"
  obtain l j where j: "job_tick j = Some (''kick'', ''oneshot'')"
      and kick: "run_state (plan_body ?r killed_fi demo_time (two_plan ''kick'')) \<lparr>world = Suc (Suc 0), trace = ?t\<rparr>
        = (Inr True, \<lparr>world = 3, trace = requests_of 1 (kick_run l j)\<rparr>)"
    using kick_started [of "Suc (Suc 0)" ?t] by (auto simp: kick_run_def numeral_3_eq_3)
  have skip: "plan_body ?r killed_fi demo_time (two_plan ''kill'') = State_Monad.return (Inr False)"
    by (simp add: plan_body_def two_facts)
  have marked: "markRunning ?r killed_fi = State_Monad.return None" by (simp add: markRunning_def two_live)
  have until: "run_state (time_until ?r u) \<lparr>world = w, trace = t\<rparr> = (time_sub u demo_time, \<lparr>world = w, trace = t\<rparr>)" for u w t
    by (simp add: time_until_def two_pieces)
  have pods: "run_state (applyPodFaults ?r killed_fi demo_time) \<lparr>world = Suc (Suc 0), trace = ?t\<rparr>
      = ((False, Some (demo_time + 2 * second), None), \<lparr>world = 3, trace = requests_of 1 (kick_run l j)\<rparr>)"
    by (simp add: applyPodFaults_def two_live two_plans [OF two_facts(9,12,13)] skip kick updateEarliestDue_def)
  have "\<exists>x w. run_state (Reconcile ?r ''ns'' ''demo'') \<lparr>world = 0, trace = []\<rparr> = (x, \<lparr>world = w, trace = requests_of 1 (kick_run l j)\<rparr>)"
    by (simp add: Reconcile_def reconcile_loaded_def apply_step_def run_step_def marked two_pieces two_live second_def
        requeue_step_def until) (simp add: pods [unfolded second_def] requeue_step_def two_live until Let_def)
  then have "ops_of (Reconcile ?r ''ns'' ''demo'') \<lparr>world = 0, trace = []\<rparr> = requests_of 1 (kick_run l j)"
    by (auto simp: ops_of_def)
  then show ?thesis using j by auto
qed

section \<open>The history\<close>

text \<open>The server's part of the two runs.\<close>

lemma two_versions: "fi_version two_fi = []" "fi_version marked_fi = []" "fi_version running_fi = ''1''"
    "fi_version recorded_fi = ''1''" "fi_version killed_fi = ''2''" "fi_version planned_fi = ''2''"
    "fiNamespace two_fi = ''ns''" "fiName two_fi = ''demo''" "running_fi \<noteq> two_fi" "killed_fi \<noteq> two_fi" "killed_fi \<noteq> running_fi"
  by code_simp+

abbreviation two_objects :: "faultInjection set" where
  "two_objects \<equiv> {killed_fi, running_fi, two_fi}"

lemma served_cons: "fi_served ns n x [e] y \<Longrightarrow> fi_served ns n y H z \<Longrightarrow> fi_served ns n x (e # H) z"
  using served_append [of ns n y H z x "[e]"] by simp

lemma served_single:
  "fi \<in> objs \<Longrightarrow> fi_served ns n (st, objs) [Request i (OpGetFI ns n (Inr fi))] (st, objs)"
  "\<not> fi_matters op \<Longrightarrow> fi_served ns n (st, objs) [Request i op] (st, objs)"
  "fi_version fi = fi_version cur \<Longrightarrow> v \<notin> fi_version ` objs \<Longrightarrow>
   fi_served ns n (Some cur, objs) [Request i (OpStatusUpdateFI fi None)]
     (Some (with_status v fi cur), insert (with_status v fi cur) objs)"
  using fi_served.got [OF fi_served.start] fi_served.other [OF fi_served.start] fi_served.stored [OF fi_served.start]
  by fastforce+

lemma two_silent: "\<not> fi_matters two_pods" "\<not> fi_matters two_orphans"
  by (simp_all add: two_pods_def two_orphans_def)

lemma kill_run_served:
  "fi_served ''ns'' ''demo'' (None, {}) (Appeared two_fi # kill_run) (Some killed_fi, two_objects)"
proof -
  have "fresh_status (fiStatus two_fi)" unfolding fresh_status_def by code_simp
  then have new: "fi_served ''ns'' ''demo'' (None, {}) [Appeared two_fi] (Some two_fi, {two_fi})"
    using fi_served.appeared [OF fi_served.start, where fi = two_fi and n = "''demo''" and ns = "''ns''"] by (simp add: two_versions)
  have marked: "fi_served ''ns'' ''demo'' (Some two_fi, {two_fi}) [Request 0 (OpStatusUpdateFI marked_fi None)]
      (Some running_fi, {running_fi, two_fi})"
    using served_single(3) [of marked_fi two_fi "''1''" "{two_fi}"] by (simp add: two_versions running_fi_def)
  have recorded: "fi_served ''ns'' ''demo'' (Some running_fi, {running_fi, two_fi}) [Request 0 (OpStatusUpdateFI recorded_fi None)]
      (Some killed_fi, two_objects)"
    using served_single(3) [of recorded_fi running_fi "''2''" "{running_fi, two_fi}"] by (simp add: two_versions killed_fi_def)
  show ?thesis
    unfolding kill_run_def list.map
    by (rule served_cons [OF new], rule served_cons [OF served_single(1)], simp,
      rule served_cons [OF served_single(2)], simp add: two_silent, rule served_cons [OF served_single(2)], simp add: two_silent,
      rule served_cons [OF served_single(2)], simp add: two_silent,
      rule served_cons [OF served_single(1)], simp, rule served_cons [OF marked],
      rule served_cons [OF served_single(1)], simp, rule served_cons [OF served_single(2)], simp,
      rule served_cons [OF served_single(1)], simp, rule recorded)
qed

lemma kick_run_served:
  "fi_served ''ns'' ''demo'' (Some killed_fi, two_objects) (kick_run l j)
     (Some (with_status ''3'' planned_fi killed_fi), insert (with_status ''3'' planned_fi killed_fi) two_objects)"
proof -
  let ?y = "(Some (with_status ''3'' planned_fi killed_fi), insert (with_status ''3'' planned_fi killed_fi) two_objects)"
  have planned: "fi_served ''ns'' ''demo'' (Some killed_fi, two_objects) [Request 1 (OpStatusUpdateFI planned_fi None)] ?y"
    using served_single(3) [of planned_fi killed_fi "''3''" two_objects] by (simp add: two_versions)
  have rest: "fi_served ''ns'' ''demo'' ?y (map (Request 1)
     [OpGetLease ''ns'' (pod_name_format ''demo'' ''kick'' ''oneshot'') (Inl NotFound), OpCreateLease l None,
      OpGetJob ''ns'' (pod_name_format ''demo'' ''kick'' ''oneshot'') (Inl NotFound), OpCreateJob j None]) ?y"
    unfolding list.map
    by (rule served_cons [OF served_single(2)], simp, rule served_cons [OF served_single(2)], simp,
      rule served_cons [OF served_single(2)], simp, rule served_single(2), simp)
  show ?thesis
    unfolding kick_run_def list.map
    by (rule served_cons [OF served_single(1)], simp,
      rule served_cons [OF served_single(2)], simp add: two_silent, rule served_cons [OF served_single(2)], simp add: two_silent,
      rule served_cons [OF served_single(2)], simp add: two_silent, rule served_cons [OF served_single(1)], simp,
      rule served_cons [OF served_single(2)], simp, rule served_cons [OF served_single(2)], simp add: two_silent,
      rule served_cons [OF served_single(1)], simp, rule served_cons [OF planned], rule rest [unfolded list.map])
qed

text \<open>Both runs, each by an operator of its own.\<close>

definition two_reconcilers :: "nat \<Rightarrow> nat reconciler" where
  "two_reconcilers i =
     (if i = 0 then two_reconciler kill_answer (Inr done_job) else two_reconciler (\<lambda>_. Inr killed_fi) (Inl NotFound))"

lemma kick_history:
  "\<exists>l j. job_tick j = Some (''kick'', ''oneshot'')
     \<and> reconciles_run two_reconcilers ''ns'' ''demo'' ((Appeared two_fi # kill_run) @ kick_run l j)"
proof -
  obtain l j where j: "job_tick j = Some (''kick'', ''oneshot'')"
      and kick: "prefix (requests_of 1 (kick_run l j))
         (ops_of (Reconcile (two_reconciler (\<lambda>_. Inr killed_fi) (Inl NotFound)) ''ns'' ''demo'') \<lparr>world = 0, trace = []\<rparr>)"
    using kick_run_reconciles by blast
  have other: "requests_of i kill_run = []" if "i \<noteq> 0" for i using that by (simp add: kill_run_def)
  have other': "requests_of i (kick_run l j) = []" if "i \<noteq> 1" for i using that by (simp add: kick_run_def)
  have "prefix (requests_of i ((Appeared two_fi # kill_run) @ kick_run l j))
      (ops_of (Reconcile (two_reconcilers i) ''ns'' ''demo'') \<lparr>world = 0, trace = []\<rparr>)" for i
  proof (cases "i = 0")
    case True
    then show ?thesis using kill_run_reconciles other' [of 0] by (simp add: two_reconcilers_def)
  next
    case False
    then show ?thesis using kick other [of i] other' [of i] by (cases "i = 1") (simp_all add: two_reconcilers_def)
  qed
  then show ?thesis using j unfolding reconciles_run_def by blast
qed

lemma kick_current: "reads_current 1 killed_fi two_objects (Appeared two_fi # kill_run) (kick_run l j)"
  by (auto simp: reads_current_def kill_run_def kick_run_def two_pods_def two_orphans_def)

lemma kill_recorded: "outcome_recorded killed_fi (''kill'', ''oneshot'')" "\<not> outcome_recorded killed_fi (''kick'', ''oneshot'')"
  unfolding outcome_recorded_def terminal_tick_def by code_simp+

end
