(* ===== verification/Spec2Isabelle.thy ===== *)
theory Spec2Isabelle
  imports TwoFaults
begin

text \<open>
  A model of fi-operator, the Kubernetes operator of this repository that runs chaos experiments in an
  Istio service mesh, and the theorems that make it correct.

  \<^bold>\<open>The program.\<close> A user creates a FaultInjection object
  (\<open>src/api/v1alpha1\<close>): a blast radius, mesh faults (HTTP delays and aborts, INBOUND into a
  VirtualService that exists, OUTBOUND through one the operator creates), pod faults (deletions of pods,
  once or in windows), a cancel switch. The manager (\<open>src/cmd/main.go\<close>) runs the reconciler
  (\<open>src/internal/controller\<close>). Each reconcile reads the object, dates its lifecycle, and
  then ends it (cancellation, expiry, rejected spec) or applies it: it patches the injected rules into
  the http lists of the VirtualServices, removes orphans, marks the object Running, and for each due
  tick of a pod fault wins a Lease, selects pods and creates a Job that deletes them, recording plan and
  outcome in the status. The parts interact through the API server only: the status is written with
  retries on a conflict, and a Lease decides between two reconcilers.

  \<^bold>\<open>Theories and code.\<close>
  \<^item> \<open>Prelude\<close>: int32 and int64 with wrap-around, Go maps, list lemmas.
    \<open>GoString\<close>: Go strings as bytes, with the UTF-8 decoding that
    \<open>strings.TrimSpace\<close> and \<open>strings.ToLower\<close> use. \<open>Json\<close>: the
    values of unstructured objects.
  \<^item> \<open>ApiTypes\<close>: the records of \<open>src/api/v1alpha1\<close> and the fields of
    Kubernetes objects that the code uses. \<open>Admission\<close>: the validation markers and
    XValidation rules of these types.
  \<^item> \<open>Names\<close>: \<open>helpers.go\<close>, and the names of
    \<open>mesh_fault.go\<close> and \<open>pod_fault.go\<close>.
  \<^item> \<open>Effects\<close>: the reconciler (its client, clock and helpers as fields), requests
    with their answers as a trace, and the calculus \<open>runs\<close> for statements about what a
    computation returns and requests.
  \<^item> \<open>Mesh\<close> and \<open>MeshOps\<close>: \<open>mesh_fault.go\<close> and
    \<open>applyDesiredTargets\<close>, pure and effectful part.
  \<^item> \<open>PodPlan\<close> and \<open>PodOps\<close>: \<open>pod_fault.go\<close>,
    \<open>countPods\<close>, \<open>setFIStatusPhaseMessage\<close>, pure and effectful part.
    \<open>Validate\<close>: \<open>validateSpec\<close> and \<open>validatePodFaults\<close>.
  \<^item> \<open>Controller\<close>: the rest of \<open>faultinjection_controller.go\<close>:
    \<open>Reconcile\<close>, \<open>ensureLifecycle\<close>, the ends, \<open>markRunning\<close>, the
    cleanup. The Go function is cut where its control flow returns early; the pieces are named after
    what they start with (\<open>reconcile_loaded\<close>, \<open>apply_step\<close>,
    \<open>run_step\<close>).
  \<^item> \<open>Manager\<close>: \<open>main.go\<close>. \<open>Scheme\<close>: the kinds
    that are registered for the client. \<open>Rbac\<close>: the markers of
    \<open>rbac.go\<close>. \<open>Watch\<close>: the watches that \<open>SetupWithManager\<close>
    registers, and the owner references that make them work.
  \<^item> \<open>GoHeap\<close>: Go values with references on an explicit heap, and the statements
    generated copies consist of. \<open>DeepCopy\<close>: \<open>zz_generated.deepcopy.go\<close>, type
    by type.
  \<^item> \<open>Status\<close>: the status as a state machine. \<open>Laws\<close> and
    \<open>Outcomes\<close>: what a whole reconcile may request and what a step that succeeds has
    achieved. \<open>Server\<close>: what an end leaves in the cluster. \<open>Settle\<close>: a second
    pass over a target. \<open>Live\<close> and \<open>Running\<close>: what an application, and a whole
    reconcile that asks to come back, leave in the cluster. \<open>Cluster\<close>: a VirtualService
    from the start of an experiment to its end, through any history, and \<open>Sharing\<close>: several
    experiments on it. \<open>Shapes\<close>: the types of what is written. \<open>Lease\<close>: interleaved
    runs on one lease. \<open>Stored\<close>: interleaved runs on one FaultInjection.
    \<open>Progress\<close>: what becomes of every plan, and \<open>Returns\<close>: when a whole reconcile
    comes back for it. \<open>Demo\<close> and \<open>TwoFaults\<close>: the inputs and histories on
    which hypotheses are shown to hold.

  \<^bold>\<open>What is shown.\<close> The first properties are about every run of
  \<open>Reconcile\<close>: each write has its reason in what was read before, objects that inject
  faults are created only after a valid spec that is not cancelled was read (the pod faults are those of
  the object as it is read again), what is written has its type, with the traffic within its bound, and
  on a server that behaves as documented an experiment that ends without an error leaves no injected rule
  in its targets but in objects of the operator that are being deleted or whose deletion the server
  refused, an error the code does not return; several experiments that share a VirtualService of somebody else keep the rules
  of its owner, edits included, and give them back at the end, and an experiment that is applied has the
  desired rules in every target. The generated copies are faithful and share nothing with the original,
  and Jobs wake their experiment. Then come the contracts of the steps: jobs within the caps, the
  guardrails as an equivalence with a declarative specification, what becomes of every plan and when the
  reconcile comes back for it, the stored status and its invariants under interleaving, with the start
  and the expiry of the experiment, the lease protocol and its exclusion, cleanup and application of the
  mesh faults, errors that persist, ticks that do not run twice. Two properties compare the schema with
  the operator's own checks. The rest is about requeueing, permissions, plans, ticks, caps and
  selection, patching, the desired state, names and keys with their bounds (where an int64 product
  wraps, where a slice panics, which names overlap), and about the start of the manager and its flags.

  \<^bold>\<open>Interfaces.\<close> \<open>trace_property\<close> (a property of traces that survives
  composition), \<open>rule_lens\<close> and \<open>owned_rules\<close> (a list of rules inside an
  object of which one owner replaces its own), \<open>dns_normaliser\<close>,
  \<open>bounded_label\<close>, \<open>faithful_label\<close> and \<open>pair_codec\<close> (names),
  \<open>keyed_table\<close> (the table of ticks), \<open>status_invariant\<close> and
  \<open>status_order\<close> (the status machine), \<open>deep_copier\<close> (a copy and its type),
  \<open>foreign_property\<close> (what a VirtualService keeps through every step) are locales; each is
  interpreted on the definitions of the code in the theory that has them.

  \<^bold>\<open>Parameters and bounds.\<close> Code that is not in the repository is an argument: the
  API server and its client, the clock, the order in which Go ranges over a map,
  \<open>SetControllerReference\<close>, the flags of zap. Nothing is assumed of them, except where the
  state of the cluster matters: for what an end or an application leaves, whose hypotheses
  \<open>vs_server\<close>, \<open>vs_deletes\<close>, \<open>vs_creates\<close> and
  \<open>vs_store\<close> state what the API server documents about reads, writes, deletions and lists
  of VirtualServices; for interleaved runs, where
  \<open>served\<close> does so for a lease and \<open>fi_served\<close> for a FaultInjection; for
  watches and owner references (\<open>watch_law\<close>, \<open>owner_law\<close>); and for the copies
  of metav1 (\<open>lib_ok\<close>). \<open>retry.RetryOnConflict\<close> is modelled by its documented
  behaviour with the number of retries as a field; only the number of rounds of a status update
  depends on it. All loops are over lists and end; \<open>base36_loop\<close> ends because the
  quotient decreases. A nil dereference or a slice out of range is \<open>None\<close> in a pure
  function and the error \<open>EPanic\<close> in an effectful one, which ends the run. int32 and int64
  arithmetic that can leave its range is wrapped; the bounds below which it does not are hypotheses for
  ticks (an experiment of less than 2^62 nanoseconds) and selection (fewer than 2^31 candidates), and
  cases of the expiry. Times are nanoseconds and are stored as they are written; that the JSON text of
  a metav1.Time has whole seconds, and that of a metav1.MicroTime (the times of a lease) whole
  microseconds, is left out, so that what is said of stored times holds up to that rounding. Readings of the clock are arbitrary, but for the
  delay until the next reconcile, where \<open>clock_forward\<close> says that it does not go back.

  \<^bold>\<open>Not modelled.\<close> Log lines and the note of an event (its type, reason and action
  are kept). The reconciler works on values: that the objects it edits
  are its own copies is what the theorems on \<open>DeepCopy\<close> show for the FaultInjection, and
  what the client documents for the rest. Evaluation of stop conditions: the repository has the types,
  no code reads them. Tests, scripts and manifests.
\<close>

text \<open>C1: Whatever the API server answers, in every run of Reconcile each status update carries the
  metadata and the spec of a FaultInjection read before it and a status one step of the status machine
  after the one read, which moves to Running, Cancelled or Completed only for the reason of that
  phase, and changes its dates only to a start, that of an object read before if it has one, and the
  expiry that follows from it; each update of a VirtualService is made from one
  read before it and either puts the rules of a valid, uncancelled spec in front of the rules of
  others or takes the injected rules out, and each deletion is of an object of this FaultInjection: a
  VirtualService with the operator's labels, a labelled Job, Lease or finished executor Pod, a Job
  observed finished, a Deployment it owns.\<close>

theorem reconcile_writes: "after write_law [] (ops_of (Reconcile r ns n) s)"
  by (rule after_weaken [OF runs_ops_of [OF runs_law_Reconcile]]) (simp add: law_def)

text \<open>C2: Reconcile creates a VirtualService, a Lease or a Job, or takes over a Lease, only when it has
  read a FaultInjection that is not cancelled and meets the specification of validateSpec. Each Job is
  the job of a plan of the object as it was read again, under the same name, after such a FaultInjection
  in this run: a tick of it that is not finished, whose candidates were listed and are enough, and whose
  lease was won before. What was read again may have been edited in between, even cancelled.\<close>

theorem reconcile_injects: "after (inject_law r) [] (ops_of (Reconcile r ns n) s)"
  by (rule after_weaken [OF runs_ops_of [OF runs_law_Reconcile]]) (simp add: law_def)

text \<open>C3: The untyped objects that Reconcile writes have a type, whatever the server answers. In every
  VirtualService it updates, each rule under the name prefix of the FaultInjection has a name, matches
  with one URI matcher each, a route, and one fault, a delay of a positive number of seconds or an abort
  with a status of at least 100, for at most maxTrafficPercent of the traffic, and no other field than a
  timeout; and the spec of every VirtualService it creates has hosts, gateways and one routed rule.\<close>

theorem reconcile_writes_shaped: "after shaped [] (ops_of (Reconcile r ns n) s)"
  by (rule runs_ops_of [OF runs_shaped])

text \<open>C4: Let the server answer reads of VirtualServices with what it stores and store what an update
  puts, and let an object whose deletion it accepted be gone or marked as being deleted. When the
  FaultInjection read has its lifecycle dates and is cancelled, or past its expiry, and not ended yet, a
  Reconcile that returns no error leaves each VirtualService the spec targets absent or without an
  injected rule, unless it is the operator's own and either being deleted, or its deletion was requested
  in this run and refused with an error; the rest of the answers may be anything.\<close>

theorem reconcile_end_cleans:
  assumes "vs_server r look" "vs_deletes r look" "fst (rcGetFI r ns n (world s)) = Inr fi" "dated fi"
    and "has_to_end (fst (rcNow r (snd (rcGetFI r ns n (world s))))) fi"
  shows "case snd (result_of (Reconcile r ns n) s) of
      None \<Rightarrow> list_all (target_ended look fi (ops_of (Reconcile r ns n) s) (world (snd (run_state (Reconcile r ns n) s))))
        (spec_targets fi)
    | Some _ \<Rightarrow> True"
  using reconcile_ends_targets [OF assms] by (simp split: option.split)

theorem reconcile_end_cleans_witness:
  "\<not> list_all (target_ended store_look demo_fi [] (world demo_store)) (spec_targets demo_fi)
   \<and> (let r = store_reconciler demo_fi (demo_time + 90 * second) in
        list_all (target_ended store_look demo_fi (ops_of (Reconcile r ''ns'' ''demo'') demo_store)
          (world (snd (run_state (Reconcile r ''ns'' ''demo'') demo_store)))) (spec_targets demo_fi))"
proof -
  let ?r = "store_reconciler demo_fi (demo_time + 90 * second)"
  have read: "fst (rcGetFI ?r ''ns'' ''demo'' (world demo_store)) = Inr demo_fi"
    by (simp add: store_reconciler_def demo_reconciler_def)
  have dated: "dated demo_fi" by code_simp
  have "fst (rcNow ?r (snd (rcGetFI ?r ''ns'' ''demo'' (world demo_store)))) = demo_time + 90 * second"
    by (simp add: store_reconciler_def demo_reconciler_def)
  moreover have "has_to_end (demo_time + 90 * second) demo_fi" by code_simp
  ultimately have ends: "has_to_end (fst (rcNow ?r (snd (rcGetFI ?r ''ns'' ''demo'' (world demo_store))))) demo_fi"
    by simp
  have "snd (result_of (Reconcile ?r ''ns'' ''demo'') demo_store) = None" by code_simp
  moreover have "\<not> list_all (target_ended store_look demo_fi [] (world demo_store)) (spec_targets demo_fi)"
    unfolding target_ended_def being_deleted_def delete_refused_def by code_simp
  ultimately show ?thesis using reconcile_end_cleans [OF store_server store_deletes read dated ends] by (simp add: Let_def)
qed

text \<open>C5: Let the server behave as documented, and let a VirtualService be stored that has rules, none of them
  injected, and is not the operator's own. Take any history of reconciles of any number of
  FaultInjections of one namespace, in any order, whatever their specs are at each moment and whichever
  requests fail, of edits by which the owner of the object changes all but the injected rules between
  the reconciles, as long as some rule is left and the object is not labelled as the operator's, and of
  steps of others elsewhere. A FaultInjection is under way from its first reconcile to one that returns
  no error and reads it dated, cancelled or expired, and with this object as a target. Then the object
  is stored, the rules that are not of a FaultInjection under way are the owner's rules in the owner's
  order, and labels and all fields but the rules and the gateways are the owner's. So once all have
  ended, the rules are the owner's.\<close>

theorem experiments_share_target:
  assumes "\<forall>n \<in> N. vs_store r look ns n" and "experiments r look ns key N w w1 A own"
  shows "\<exists>vs. look w1 (splitKey key) = Some vs \<and> rules_besides A vs = http_of own
    \<and> oLabels (vsMeta vs) = oLabels (vsMeta own)
    \<and> list_all (\<lambda>f. mget f (spec_of vs) = mget f (spec_of own)) (filter (\<lambda>f. f \<notin> {''http'', ''gateways''}) fs)"
proof -
  obtain vs where "look w1 (splitKey key) = Some vs" "shared own N A vs" "A \<subseteq> N"
    using experiments_share [OF assms(2,1)] by (auto simp: slot_holds_def split: option.splits)
  then show ?thesis using shared_rest [of own N A vs] by (auto simp: shared_def list_all_iff)
qed

theorem experiments_share_target_witness:
  "\<exists>w1 w2 own vs. experiments stage_reconciler stage_look ''ns'' (joinKey ''ns'' ''web'') {''demo'', ''other''}
       (demo_fi, demo_time, [demo_vs]) w1 {''demo''} demo_vs
     \<and> experiments stage_reconciler stage_look ''ns'' (joinKey ''ns'' ''web'') {''demo'', ''other''}
       (demo_fi, demo_time, [demo_vs]) w2 {} own
     \<and> stage_look w2 (''ns'', ''web'') = Some vs \<and> http_of vs = http_of demo_vs @ [demo_route]"
proof -
  let ?k = "joinKey ''ns'' ''web''" and ?w = "(demo_fi, demo_time, [demo_vs])" and ?N = "{''demo'', ''other''}"
  let ?start = "\<lparr>world = ?w, trace = [] :: op list\<rparr>"
  let ?w1 = "world (snd (run_state (Reconcile stage_reconciler ''ns'' ''demo'') ?start))"
  have facts: "splitKey ?k = (''ns'', ''web'')" "stage_look ?w (splitKey ?k) = Some demo_vs" "dated demo_fi"
    "has_to_end (demo_time + 90 * second) demo_fi" "?k \<in> set (spec_targets demo_fi)" "\<not> has_to_end demo_time demo_fi"
    "fiName demo_fi = ''demo''" "fiNamespace demo_fi = ''ns''"
    by code_simp+
  have fresh: "untouched ?N demo_vs" "\<not> rule_among ?N demo_route"
    unfolding untouched_def rule_among_def rule_of_def labelled_for_def by code_simp+
  have read: "rcGetFI stage_reconciler ''ns'' ''demo'' (demo_fi, t, l) = (Inr demo_fi, demo_fi, t, l)"
    "fst (rcNow stage_reconciler (demo_fi, t, l)) = t" for t l
    using facts(7,8) by (simp_all add: stage_reconciler_def)
  have h0: "experiments stage_reconciler stage_look ''ns'' ?k ?N ?w ?w {} demo_vs"
    using facts(2) fresh(1) by (rule experiments.start)
  have "\<not> ended stage_reconciler ''ns'' ''demo'' ?k ?start"
    using facts(6) by (simp add: ended_def read)
  then have h1: "experiments stage_reconciler stage_look ''ns'' ?k ?N ?w ?w1 {''demo''} demo_vs"
    using experiments.reconciled [OF h0, of "''demo''" ?start] by simp
  obtain vs where vs: "stage_look ?w1 (splitKey ?k) = Some vs" "shared demo_vs ?N {''demo''} vs"
    using experiments_share [OF h1] stage_store by (auto simp: slot_holds_def split: option.splits)
  let ?vs = "set_http vs (http_of vs @ [demo_route])"
  let ?s = "\<lparr>world = (demo_fi, demo_time + 90 * second, [?vs]), trace = [] :: op list\<rparr>"
  have own: "http_of (owner_part ?N ?vs) = http_of demo_vs @ [demo_route]"
    using vs(2) fresh(2) by (simp add: owner_part_def rules_besides_def shared_def)
  have labels: "oLabels (vsMeta (owner_part ?N ?vs)) = oLabels (vsMeta demo_vs)"
    using vs(2) by (simp add: owner_part_def shared_def)
  have untouched: "untouched ?N (owner_part ?N ?vs)"
    using fresh unfolding untouched_def own labelled_for_def labels by simp
  have stored: "stage_look (world ?s) (splitKey ?k) = Some ?vs"
  proof -
    have "vs_key vs = (''ns'', ''web'')" using vs(1) by (simp add: stage_look_def facts(1) look_sound)
    then have "vs_key ?vs = (''ns'', ''web'')" by (simp add: vs_key_def)
    then show ?thesis unfolding facts(1) stage_look_def store_look_def by simp
  qed
  have kept: "filter (rule_among ?N) (http_of ?vs) = filter (rule_among ?N) (http_of vs)" using fresh(2) by simp
  have h2: "experiments stage_reconciler stage_look ''ns'' ?k ?N ?w (world ?s) {''demo''} (owner_part ?N ?vs)"
    using h1 vs(1) stored kept untouched by (rule experiments.edited)
  have "expired (world ?s)" by (simp add: expired_def)
  then have none: "snd (result_of (Reconcile stage_reconciler ''ns'' ''demo'') ?s) = None"
    by (rule tripleD [OF stage_ends])
  have "has_to_end (fst (rcNow stage_reconciler (world ?s))) demo_fi"
    and got: "rcGetFI stage_reconciler ''ns'' ''demo'' (world ?s) = (Inr demo_fi, world ?s)"
    using facts(4) by (simp_all add: read)
  then have over: "ended stage_reconciler ''ns'' ''demo'' ?k ?s"
    unfolding ended_def got fst_conv snd_conv sum.case using facts(3,5) none by blast
  let ?w2 = "world (snd (run_state (Reconcile stage_reconciler ''ns'' ''demo'') ?s))"
  have h3: "experiments stage_reconciler stage_look ''ns'' ?k ?N ?w ?w2 {} (owner_part ?N ?vs)"
    using experiments.reconciled [OF h2 _ refl, of "''demo''"] over by simp
  have "\<exists>vs. stage_look ?w2 (splitKey ?k) = Some vs \<and> rules_besides {} vs = http_of (owner_part ?N ?vs)"
    using experiments_share_target [OF _ h3, of "[]"] stage_store by blast
  then have "\<exists>vs. stage_look ?w2 (''ns'', ''web'') = Some vs \<and> http_of vs = http_of demo_vs @ [demo_route]"
    unfolding own by (simp add: facts(1) rules_besides_def rule_among_def)
  then show ?thesis using h1 h3 by blast
qed

text \<open>C6: Let the server behave as documented for VirtualServices, the FaultInjection read be dated, and the
  VirtualServices its INBOUND actions refer to be stored and not the operator's own. When Reconcile
  returns no error and asks to come back, the desired state was computed and every target holds it at
  the end of the run: the rules read like the desired ones with a route, followed by rules of others.\<close>

theorem requeued_means_live:
  assumes "vs_store r look ns n" "fst (rcGetFI r ns n (world s)) = Inr fi" "dated fi"
    and "inbound_foreign look fi (world s)" "comes_back (result_of (Reconcile r ns n) s)"
  shows "\<exists>m mg. buildDesiredByVSTarget fi = Some (m, mg)
    \<and> faults_live look fi m (world (snd (run_state (Reconcile r ns n) s)))"
  by (rule back_is_live [OF assms])

theorem requeued_means_live_witness:
  "\<exists>m mg. buildDesiredByVSTarget mesh_fi = Some (m, mg) \<and> faults_live store_look mesh_fi m
     (world (snd (run_state (Reconcile (store_reconciler mesh_fi demo_time) ''ns'' ''demo'') demo_before)))"
proof (rule requeued_means_live)
  show "vs_store (store_reconciler mesh_fi demo_time) store_look ''ns'' ''demo''"
    by (rule store_vs_store [OF mesh_fi_facts(3,4)])
  show "fst (rcGetFI (store_reconciler mesh_fi demo_time) ''ns'' ''demo'' (world demo_before)) = Inr mesh_fi"
    by (simp add: store_reconciler_def demo_reconciler_def)
  show "dated mesh_fi" by (rule mesh_fi_facts(5))
  show "inbound_foreign store_look mesh_fi (world demo_before)" by code_simp
  show "comes_back (result_of (Reconcile (store_reconciler mesh_fi demo_time) ''ns'' ''demo'') demo_before)"
    using tripleD [OF mesh_comes_back, of demo_before] by (simp add: demo_before_def)
qed

text \<open>C7: Each Job that applyPodFaults creates deletes by name pods listed before it for the selector
  and namespace of one of the actions, none of them terminating, the first ones by name, at least
  one, no more than the least of the caps that are set, and only when there are at least
  refuseIfPodsLessThan candidates; it does so with the termination mode and grace period of the action.\<close>

theorem pod_fault_jobs_bounded: "preceded (job_bounded fi) (ops_of (applyPodFaults r fi now) s)"
  by (rule applyPodFaults_bounded)

text \<open>C8: Let the clock not go back between two readings. When a Reconcile returns no error and asks to come
  back, its requests end with those of applyPodFaults for a FaultInjection read right before, and every plan
  of it at the time the reconcile started is settled by these requests (executed with its outcome recorded,
  without pods, or its lease is not stale or just taken, maybe by this operator itself) or awaited (its Job is
  there and has not ended). The delay, counted from the reading of the clock in the state that applyPodFaults
  ends in, ends by the expiry, by the next due time of the ticks and, for an awaited plan, by two seconds after
  the time this reconcile started with, or after one second where that time has passed.\<close>

theorem reconcile_pods_progress:
  assumes "clock_forward r" "comes_back (result_of (Reconcile r ns n) s)"
  shows "\<exists>fi before s1. pods_turn r ns n (started_at r ns n s) s (run_state (Reconcile r ns n) s) fi before s1
    \<and> ops_of (Reconcile r ns n) s
        = before @ OpGetFI ns n (Inr fi) # ops_of (applyPodFaults r fi (started_at r ns n s)) s1
    \<and> told_back r fi (started_at r ns n s)
        (fst (rcNow r (world (snd (run_state (applyPodFaults r fi (started_at r ns n s)) s1)))))
        (crRequeueAfter (fst (result_of (Reconcile r ns n) s))) (ops_of (applyPodFaults r fi (started_at r ns n s)) s1)"
  by (rule reconcile_back_told [OF assms])

theorem reconcile_pods_progress_witness:
  "crRequeueAfter (fst (result_of (Reconcile waiting_reconciler ''ns'' ''demo'') demo_sys)) = 2 * second
   \<and> (\<exists>fi before s1. ops_of (Reconcile waiting_reconciler ''ns'' ''demo'') demo_sys
          = before @ OpGetFI ''ns'' ''demo'' (Inr fi) # ops_of (applyPodFaults waiting_reconciler fi demo_time) s1
        \<and> told_back waiting_reconciler fi demo_time demo_time (2 * second) (ops_of (applyPodFaults waiting_reconciler fi demo_time) s1))"
proof -
  have res: "result_of (Reconcile waiting_reconciler ''ns'' ''demo'') demo_sys = (\<lparr>crRequeue = False, crRequeueAfter = 2 * second\<rparr>, None)"
    using tripleD [OF waiting_comes_back, of demo_sys] by simp
  have "clock_forward waiting_reconciler" by (simp add: clock_forward_def waiting_reconciler_def demo_reconciler_def)
  moreover have "comes_back (result_of (Reconcile waiting_reconciler ''ns'' ''demo'') demo_sys)"
    by (simp add: res comes_back_def second_def)
  moreover have clock: "fst (rcNow waiting_reconciler w) = demo_time" for w
    by (simp add: waiting_reconciler_def demo_reconciler_def)
  ultimately show ?thesis
    using reconcile_pods_progress [of waiting_reconciler "''ns''" "''demo''" demo_sys] by (auto simp: res started_at_def clock)
qed

text \<open>C9: validateSpec accepts a spec exactly when it meets the declarative specification spec_ok and
  the server answered, in order, each pod count the spec asks for with a number within its bound.\<close>

theorem validateSpec_iff:
  "(result_of (validateSpec r fi) s = None) = (spec_ok fi \<and> counts_met fi (ops_of (validateSpec r fi) s))"
  by (rule runs_ops_of [OF runs_validateSpec])

text \<open>C10: Let any number of runs of Reconcile, of operators of their own, make their requests on one
  FaultInjection, interleaved in any way and possibly cut off, while its user edits it, on a server that
  accepts a status update only with the version of the stored object and may answer reads with any object
  stored before. From any moment to any later one before a deletion, the stored status moves by edits of
  the operator; it has one entry per action and tick, a phase the operator writes, Cancelled and Completed
  with their reason; the time of a cancellation and the reason of a stop are kept; and a tick that was
  executed or has an outcome keeps its entry, finished, which differs from what it was only by outcomes
  that recordPodFaultExecuted has written over it since.\<close>

theorem stored_status_history:
  assumes "fi_served ns n (None, {}) H (Some fi, objs)" "fi_served ns n (Some fi, objs) H' y"
    and "reconciles_run r ns n (H @ H')" "Gone \<notin> set H'"
  shows "case fst y of
      None \<Rightarrow> False
    | Some fi' \<Rightarrow> status_step\<^sup>*\<^sup>* (fiStatus fi) (fiStatus fi') \<and> ticks_distinct (stPodFaults (fiStatus fi'))
        \<and> phase_ok (fiStatus fi') \<and> finished_kept (fiStatus fi) (fiStatus fi') \<and> stop_kept (fiStatus fi) (fiStatus fi')"
proof -
  obtain fi' where fi': "fst y = Some fi'" "reachable (fiStatus fi')" "status_step\<^sup>*\<^sup>* (fiStatus fi) (fiStatus fi')"
    using stored_history [OF assms] by blast
  then show ?thesis
    by (simp add: distinct_ticks.holds phases.holds outcomes.history stops.history)
qed

theorem stored_status_history_witness:
  "outcome_recorded killed_fi (''kill'', ''oneshot'') \<and> fiStatus planned_fi \<noteq> fiStatus killed_fi
   \<and> status_step\<^sup>*\<^sup>* (fiStatus killed_fi) (fiStatus planned_fi)
   \<and> finished_kept (fiStatus killed_fi) (fiStatus planned_fi) \<and> ticks_distinct (stPodFaults (fiStatus planned_fi))"
proof -
  obtain l j where r: "reconciles_run two_reconcilers ''ns'' ''demo'' ((Appeared two_fi # kill_run) @ kick_run l j)"
    using kick_history by blast
  have "Gone \<notin> set (kick_run l j)" by (auto simp: kick_run_def)
  moreover have "fiStatus planned_fi \<noteq> fiStatus killed_fi" by code_simp
  ultimately show ?thesis
    using stored_status_history [OF kill_run_served kick_run_served r] kill_recorded(1) by simp
qed

text \<open>C11: In the same histories, take the object stored at some moment, with a start, and let every run that goes
  on afterwards start later and read no older object. Whatever the user edits, at every later moment before
  a deletion the stored start is the same, and the expiry is the one stored at that moment, or the start
  plus the duration in the spec of the object stored at that moment or of one stored after it.\<close>

theorem experiment_start_fixed:
  assumes "fi_served ns n (None, {}) H (Some fi, objs)" "fi_served ns n (Some fi, objs) H' y"
    and "reconciles_run r ns n (H @ H')" "Gone \<notin> set H'" "all_current fi objs H H'"
    and "stStartedAt (fiStatus fi) = Some t"
  shows "case fst y of
      None \<Rightarrow> False
    | Some f \<Rightarrow> stStartedAt (fiStatus f) = Some t
        \<and> (stExpiresAt (fiStatus f) = stExpiresAt (fiStatus fi)
           \<or> (\<exists>g \<in> insert fi (snd y - objs). stExpiresAt (fiStatus f) = Some (expiry_of g t)))"
  using start_kept [OF assms] by (auto simp: keeps_start_def since_def)

theorem experiment_start_fixed_witness:
  "reconciles_run (turns (\<lambda>w. if w < 2 then Inr longer_fi else Inl NotFound) (demo_time + 10 * second)) ''ns'' ''demo''
     (([Appeared new_fi] @ first_run) @ second_run)
   \<and> stStartedAt (fiStatus refreshed_fi) = Some demo_time \<and> stExpiresAt (fiStatus refreshed_fi) \<noteq> stExpiresAt (fiStatus stored_fi)"
proof -
  have "Gone \<notin> set second_run" by (simp add: second_run_def)
  moreover have "all_current stored_fi {stored_fi, new_fi} ([Appeared new_fi] @ first_run) second_run"
    unfolding all_current_def reads_current_def
    using turn_versions(2,3,12) by (auto simp: second_run_def first_run_def)
  ultimately have "stStartedAt (fiStatus refreshed_fi) = Some demo_time"
    using experiment_start_fixed [OF first_turn_served second_run_served second_run_reconciles _ _ turn_versions(9)] by simp
  moreover have "stExpiresAt (fiStatus refreshed_fi) \<noteq> stExpiresAt (fiStatus stored_fi)" by code_simp
  ultimately show ?thesis using second_run_reconciles by blast
qed

text \<open>C12: In the same histories, take the object stored at some moment and a run that starts later and does not
  read an older object. Every Job the run creates names an action and a tick in its environment, and
  the tick had no outcome, Succeeded or Failed, in the object of that moment.\<close>

theorem recorded_outcome_final:
  assumes "fi_served ns n (None, {}) H (Some fi, objs)" "fi_served ns n (Some fi, objs) H' y"
    and "reconciles_run r ns n (H @ H')" "Gone \<notin> set H'" "reads_current i fi objs H H'"
  shows "list_all (\<lambda>x. case x of OpCreateJob j e \<Rightarrow> open_in fi j | _ \<Rightarrow> True) (requests_of i H')"
  using recorded_final [OF assms] by (auto simp: list_all_iff split: op.split)

theorem recorded_outcome_final_witness:
  "\<exists>H'. reconciles_run two_reconcilers ''ns'' ''demo'' ((Appeared two_fi # kill_run) @ H')
     \<and> outcome_recorded killed_fi (''kill'', ''oneshot'') \<and> \<not> outcome_recorded killed_fi (''kick'', ''oneshot'')
     \<and> list_ex (\<lambda>x. case x of
           OpCreateJob j e \<Rightarrow> job_tick j = Some (''kick'', ''oneshot'') \<and> open_in killed_fi j
         | _ \<Rightarrow> False) (requests_of 1 H')"
proof -
  obtain l j where tick: "job_tick j = Some (''kick'', ''oneshot'')"
      and r: "reconciles_run two_reconcilers ''ns'' ''demo'' ((Appeared two_fi # kill_run) @ kick_run l j)"
    using kick_history by blast
  have "Gone \<notin> set (kick_run l j)" by (auto simp: kick_run_def)
  from recorded_outcome_final [OF kill_run_served kick_run_served r this kick_current]
  have "open_in killed_fi j" by (simp add: kick_run_def)
  then have "list_ex (\<lambda>x. case x of
        OpCreateJob j e \<Rightarrow> job_tick j = Some (''kick'', ''oneshot'') \<and> open_in killed_fi j
      | _ \<Rightarrow> False) (requests_of 1 (kick_run l j))"
    using tick by (simp add: kick_run_def)
  then show ?thesis using r kill_recorded by blast
qed


text \<open>C14: Let any number of runs use one lease, their requests interleaved in any way, on a server that
  creates only what is absent, accepts an update only with the version of the stored object, and may
  answer reads with any object stored before. A run that stores the lease after another one stored it,
  with no deletion between, started later than the duration of the first one and its skew allow.\<close>

theorem lease_acquisitions_apart:
  assumes "served ns n (H @ (j, x) # H') st objs" "wrote x = Some l'" "holder_run H = Some i"
    and "acquirer r fi p now s ns n (run_ops j (H @ (j, x) # H'))"
    and "acquirer r' fi' p' t s' ns n (run_ops i (H @ (j, x) # H'))"
  shows "\<exists>y l. (i, y) \<in> set H \<and> wrote y = Some l \<and> (t = zero_time \<or> t + stale_after (leaseDuration l) < now)"
  by (rule acquisitions_apart [OF assms])

theorem lease_acquisitions_apart_witness:
  "\<exists>l l' y l0. (0, y) \<in> set (demo_history l l') \<and> wrote y = Some l0
     \<and> (demo_time = zero_time \<or> demo_time + stale_after (leaseDuration l0) < demo_time + 1000 * second)"
proof -
  obtain l l' where d: "version l' = []"
    "acquirer lease_reconciler demo_fi demo_plan demo_time (lease_sys []) ''ns'' ''fi-job'' (run_ops 0 (demo_history l l'))"
    "acquirer lease_reconciler demo_fi demo_plan (demo_time + 1000 * second) (lease_sys [with_version [] l])
         ''ns'' ''fi-job'' (run_ops 1 (demo_history l l'))"
    using demo_takeover by blast
  obtain st objs where s: "served ''ns'' ''fi-job'' (demo_history l l') st objs" using demo_served [OF d(1)] by blast
  let ?H = "take 4 (demo_history l l')"
  have h: "holder_run ?H = Some 0" by (simp add: demo_history_def holder_run_def note_win_def)
  have e: "demo_history l l' = ?H @ (1, OpUpdateLease l' None) # drop 5 (demo_history l l')"
    by (simp add: demo_history_def)
  have w: "wrote (OpUpdateLease l' None) = Some l'" by simp
  note apart = lease_acquisitions_apart [of _ _ ?H 1 "OpUpdateLease l' None" "drop 5 (demo_history l l')",
      folded e, OF s w h d(3,2)]
  then show ?thesis by (meson in_set_takeD)
qed

text \<open>C15: A lease taken over at time now is not stale, and so is not taken by anybody, until its
  duration has passed.\<close>

theorem acquired_lease_exclusive:
  assumes "take_lease fi p h now l0 = Some l" "now \<noteq> zero_time" "in_i32 (leaseDuration l0)"
    and "now' \<le> now + leaseDuration l0 * second"
  shows "\<not> lease_stale l now'"
  using take_lease_holder [OF assms(1)] assms by (intro fresh_not_stale [of l now]) auto

theorem acquired_lease_exclusive_witness:
  "\<exists>l. take_lease demo_fi demo_plan ''holder'' demo_time (demo_lease 0) = Some l
     \<and> \<not> lease_stale l (demo_time + 60 * second)"
proof -
  obtain l where l: "take_lease demo_fi demo_plan ''holder'' demo_time (demo_lease 0) = Some l"
    using demo_takes by blast
  have "leaseDuration (demo_lease 0) = 60" by code_simp
  moreover have "demo_time \<noteq> zero_time" by code_simp
  ultimately show ?thesis
    using acquired_lease_exclusive [OF l, of "demo_time + 60 * second"] l by (simp add: in_i32_def)
qed

text \<open>C16: When cleanupAll returns no error, each target, those of the spec and those listed under the
  label of the FaultInjection, was not found, or is the operator's own and was deleted as far as a
  request can do it, or had no injected rules, or was updated to the rules of others.\<close>

theorem cleanupAll_cleans:
  "case result_of (cleanupAll r fi) s of
     None \<Rightarrow> all_cleaned fi (ops_of (cleanupAll r fi) s)
   | Some _ \<Rightarrow> True"
  using runs_ops_of [OF runs_cleanupAll, of r fi s] by (simp split: option.split)

text \<open>C17: The generated DeepCopy of each of the types takes a pointer of its type, nil or to a value of
  whatever shape, to one that reads as the same tree, reaches cells it allocated and no other, and
  leaves the cells that were there as they were, provided the copies of metav1 do the same.\<close>

theorem deep_copies_faithful:
  assumes "lib_ok L"
  shows "list_all (\<lambda>(T, g). copies (YPtr T) g) (generated_copies L)"
  by (rule generated_copies_ok [OF assms])

theorem deep_copies_faithful_witness:
  "list_all (\<lambda>(T, g). copies (YPtr T) g) (generated_copies demo_lib) \<and> length (generated_copies demo_lib) = 32"
  using deep_copies_faithful [OF demo_lib_ok] by (simp add: generated_copies_def)

text \<open>C18: DeepCopyObject of a FaultInjection returns an object of that type and never a nil pointer inside
  an interface; original and copy read as the same tree, the original still does after any writes to
  the cells the copy is made of, and the copy after any writes to all other cells.\<close>

theorem copied_object_isolated:
  assumes "lib_ok L" "typed (FaultInjection_t L) u" "reads (\<lambda>_. True) m (TPtr u) p"
  shows "case FaultInjection_DeepCopyObject L p m of
      Some (Object T c, m') \<Rightarrow> T = ''FaultInjection'' \<and> isolated (TPtr u) m p m' c
    | _ \<Rightarrow> False"
  by (rule copy_object_ok [OF assms])

theorem copied_object_isolated_witness:
  "case build (TPtr demo_tree) [] of (p, m) \<Rightarrow>
     (case FaultInjection_DeepCopyObject demo_lib p m of
        Some (Object T c, m') \<Rightarrow> T = ''FaultInjection'' \<and> isolated (TPtr demo_tree) m p m' c
      | _ \<Rightarrow> False)"
proof (cases "build (TPtr demo_tree) []")
  case (Pair p m)
  then have "reads (\<lambda>_. True) m (TPtr demo_tree) p" using demo_reads by simp
  from copied_object_isolated [OF demo_lib_ok demo_typed this] show ?thesis by (simp only: Pair prod.case)
qed

text \<open>C19: Let SetControllerReference and the watches behave as documented, and let the scheme be set. For
  each Job that Reconcile creates, an event on an object with its metadata makes a request for a
  FaultInjection that was read before in the run: the end of a Job comes back to its experiment.\<close>

theorem jobs_wake:
  assumes "watch_law controller_registration requests" "owner_law r" "rcScheme r"
  shows "after (wakes requests) [] (ops_of (Reconcile r ns n) s)"
  by (rule created_jobs_wake [OF assms])

theorem jobs_wake_witness:
  "after (wakes demo_requests) [] (ops_of (Reconcile owner_reconciler ''ns'' ''demo'') demo_sys)"
  by (rule jobs_wake [OF demo_watch demo_owner_law]) (simp add: owner_reconciler_def demo_reconciler_def)

text \<open>C20: When a pass over a target has sent an update, a later pass over an object with the spec of that
  update, by whatever reconciler, makes no request and emits no event: repeated reconciles settle.\<close>

theorem reapplied_target_settles:
  assumes "buildDesiredByVSTarget fi = Some (m, mg)" "mget k m = Some d"
    and "OpUpdateVS vs' e \<in> set (ops_of (inject_target r fi ns n d vs created) s)" "vsSpec vs'' = vsSpec vs'"
  shows "run_state (inject_target r' fi ns' n' d vs'' False) s' = (Inr False, s')"
  using sent_settles [OF assms, of r' ns' n'] by simp

theorem reapplied_target_settles_witness:
  "\<exists>m mg d vs'. buildDesiredByVSTarget demo_fi = Some (m, mg) \<and> mget (joinKey ''ns'' ''web'') m = Some d
     \<and> OpUpdateVS vs' None \<in> set (ops_of (inject_target (demo_reconciler demo_fi demo_time) demo_fi ''ns'' ''web'' d demo_vs True) demo_sys)
     \<and> run_state (inject_target (demo_reconciler demo_fi demo_time) demo_fi ''ns'' ''web'' d vs' False) demo_sys
       = (Inr False, demo_sys)"
proof -
  obtain mg d where "buildDesiredByVSTarget demo_fi = Some ([(joinKey ''ns'' ''web'', d)], mg)" "dsManaged d = False"
    using demo_desired by blast
  then obtain m where d: "buildDesiredByVSTarget demo_fi = Some (m, mg)" "mget (joinKey ''ns'' ''web'') m = Some d"
      "dsManaged d = False"
    by auto
  obtain vs' where s: "OpUpdateVS vs' None \<in> set (ops_of (inject_target (demo_reconciler demo_fi demo_time) demo_fi
      ''ns'' ''web'' d demo_vs True) demo_sys)"
    using demo_sends [OF d(3) demo_route(1)] by blast
  show ?thesis using reapplied_target_settles [OF d(1,2) s refl] d s by blast
qed

text \<open>C21: When the rules of others in a target are changed while the injected rules are in place, a later
  pass writes the injected rules exactly as the first pass did: their route stays the one found
  first and does not follow a change of the routes of others.\<close>

theorem injected_route_kept:
  assumes "buildDesiredByVSTarget fi = Some (m, mg)" "mget k m = Some d"
    and "OpUpdateVS vs1 e \<in> set (ops_of (inject_target r fi ns n d vs created) s)"
    and "http_of vs2 = filter (injected (fiRuleNamePrefix fi)) (http_of vs1) @ others"
    and "OpUpdateVS vs3 e' \<in> set (ops_of (inject_target r fi ns n d vs2 created') s')"
  shows "filter (injected (fiRuleNamePrefix fi)) (http_of vs3) = filter (injected (fiRuleNamePrefix fi)) (http_of vs1)"
  by (rule sent_routes_kept [OF assms])

theorem injected_route_kept_witness:
  "\<exists>m mg d vs1 vs3. buildDesiredByVSTarget demo_fi = Some (m, mg) \<and> mget (joinKey ''ns'' ''web'') m = Some d
     \<and> OpUpdateVS vs3 None \<in> set (ops_of (inject_target (demo_reconciler demo_fi demo_time) demo_fi ''ns'' ''web'' d
         (set_http demo_vs (filter (injected (fiRuleNamePrefix demo_fi)) (http_of vs1) @ [demo_route])) True) demo_sys)
     \<and> filter (injected (fiRuleNamePrefix demo_fi)) (http_of vs3) = filter (injected (fiRuleNamePrefix demo_fi)) (http_of vs1)"
proof -
  obtain mg d where "buildDesiredByVSTarget demo_fi = Some ([(joinKey ''ns'' ''web'', d)], mg)" "dsManaged d = False"
    using demo_desired by blast
  then obtain m where d: "buildDesiredByVSTarget demo_fi = Some (m, mg)" "mget (joinKey ''ns'' ''web'') m = Some d"
      "dsManaged d = False"
    by auto
  obtain vs1 where s: "OpUpdateVS vs1 None \<in> set (ops_of (inject_target (demo_reconciler demo_fi demo_time) demo_fi
      ''ns'' ''web'' d demo_vs True) demo_sys)"
    using demo_sends [OF d(3) demo_route(1)] by blast
  let ?vs2 = "set_http demo_vs (filter (injected (fiRuleNamePrefix demo_fi)) (http_of vs1) @ [demo_route])"
  have h: "http_of ?vs2 = filter (injected (fiRuleNamePrefix demo_fi)) (http_of vs1) @ [demo_route]" by simp
  have "findAnyExistingRoute ?vs2 \<noteq> None"
    unfolding findAnyExistingRoute_http h find_route_None using demo_route(2) by simp
  then obtain vs3 where s3: "OpUpdateVS vs3 None \<in> set (ops_of (inject_target (demo_reconciler demo_fi demo_time) demo_fi
      ''ns'' ''web'' d ?vs2 True) demo_sys)"
    using demo_sends [OF d(3)] by blast
  show ?thesis using injected_route_kept [OF d(1,2) s h s3] d s3 by blast
qed

text \<open>C22: A cancellation that ends without an error found a terminal phase, or cleaned up and persisted
  Cancelled; an expiry cleaned up and persisted Completed; a rejected spec persisted Error.\<close>

theorem ends_persist_their_phase:
  "(case snd (result_of (handleCancellation r ns n fi now) s) of
      None \<Rightarrow> stPhase (fiStatus fi) \<in> {CancelledPhase, CompletedPhase}
        \<or> all_cleaned fi (ops_of (handleCancellation r ns n fi now) s)
          \<and> phase_persisted CancelledPhase (ops_of (handleCancellation r ns n fi now) s)
    | Some _ \<Rightarrow> True)
   \<and> (case snd (result_of (handleExpiry r fi) s) of
      None \<Rightarrow> all_cleaned fi (ops_of (handleExpiry r fi) s)
          \<and> phase_persisted CompletedPhase (ops_of (handleExpiry r fi) s)
    | Some _ \<Rightarrow> True)
   \<and> (case snd (result_of (handleValidationError r fi e) s) of
      None \<Rightarrow> phase_persisted ErrorPhase (ops_of (handleValidationError r fi e) s)
    | Some _ \<Rightarrow> True)"
  using runs_ops_of [OF runs_end_persisted(1), of r ns n fi now s]
    runs_ops_of [OF runs_end_persisted(2), of r fi s] runs_ops_of [OF runs_end_persisted(3), of r fi e s]
  by (simp split: option.split)

text \<open>C23: When applyPodFaults stops the reconcile without an error, because a job failed or there are
  too few candidates, the phase Error was persisted first.\<close>

theorem pod_fault_stop_is_error:
  "case result_of (applyPodFaults r fi now) s of
     (True, _, None) \<Rightarrow> phase_persisted ErrorPhase (ops_of (applyPodFaults r fi now) s)
   | _ \<Rightarrow> True"
  using runs_ops_of [OF runs_stop_pods, of r fi now s]
  by (auto split: prod.split option.split bool.split)

text \<open>C24: Of a spec that the CRD schema admits the operator still has to check only what mesh_open says
  of each mesh action and that each pod action targets the namespace of the FaultInjection: then the
  specification of validateSpec holds exactly when these checks do.\<close>

theorem admission_leaves_open:
  assumes "admits_spec (fiSpec fi)"
  shows "spec_ok fi = (list_all (mesh_open (spBlastRadius (fiSpec fi))) (meshFaults fi)
    \<and> list_all (\<lambda>a. resolvePodFaultTargetNS fi a = fiNamespace fi) (podFaults fi))"
  by (rule admitted_spec [OF assms])

theorem admission_leaves_open_witness: "spec_ok demo_fi"
proof -
  have "admits_spec (fiSpec demo_fi)" by code_simp
  moreover have "list_all (mesh_open (spBlastRadius (fiSpec demo_fi))) (meshFaults demo_fi)" by code_simp
  moreover have "list_all (\<lambda>a. resolvePodFaultTargetNS demo_fi a = fiNamespace demo_fi) (podFaults demo_fi)"
    by code_simp
  ultimately show ?thesis using admission_leaves_open [of demo_fi] by blast
qed

text \<open>C25: Planning the pod faults of a spec that the CRD schema admits has no error branch left: it fails
  only when the name of an action makes podFaultNames panic.\<close>

theorem admitted_plans_fail_only_by_name:
  assumes "admits_spec (fiSpec fi)"
  shows "case snd (snd (buildPodFaultPlans fi now startedAt)) of
      None \<Rightarrow> True
    | Some e \<Rightarrow> e = EPanic \<and> list_ex (\<lambda>a. \<exists>t. podFaultNames fi (paName a) t = None) (podFaults fi)"
  by (rule admitted_plans [OF assms])

theorem admitted_plans_fail_only_by_name_witness:
  "case snd (snd (buildPodFaultPlans demo_fi (demo_time + 5 * second) demo_time)) of
     None \<Rightarrow> True
   | Some e \<Rightarrow> e = EPanic \<and> list_ex (\<lambda>a. \<exists>t. podFaultNames demo_fi (paName a) t = None) (podFaults demo_fi)"
proof -
  have "admits_spec (fiSpec demo_fi)" by code_simp
  then show ?thesis by (rule admitted_plans_fail_only_by_name)
qed

text \<open>C26: A reconcile that gets to its end asks to come back at the next due tick or at the expiry,
  whichever is first, after one second when a tick is overdue. The delay is positive, and so taken as a
  request to come back, exactly when the expiry lies ahead of the first reading of the clock or a
  tick is overdue: an expiry that passes during the run leaves no request.\<close>

theorem requeue_at_next_work:
  assumes "stExpiresAt (fiStatus fi) = Some e" "rcNow r (world s) = (t1, w1)" "rcNow r w1 = (t2, w2)"
    and "rcNow r w2 = (t3, w3)"
  shows "result_of (requeue_step r fi due) s
      = (\<lparr>crRequeue = False, crRequeueAfter = requeue_after t1 t2 t3 e due\<rparr>, None)
    \<and> (0 < requeue_after t1 t2 t3 e due) = (t1 < e \<or> (case due of Some d \<Rightarrow> d \<le> t3 | None \<Rightarrow> False))"
  using requeue_step_result [OF assms] requeue_after_pos by blast

theorem requeue_at_next_work_witness:
  "result_of (requeue_step (demo_reconciler demo_fi (demo_time + 20 * second)) demo_fi (Some (demo_time + 30 * second)))
       demo_sys
     = (\<lparr>crRequeue = False, crRequeueAfter = 10 * second\<rparr>, None)"
proof -
  let ?t = "demo_time + 20 * second"
  have e: "stExpiresAt (fiStatus demo_fi) = Some (demo_time + 60 * second)" by (simp add: demo_fi_def demo_status_def)
  have now: "rcNow (demo_reconciler demo_fi ?t) w = (?t, w)" for w :: unit by (simp add: demo_reconciler_def)
  have "requeue_after ?t ?t ?t (demo_time + 60 * second) (Some (demo_time + 30 * second)) = 10 * second" by code_simp
  then show ?thesis using requeue_at_next_work [OF e now now now, of "Some (demo_time + 30 * second)"] by simp
qed

text \<open>C27: The permissions that the RBAC markers grant cover every request of a Reconcile but one: a
  request is not permitted exactly when it is the deletion of a finished Pod that was listed under the
  podfault labels, so that this part of the cleanup always fails.\<close>

theorem requests_permitted:
  "after (\<lambda>before x. permitted x \<noteq> finished_pod_cleanup before x) [] (ops_of (Reconcile r ns n) s)"
  by (rule after_weaken [OF runs_ops_of [OF runs_law_Reconcile] law_permitted])

text \<open>C28: When buildPodFaultPlans returns no error, its plans are those of the actions of the spec in their
  order, exactly one for each action that is due, with the tick, names, target, termination and cap of
  that action at this time, and none for an action whose first tick is still to come; and the due time is
  the earliest of the next ticks of the windowed actions. It returns an error exactly with the first
  action that cannot be planned, for the reason that holds of it, and then no plan.\<close>

theorem plans_are_of_the_spec:
  "case buildPodFaultPlans fi now startedAt of
     (ps, due, None) \<Rightarrow> each_planned fi now startedAt (podFaults fi) ps
        \<and> first_of (map (next_tick now startedAt) (podFaults fi)) due
   | (ps, due, Some e) \<Rightarrow> ps = [] \<and> (\<exists>before a after new. podFaults fi = before @ a # after
        \<and> each_planned fi now startedAt before new \<and> plan_error fi now startedAt a e)"
proof -
  obtain ps due err where b: "buildPodFaultPlans fi now startedAt = (ps, due, err)"
    using prod_cases3 by blast
  have "first_of [] None" by (simp add: first_of_def)
  then show ?thesis
    using b plan_loop_sound [of fi now startedAt "podFaults fi" "[]" None ps due "[]"]
      plan_loop_error [of fi now startedAt "podFaults fi" "[]" None ps due]
    by (cases err) (auto simp: buildPodFaultPlans_def)
qed

text \<open>C29: For a window of a positive number of seconds and an experiment of less than 2^62
  nanoseconds, the tick is the number k of whole intervals since the start, now lies in the k-th
  interval, and the due time is its end.\<close>

theorem tick_boundaries:
  assumes "paWindow a = Some w" "in_i32 (pwIntervalSeconds w)" "0 < pwIntervalSeconds w"
    and "startedAt \<le> now" "now - startedAt < 2 ^ 62"
  shows "\<exists>k. computeWindowedTick a now startedAt =
        Inr (show_int k, Some (startedAt + (k + 1) * (pwIntervalSeconds w * second)), True,
          Some (startedAt + (k + 1) * (pwIntervalSeconds w * second)))
      \<and> 0 \<le> k \<and> startedAt + k * (pwIntervalSeconds w * second) \<le> now
      \<and> now < startedAt + (k + 1) * (pwIntervalSeconds w * second)"
  using tick_window [OF assms] by blast

theorem tick_boundaries_witness:
  "\<exists>k. computeWindowedTick (demo_pod_fault\<lparr>paWindow := Some \<lparr>pwIntervalSeconds = 30, pwMaxTotalPodsAffected = 1\<rparr>\<rparr>)
        (demo_time + 75 * second) demo_time =
        Inr (show_int k, Some (demo_time + (k + 1) * (30 * second)), True,
          Some (demo_time + (k + 1) * (30 * second)))"
  using tick_boundaries [of "demo_pod_fault\<lparr>paWindow := Some \<lparr>pwIntervalSeconds = 30, pwMaxTotalPodsAffected = 1\<rparr>\<rparr>"
      "\<lparr>pwIntervalSeconds = 30, pwMaxTotalPodsAffected = 1\<rparr>" demo_time "demo_time + 75 * second"]
  by (auto simp: in_i32_def second_def)

text \<open>C30: The cap on the pods of an action is the least of the positive caps that are set for it (blast
  radius, selection, and window for WINDOWED), and 0, which means no cap, when none is.\<close>

theorem effective_cap_is_least:
  "capEffectiveMaxPods fi a mode = least_cap (declared_caps fi a mode)"
  by (rule capEffectiveMaxPods_least)

text \<open>C31: Let the selection of an action pass validatePodFaultSelection, as that of every plan does, and let
  there be fewer than 2^31 candidates. Then the selected pods are the first candidates: as many as the
  count asks for, or the percentage of them rounded up, clamped to between one and all of them, and
  no more than the cap. (An unchecked selection of less than one pod takes none.)\<close>

theorem selection_is_prefix:
  assumes "validatePodFaultSelection a = None" "int (length cs) < 2 ^ 31"
  shows "selectPodNamesDeterministically cs (psMode (paSelection a)) (psCount (paSelection a)) (psPercent (paSelection a)) m =
    (let n = int (length cs);
         d = max 1 (min (selection_size n (psMode (paSelection a)) (psCount (paSelection a)) (psPercent (paSelection a))) n)
     in pod_names (take (nat (if m > 0 then min d m else d)) cs))"
  using assms by (rule select_clamped)

theorem selection_is_prefix_witness:
  "selectPodNamesDeterministically [demo_pod ''a'', demo_pod ''b'', demo_pod ''c''] PodSelectionModePercent None (Some 34) 0 = [''a'', ''b'']"
proof -
  let ?a = "demo_pod_fault\<lparr>paSelection := \<lparr>psMode = PodSelectionModePercent, psCount = None, psPercent = Some 34,
    psMaxPodsAffected = None\<rparr>\<rparr>"
  have size: "selection_size 3 PodSelectionModePercent None (Some 34) = 2"
    using ceil_percent [of 102] by (simp add: selection_size_def)
  have "validatePodFaultSelection ?a = None" by code_simp
  from selection_is_prefix [OF this, of "[demo_pod ''a'', demo_pod ''b'', demo_pod ''c'']" 0]
  have "selectPodNamesDeterministically [demo_pod ''a'', demo_pod ''b'', demo_pod ''c''] PodSelectionModePercent None (Some 34) 0
    = pod_names (take 2 [demo_pod ''a'', demo_pod ''b'', demo_pod ''c''])"
    using size by (simp add: Let_def)
  then show ?thesis by (simp add: pod_names_def demo_pod_def demo_meta_def new_meta_def)
qed

text \<open>C32: Patching rules under the prefix into a VirtualService that has none leaves all its rules in
  place and in order behind them, and cleaning afterwards gives back the list it had.\<close>

theorem patch_keeps_others:
  assumes "list_all (\<lambda>d. HasPrefix (rule_name d) p) ds" "list_all (\<lambda>x. \<not> injected p x) (http_of vs)"
  shows "http_of (fst (patchVirtualServiceHTTP vs p ds)) = map JMap ds @ http_of vs
    \<and> http_of (fst (patchVirtualServiceHTTP (fst (patchVirtualServiceHTTP vs p ds)) p [])) = http_of vs"
  using assms http.get_patch [of vs p ds] http.patch_undo [of ds p vs]
  by (simp add: filter_id_conv list_all_iff)

theorem patch_keeps_others_witness:
  "http_of (fst (patchVirtualServiceHTTP (fst (patchVirtualServiceHTTP demo_vs ''fi-demo-''
      [[(''name'', JStr ''fi-demo-inbound-slow'')]])) ''fi-demo-'' [])) = http_of demo_vs"
proof -
  have d: "list_all (\<lambda>d. HasPrefix (rule_name d) ''fi-demo-'') [[(''name'', JStr ''fi-demo-inbound-slow'')]]"
    by code_simp
  have o: "list_all (\<lambda>x. \<not> injected ''fi-demo-'' x) (http_of demo_vs)" by code_simp
  show ?thesis using patch_keeps_others [OF d o] by blast
qed

text \<open>C33: The desired state of each target collects, in order of rule name, the rules of the actions
  aimed at it, the hosts of its OUTBOUND actions, and whether there is one; it is not computed, for a
  nil dereference, exactly when some action lacks a pointer its direction or type reads.\<close>

theorem desired_state_of_actions:
  "map_option (\<lambda>(m, mg). desired_at k m) (buildDesiredByVSTarget fi) =
     (if list_ex (\<lambda>a. (maDirection a = INBOUNDDirection \<or> maDirection a = OUTBOUNDDirection)
          \<and> \<not> renderable a) (meshFaults fi)
      then None else Some (sort_desired (desired_spec fi k zero_desired (meshFaults fi))))"
  unfolding list_ex_iff by (rule buildDesired_spec)

text \<open>C34: The expiry is the start plus durationSeconds as long as that is at most 9223372036 seconds; for
  one second more the product with time.Second wraps, and the expiry lies before the start.\<close>

theorem expiry_within_range:
  "(if 0 < brDurationSeconds (spBlastRadius (fiSpec fi)) \<and> brDurationSeconds (spBlastRadius (fiSpec fi)) \<le> 9223372036
    then expiry_of fi start = start + brDurationSeconds (spBlastRadius (fiSpec fi)) * second
    else if brDurationSeconds (spBlastRadius (fiSpec fi)) = 9223372037 then expiry_of fi start < start
    else True)"
  using expiry_exact [of fi start] expiry_wraps [of fi start] by simp

text \<open>C35: podFaultNames gives Job and Lease one name, a DNS label of at most 63 characters; it panics only
  when the readable name is longer than that.\<close>

theorem pod_fault_names_ok:
  "case podFaultNames fi a t of
     Some (j, l) \<Rightarrow> j = l \<and> length j \<le> 63 \<and> dns_name j
   | None \<Rightarrow> 54 < length (sanitizeName (fiName fi)) + length (sanitizeName a) + length (sanitizeName t)"
proof (cases "podFaultNames fi a t")
  case None
  then have "\<not> length (sanitizeName (fiName fi)) + length (sanitizeName a) + length (sanitizeName t) \<le> 54"
    using podFaultNames_short [of fi a t] by (auto simp: Let_def)
  then show ?thesis using None by simp
next
  case (Some jl)
  then show ?thesis using podFaultNames_ok [of fi a t] by (auto split: prod.split)
qed

text \<open>C36: safeLabelValue returns a DNS name of at most 63 characters, and panics exactly when the
  normalised name is longer than that and its FNV hash is below 36^9.\<close>

theorem safeLabelValue_ok:
  "case safeLabelValue s of
     Some t \<Rightarrow> dns_name t \<and> length t \<le> 63
   | None \<Rightarrow> 63 < length (sanitizeName s) \<and> unat (fnv64a (sanitizeName s)) < 36 ^ 9"
  using lab.lab_dns [of s] lab.lab_bound [of s] safeLabelValue_None [of s]
  by (simp split: option.split)

text \<open>C37: The requests and the result of a status update, whatever the server answers: every round starts with
  a new read of the object; a read that fails ends the round with its error; an edit that asks for no write
  ends it without one; else the object just read is written with the edit of its own status. The update
  goes on after a round exactly when that round ended in a conflict and retries are left, and returns the
  error of the last round, so it makes at most two requests for each of the retries and the first attempt.
  markRunning makes such an update with its own edit, unless the object it is given is running already.\<close>

theorem status_update_rounds:
  "status_rounds edit ns n (rcRetries r) (result_of (update_status r ns n edit) s) (ops_of (update_status r ns n edit) s)
   \<and> length (ops_of (update_status r ns n edit) s) \<le> 2 * (rcRetries r + 1)
   \<and> marked_running r fi (result_of (markRunning r fi) s) (ops_of (markRunning r fi) s)"
proof -
  have "status_rounds edit ns n (rcRetries r) (result_of (update_status r ns n edit) s) (ops_of (update_status r ns n edit) s)"
    by (rule runs_ops_of [OF runs_update_rounds])
  then show ?thesis using rounds_length runs_ops_of [OF runs_marked_running] by blast
qed

text \<open>C38: The prefix that marks the rules of a FaultInjection named f also marks every rule of one named
  f-x: the test by which the reconcile and the cleanup of f pick the rules they take out holds of
  those rules.\<close>

theorem rule_prefix_overlaps:
  "injected (fiRuleNamePrefix (fi\<lparr>fiMeta := (fiMeta fi)\<lparr>oName := f\<rparr>\<rparr>))
     (JMap [(''name'', JStr (injectedRuleName (fi'\<lparr>fiMeta := (fiMeta fi')\<lparr>oName := f @ ''-'' @ x\<rparr>\<rparr>) a))])"
  by (simp add: rule_name_def getString_def injectedRuleName_def fiRuleNamePrefix_def HasPrefix_def)

text \<open>C39: When the manager is started, the command line was parsed and every call before succeeded, in
  this order: configuration, manager with the options of the flags, controller, health and ready
  check. These options offer only HTTP/1.1 unless enable-http2 is set, and put authentication on the
  metrics endpoint exactly when metrics-secure is set; the holder of leases is always fi-operator.\<close>

theorem manager_starts_secured:
  assumes "StartManager \<in> set (fst (main_run lib ok r args))"
  shows "\<exists>f rest. parse_flags lib args default_flags = Inr (f, rest)
    \<and> fst (main_run lib ok r args) = [GetConfig, NewManager (manager_options f),
        SetupController ''fi-operator'', AddHealthzCheck, AddReadyzCheck, StartManager]
    \<and> list_all ok [GetConfig, NewManager (manager_options f), SetupController ''fi-operator'',
        AddHealthzCheck, AddReadyzCheck]
    \<and> secured f (manager_options f)"
  using main_run_started [OF assms] manager_secured by (simp add: main_calls_holder)

theorem manager_starts_secured_witness:
  "\<exists>f. parse_flags (\<lambda>_. None) [''--leader-elect'', ''-metrics-bind-address'', '':8443''] default_flags = Inr (f, [])
     \<and> secured f (manager_options f)"
proof -
  let ?args = "[''--leader-elect'', ''-metrics-bind-address'', '':8443'']"
  have p: "parse_flags (\<lambda>_. None) ?args default_flags
      = Inr (default_flags\<lparr>enableLeaderElection := True, metricsAddr := '':8443''\<rparr>, [])" by code_simp
  then have "StartManager \<in> set (fst (main_run (\<lambda>_. None) (\<lambda>_. True) (demo_reconciler demo_fi demo_time) ?args))"
    by (simp add: main_run_def main_calls_def)
  from manager_starts_secured [OF this] p show ?thesis by auto
qed

text \<open>C40: A command line that prints every flag with its value parses back to these flags, with nothing
  left over, whatever characters the values hold and whatever the flags were before.\<close>

theorem flags_roundtrip: "parse_flags lib (print_flags f) f0 = Inr (f, [])"
  by (rule print_flags_parse)

section \<open>Further facts\<close>

text \<open>Facts about single steps that the properties above are stronger than, or do not need.\<close>

lemma reconcile_traffic: "after traffic_capped [] (ops_of (Reconcile r ns n) s)"
  by (rule after_weaken [OF runs_ops_of [OF runs_law_Reconcile] law_traffic])

lemma experiment_leaves_no_trace:
  assumes "vs_store r look ns n" "http_of vs0 \<noteq> []" "\<not> managed_by_fi fi vs0" "fiName fi = n"
    and "list_all (\<lambda>x. \<not> injected (fiRuleNamePrefix fi) x) (http_of vs0)"
    and "look w (splitKey k) = Some vs0" "history r look ns n (splitKey k) w (world s)"
    and "fst (rcGetFI r ns n (world s)) = Inr fi" "dated fi"
    and "has_to_end (fst (rcNow r (snd (rcGetFI r ns n (world s))))) fi"
    and "k \<in> set (spec_targets fi)" "snd (result_of (Reconcile r ns n) s) = None"
  shows "\<exists>vs. look (world (snd (run_state (Reconcile r ns n) s))) (splitKey k) = Some vs
    \<and> http_of vs = http_of vs0 \<and> kept fi vs0 vs"
  by (rule no_trace [OF assms])

lemma mesh_faults_live:
  assumes "vs_server r look" "vs_creates r look" "buildDesiredByVSTarget fi = Some (m, mg)"
  shows "case result_of (applyDesiredTargets r fi m) s of
      Inr False \<Rightarrow> list_all (\<lambda>a. case action_target fi a of
          None \<Rightarrow> True
        | Some k \<Rightarrow> target_live look fi (desired_at k m) k (world (snd (run_state (applyDesiredTargets r fi m) s))))
        (meshFaults fi)
    | _ \<Rightarrow> True"
  using tripleD [OF applyDesired_live [OF assms, where P = "\<lambda>_. True"], where s = s]
  by (simp add: list_all_iff split: sum.split bool.split)

lemma pod_faults_progress:
  "case result_of (applyPodFaults r fi now) s of
     (False, next, None) \<Rightarrow>
       (case stStartedAt (fiStatus fi) of
          None \<Rightarrow> True
        | Some t0 \<Rightarrow> list_all (\<lambda>p. settled r fi now p (ops_of (applyPodFaults r fi now) s)
            \<or> awaited fi p (ops_of (applyPodFaults r fi now) s) \<and> due_within (now + 2 * second) next)
            (fst (buildPodFaultPlans fi now t0)))
   | _ \<Rightarrow> True"
  using runs_ops_of [OF runs_told_pods, of r fi now s] by (auto split: prod.splits option.splits bool.splits)

lemma mesh_faults_applied:
  "case result_of (applyDesiredTargets r fi m) s of
     Inr False \<Rightarrow> all_applied fi m (ops_of (applyDesiredTargets r fi m) s)
   | _ \<Rightarrow> True"
  using runs_ops_of [OF runs_all_applied, of r fi m s] by (simp split: sum.split bool.split)

lemma finished_tick_not_rerun:
  "ops_of (plan_body r (fi\<lparr>fiStatus := executed_status p now b msg st\<rparr>) now' p) s = []"
  by (rule plan_body_skip [OF skip_after_executed])

lemma executed_tick_recorded:
  "find_tick (stPodFaults (executed_status p now b msg st)) k =
     (if k = plan_key p
      then Some (finish_tick p now b msg
        (case find_tick (stPodFaults st) k of Some e \<Rightarrow> e | None \<Rightarrow> new_tick (fst k) (snd k)))
      else find_tick (stPodFaults st) k)"
  using ticks.find_change [of "finish_tick p now b msg" "stPodFaults st" "plan_key p" k]
  by (cases "k = plan_key p") (auto simp: executed_status_eq)

lemma candidates_order_independent:
  assumes "mset l = mset l'" "distinct (pod_names l)"
  shows "candidate_pods l = candidate_pods l'"
  using assms by (rule candidate_pods_perm)

lemma patch_idempotent:
  assumes "list_all (\<lambda>d. HasPrefix (rule_name d) p) ds"
  shows "patchVirtualServiceHTTP (fst (patchVirtualServiceHTTP vs p ds)) p ds
      = (fst (patchVirtualServiceHTTP vs p ds), False)"
  using assms http.patch_patch [of ds p vs ds] patch_changed [of "fst (patchVirtualServiceHTTP vs p ds)" p ds]
  by (simp add: prod_eq_iff list_all_iff)

lemma lifecycle_result:
  "result_of (ensureLifecycle r fi) s = lifecycle_spec (fst (rcNow r (world s))) fi
   \<and> lifecycle_spec t (fst (lifecycle_spec t' fi)) = (fst (lifecycle_spec t' fi), False)"
  by (simp add: ensureLifecycle_result lifecycle_idem)

lemma base36_reads_back:
  "read36 (base36u64 v) = unat v \<and> length (base36u64 v) \<le> 13
   \<and> (slice_to 10 (base36u64 v) = None) = (unat v < 36 ^ 9)"
proof -
  have "unat v < 2 ^ LENGTH(64)" by (rule unsigned_less)
  then have "unat v < 36 ^ 13" by simp
  then show ?thesis using base36u64_length [of 13 v] by (simp add: read36_base36 slice36_None)
qed

end
